(* ===== verification/Prelude.thy ===== *)
theory Prelude
  imports Complex_Main "HOL-Library.Sublist" "HOL-Library.Code_Target_Nat"
begin

text \<open>
  Shared vocabulary of the development. A JavaScript string is its UTF-8 encoding, one
  \<^typ>\<open>char\<close> per byte (a well-formed string and its UTF-8 bytes determine each other);
  the ASCII characters the code's patterns and literals mention are single bytes, and no byte of
  a longer sequence is one of them, so prefix tests, splitting at an ASCII character and ASCII
  character classes mean the same on bytes as on the code units of the source.

  The theory has the string operations of the standard library the code uses (startsWith,
  endsWith, includes, split, join, trim, toLowerCase on ASCII, the slash-collapsing replace), the
  error-or-value type, and the lemmas on them that the components share. \<open>js_simps\<close>
  collects the unfolding facts that evaluate a closed string expression.
\<close>

named_theorems js_simps "evaluation of the string operations on closed strings"

type_synonym str = string

abbreviation slash :: char where "slash \<equiv> CHR ''/''"
abbreviation dot :: char where "dot \<equiv> CHR ''.''"
abbreviation percent :: char where "percent \<equiv> CHR ''%''"

section \<open>Prefixes, suffixes, substrings\<close>

definition startsWith :: "str \<Rightarrow> str \<Rightarrow> bool" where
  "startsWith s p = (take (length p) s = p)"

definition endsWith :: "str \<Rightarrow> str \<Rightarrow> bool" where
  "endsWith s p = (drop (length s - length p) s = p)"

fun includes_str :: "str \<Rightarrow> str \<Rightarrow> bool" where
  "includes_str [] p = (p = [])"
| "includes_str (c # cs) p = (startsWith (c # cs) p \<or> includes_str cs p)"

lemma startsWith_Nil [simp]: "startsWith s []"
  by (simp add: startsWith_def)

lemma startsWith_Nil_left [simp]: "startsWith [] p = (p = [])"
  by (auto simp: startsWith_def)

lemma startsWith_Cons [simp]: "startsWith (c # cs) (d # ds) = (c = d \<and> startsWith cs ds)"
  by (auto simp: startsWith_def)

lemma startsWith_iff: "startsWith s p \<longleftrightarrow> (\<exists>r. s = p @ r)"
  by (metis append_eq_conv_conj append_take_drop_id startsWith_def)

lemma startsWith_append [simp]: "startsWith (p @ r) p"
  by (auto simp: startsWith_iff)

lemma endsWith_iff: "endsWith s p \<longleftrightarrow> (\<exists>r. s = r @ p)"
proof
  assume "endsWith s p"
  then show "\<exists>r. s = r @ p"
    by (metis append_take_drop_id endsWith_def)
next
  assume "\<exists>r. s = r @ p"
  then show "endsWith s p" by (auto simp: endsWith_def)
qed

lemma endsWith_single: "endsWith s [c] \<longleftrightarrow> s \<noteq> [] \<and> last s = c"
  by (auto simp: endsWith_iff) (metis append_butlast_last_id)

lemma includes_str_iff: "includes_str s p \<longleftrightarrow> (\<exists>a b. s = a @ p @ b)"
proof (induction s)
  case Nil
  then show ?case by auto
next
  case (Cons c cs)
  show ?case
  proof
    assume "includes_str (c # cs) p"
    then consider "startsWith (c # cs) p" | "includes_str cs p" by auto
    then show "\<exists>a b. c # cs = a @ p @ b"
    proof cases
      case 1
      then show ?thesis by (metis append_Nil startsWith_iff)
    next
      case 2
      with Cons.IH obtain a b where "cs = a @ p @ b" by auto
      then have "c # cs = (c # a) @ p @ b" by simp
      then show ?thesis by blast
    qed
  next
    assume "\<exists>a b. c # cs = a @ p @ b"
    then obtain a b where ab: "c # cs = a @ p @ b" by blast
    show "includes_str (c # cs) p"
    proof (cases a)
      case Nil
      then have "startsWith (c # cs) p" using ab by (simp add: startsWith_iff) 
      then show ?thesis by simp
    next
      case (Cons x a')
      then have "cs = a' @ p @ b" using ab by simp
      then show ?thesis using Cons.IH by auto
    qed
  qed
qed

section \<open>Splitting and joining\<close>

fun split_on :: "char \<Rightarrow> str \<Rightarrow> str list" where
  "split_on c [] = [[]]"
| "split_on c (x # xs) =
     (if x = c then [] # split_on c xs
      else case split_on c xs of [] \<Rightarrow> [[x]] | y # ys \<Rightarrow> (x # y) # ys)"

fun join :: "str \<Rightarrow> str list \<Rightarrow> str" where
  "join sep [] = []"
| "join sep [x] = x"
| "join sep (x # y # ys) = x @ sep @ join sep (y # ys)"

lemma split_on_not_Nil [simp]: "split_on c s \<noteq> []"
  by (induction s) (auto split: list.splits)

lemma join_Cons: "ys \<noteq> [] \<Longrightarrow> join sep (x # ys) = x @ sep @ join sep ys"
  by (cases ys) auto

lemma join_snoc: "xs \<noteq> [] \<Longrightarrow> join [c] (xs @ [y]) = join [c] xs @ c # y"
  by (induction "[c]" xs rule: join.induct) auto

lemma split_on_set: "y \<in> set (split_on c s) \<Longrightarrow> c \<notin> set y \<and> set y \<subseteq> set s"
proof (induction s arbitrary: y)
  case Nil
  then show ?case by simp
next
  case (Cons x xs)
  show ?case
  proof (cases "x = c")
    case True
    with Cons show ?thesis by auto
  next
    case False
    obtain z zs where z: "split_on c xs = z # zs"
      by (cases "split_on c xs") auto
    with False Cons.prems have "y = x # z \<or> y \<in> set zs" by simp
    moreover have "c \<notin> set z \<and> set z \<subseteq> set xs" using Cons.IH [of z] by (simp add: z)
    moreover have "y \<in> set zs \<Longrightarrow> c \<notin> set y \<and> set y \<subseteq> set xs"
      using Cons.IH [of y] by (simp add: z)
    ultimately show ?thesis using False by auto
  qed
qed

lemma join_split_on: "join [c] (split_on c s) = s"
proof (induction s)
  case Nil
  then show ?case by simp
next
  case (Cons x xs)
  obtain z zs where z: "split_on c xs = z # zs"
    by (cases "split_on c xs") auto
  with Cons show ?case by (cases zs) (auto simp: z)
qed

lemma join_set_cases: "c \<in> set (join [d] xs) \<Longrightarrow> (c = d \<Longrightarrow> P) \<Longrightarrow>
    (\<And>x. c \<in> set x \<Longrightarrow> x \<in> set xs \<Longrightarrow> P) \<Longrightarrow> P"
  by (induction "[d]" xs rule: join.induct) auto

lemma split_on_append: "c \<notin> set a \<Longrightarrow> split_on c (a @ c # b) = a # split_on c b"
  by (induction a) auto

lemma split_on_single: "c \<notin> set a \<Longrightarrow> split_on c a = [a]"
  by (induction a) auto

lemma split_on_eq_single: "split_on c s = [y] \<longleftrightarrow> c \<notin> set s \<and> y = s"
proof
  assume "split_on c s = [y]"
  then show "c \<notin> set s \<and> y = s"
    using split_on_set [of y c s] join_split_on [of c s] by simp
qed (simp add: split_on_single)

lemma split_on_join: "xs \<noteq> [] \<Longrightarrow> \<forall>x \<in> set xs. c \<notin> set x \<Longrightarrow> split_on c (join [c] xs) = xs"
  by (induction "[c]" xs rule: join.induct) (auto simp: split_on_append split_on_single)

section \<open>Slashes\<close>

text \<open>\<open>s.replace(/\/{2,}/g, "/")\<close>, \<open>s.replace(/\/+$/, "")\<close>.\<close>

fun collapse_slashes :: "str \<Rightarrow> str" where
  "collapse_slashes [] = []"
| "collapse_slashes [x] = [x]"
| "collapse_slashes (x # y # zs) =
     (if x = slash \<and> y = slash then collapse_slashes (y # zs)
      else x # collapse_slashes (y # zs))"

definition strip_trailing_slashes :: "str \<Rightarrow> str" where
  "strip_trailing_slashes s = rev (dropWhile (\<lambda>c. c = slash) (rev s))"

lemma set_strip_trailing: "set (strip_trailing_slashes s) \<subseteq> set s"
  unfolding strip_trailing_slashes_def by (auto dest: set_dropWhileD)

lemma set_collapse [simp]: "set (collapse_slashes s) = set s"
  by (induction s rule: collapse_slashes.induct) auto

lemma collapse_slashes_Nil_iff [simp]: "collapse_slashes s = [] \<longleftrightarrow> s = []"
  by (induction s rule: collapse_slashes.induct) auto

lemma hd_collapse_slashes [simp]: "s \<noteq> [] \<Longrightarrow> hd (collapse_slashes s) = hd s"
  by (induction s rule: collapse_slashes.induct) auto

lemma last_collapse_slashes [simp]: "s \<noteq> [] \<Longrightarrow> last (collapse_slashes s) = last s"
  by (induction s rule: collapse_slashes.induct) auto

text \<open>A string with no two slashes in a row.\<close>

fun single_slashes :: "str \<Rightarrow> bool" where
  "single_slashes (x # y # zs) = (\<not> (x = slash \<and> y = slash) \<and> single_slashes (y # zs))"
| "single_slashes _ = True"

lemma collapse_slashes_id: "single_slashes s \<Longrightarrow> collapse_slashes s = s"
  by (induction s rule: collapse_slashes.induct) auto

lemma single_slashes_Cons:
  "single_slashes (x # s) \<longleftrightarrow> (x = slash \<longrightarrow> s \<noteq> [] \<longrightarrow> hd s \<noteq> slash) \<and> single_slashes s"
  by (cases s) auto

lemma single_slashes_collapse [simp]: "single_slashes (collapse_slashes s)"
proof (induction s rule: collapse_slashes.induct)
  case (3 x y zs)
  then show ?case by (auto simp: single_slashes_Cons)
qed auto

lemma collapse_slashes_idem [simp]: "collapse_slashes (collapse_slashes s) = collapse_slashes s"
  by (simp add: collapse_slashes_id)

section \<open>Letters\<close>

text \<open>
  \<open>toLowerCase\<close> on ASCII text. The places where the code lower-cases a string that may
  hold other characters only test the result against an ASCII pattern without \<open>k\<close>, and no
  other character lower-cases to a string that begins like one of those patterns.
\<close>

definition byte :: "char \<Rightarrow> nat" where
  "byte c = of_char c"

definition lower_char :: "char \<Rightarrow> char" where
  "lower_char c = (if 65 \<le> byte c \<and> byte c \<le> 90 then char_of (byte c + 32) else c)"

definition lower :: "str \<Rightarrow> str" where
  "lower s = map lower_char s"

lemma byte_less [simp]: "byte c < 256"
  by (simp add: byte_def)

lemma byte_inject [simp]: "byte c = byte d \<longleftrightarrow> c = d"
  by (simp add: byte_def)

lemma byte_char_of [simp]: "byte (char_of n) = n mod 256"
  by (simp add: byte_def)

lemma char_of_byte [simp]: "char_of (byte c) = c"
  by (simp add: byte_def)

lemma byte_lit:
  "byte (Char b0 b1 b2 b3 b4 b5 b6 b7) = of_bool b0 + 2 * of_bool b1 + 4 * of_bool b2 + 8 * of_bool b3 +
     16 * of_bool b4 + 32 * of_bool b5 + 64 * of_bool b6 + 128 * of_bool b7"
  by (simp add: byte_def of_char_def)

lemma byte_slash: "byte slash = 47"
  by (simp add: byte_lit)

lemma char_of_eq_byte: "char_of (n :: nat) = c \<longleftrightarrow> n mod 256 = byte c"
  by (metis byte_char_of char_of_byte char_of_mod_256)

lemma byte_lower_char:
  "byte (lower_char c) = (if 65 \<le> byte c \<and> byte c \<le> 90 then byte c + 32 else byte c)"
  by (simp add: lower_char_def)

lemma lower_char_idem [simp]: "lower_char (lower_char c) = lower_char c"
  by (auto simp: lower_char_def)

lemma lower_char_eq_iff:
  assumes "byte d < 65 \<or> 90 < byte d" and "byte d < 97 \<or> 122 < byte d"
  shows "lower_char c = d \<longleftrightarrow> c = d"
proof -
  have "lower_char c = d \<longleftrightarrow> byte (lower_char c) = byte d" by simp
  also have "\<dots> \<longleftrightarrow> byte c = byte d" using assms by (auto simp: byte_lower_char)
  finally show ?thesis by simp
qed

lemma lower_Nil [simp]: "lower [] = []"
  by (simp add: lower_def)

lemma lower_Cons [simp]: "lower (c # cs) = lower_char c # lower cs"
  by (simp add: lower_def)

lemma lower_append [simp]: "lower (a @ b) = lower a @ lower b"
  by (simp add: lower_def)

lemma lower_idem [simp]: "lower (lower s) = lower s"
  by (simp add: lower_def)

lemma length_lower [simp]: "length (lower s) = length s"
  by (simp add: lower_def)

lemma lower_eq_Nil [simp]: "lower s = [] \<longleftrightarrow> s = []"
  by (simp add: lower_def)

lemma lower_char_slash [simp]: "lower_char c = slash \<longleftrightarrow> c = slash"
  by (rule lower_char_eq_iff) (simp_all add: byte_def)

lemma collapse_slashes_lower: "collapse_slashes (lower s) = lower (collapse_slashes s)"
  by (induction s rule: collapse_slashes.induct) auto

lemma single_slashes_lower [simp]: "single_slashes (lower s) = single_slashes s"
  by (induction s rule: single_slashes.induct) auto

lemmas [js_simps] = byte_def lower_char_def startsWith_def endsWith_def

section \<open>Errors as values\<close>

text \<open>A computation that may stop with an error (\<open>Inl\<close>): throw, reject or an early reply.\<close>

definition andThen :: "'e + 'a \<Rightarrow> ('a \<Rightarrow> 'e + 'b) \<Rightarrow> 'e + 'b" where
  "andThen m f = (case m of Inl e \<Rightarrow> Inl e | Inr a \<Rightarrow> f a)"

lemma andThen_simps [simp, js_simps]: "andThen (Inl e) f = Inl e" "andThen (Inr a) f = f a"
  by (simp_all add: andThen_def)

lemma andThen_eq_Inr: "andThen m f = Inr b \<longleftrightarrow> (\<exists>a. m = Inr a \<and> f a = Inr b)"
  by (cases m) auto

lemma andThen_eq_Inl: "andThen m f = Inl e \<longleftrightarrow> m = Inl e \<or> (\<exists>a. m = Inr a \<and> f a = Inl e)"
  by (cases m) auto

text \<open>A \<open>for\<close> loop or a \<open>map\<close> whose body may stop.\<close>

fun traverse :: "('a \<Rightarrow> 'e + 'b) \<Rightarrow> 'a list \<Rightarrow> 'e + 'b list" where
  "traverse f [] = Inr []"
| "traverse f (x # xs) = andThen (f x) (\<lambda>y. andThen (traverse f xs) (\<lambda>ys. Inr (y # ys)))"

lemma traverse_Inr: "traverse f xs = Inr ys \<longleftrightarrow> list_all2 (\<lambda>x y. f x = Inr y) xs ys"
  by (induction xs arbitrary: ys) (auto simp: andThen_eq_Inr list_all2_Cons1)

lemma traverse_map: "traverse f xs = Inr ys \<Longrightarrow> x \<in> set xs \<Longrightarrow> \<exists>y \<in> set ys. f x = Inr y"
  by (auto simp: traverse_Inr list_all2_conv_all_nth in_set_conv_nth)

end
