(* ===== verification/Encoding.thy ===== *)
theory Encoding
  imports Prelude
begin

text \<open>
  Character encodings of the standard library: UTF-8 well-formedness, the white space of
  \<open>trim\<close> and \<open>\s\<close>, hexadecimal digits, \<open>decodeURIComponent\<close> and the URL
  parser's percent-encoding of a path. The lemmas show that decoding undoes the encoding and that
  both keep a string well-formed.
\<close>

section \<open>UTF-8\<close>

definition cont_byte :: "char \<Rightarrow> bool" where
  "cont_byte c \<longleftrightarrow> 128 \<le> byte c \<and> byte c \<le> 191"

text \<open>The number of continuation bytes a lead byte announces (ECMA-262, Decode).\<close>

definition utf8_extra :: "char \<Rightarrow> nat option" where
  "utf8_extra c =
     (if byte c < 128 then Some 0
      else if 194 \<le> byte c \<and> byte c \<le> 223 then Some 1
      else if 224 \<le> byte c \<and> byte c \<le> 239 then Some 2
      else if 240 \<le> byte c \<and> byte c \<le> 244 then Some 3
      else None)"

text \<open>No overlong form, no surrogate, nothing above U+10FFFF.\<close>

definition utf8_second_ok :: "char \<Rightarrow> char \<Rightarrow> bool" where
  "utf8_second_ok c d =
     (if byte c = 224 then 160 \<le> byte d
      else if byte c = 237 then byte d \<le> 159
      else if byte c = 240 then 144 \<le> byte d
      else if byte c = 244 then byte d \<le> 143
      else True)"

definition utf8_tail_ok :: "char \<Rightarrow> str \<Rightarrow> bool" where
  "utf8_tail_ok c ds \<longleftrightarrow>
     utf8_extra c = Some (length ds) \<and> list_all cont_byte ds \<and>
     (ds \<noteq> [] \<longrightarrow> utf8_second_ok c (hd ds))"

function utf8_valid :: "str \<Rightarrow> bool" where
  "utf8_valid [] = True"
| "utf8_valid (c # cs) =
     (case utf8_extra c of
        None \<Rightarrow> False
      | Some n \<Rightarrow> utf8_tail_ok c (take n cs) \<and> utf8_valid (drop n cs))"
  by pat_completeness auto
termination
  by (relation "measure length") auto

declare utf8_valid.simps(2) [simp del]

lemma utf8_valid_ascii [simp]: "byte c < 128 \<Longrightarrow> utf8_valid (c # cs) = utf8_valid cs"
  by (simp add: utf8_valid.simps utf8_extra_def utf8_tail_ok_def)

lemma utf8_tail_ok_ascii: "byte c < 128 \<Longrightarrow> utf8_tail_ok c ds \<longleftrightarrow> ds = []"
  by (auto simp: utf8_tail_ok_def utf8_extra_def)

lemma utf8_valid_seq: "utf8_tail_ok c ds \<Longrightarrow> utf8_valid (c # ds @ cs) = utf8_valid cs"
  by (auto simp: utf8_valid.simps utf8_tail_ok_def split: option.splits)

text \<open>
  A well-formed string is a sequence of characters, each a lead byte with its tail: the
  induction the proofs below use.
\<close>

lemma utf8_valid_induct [consumes 1, case_names Nil Seq]:
  assumes "utf8_valid s"
    and "P []"
    and "\<And>c ds cs. utf8_tail_ok c ds \<Longrightarrow> utf8_valid cs \<Longrightarrow> P cs \<Longrightarrow> P (c # ds @ cs)"
  shows "P s"
  using assms(1)
proof (induction s rule: utf8_valid.induct)
  case 1
  show ?case by (rule assms(2))
next
  case (2 c cs)
  then obtain n where n: "utf8_extra c = Some n" "utf8_tail_ok c (take n cs)"
    "utf8_valid (drop n cs)"
    by (auto simp: utf8_valid.simps split: option.splits)
  then have "P (drop n cs)" using 2 by blast
  with n have "P (c # take n cs @ drop n cs)" by (intro assms(3))
  then show ?case by simp
qed

lemma utf8_valid_cases [consumes 1, case_names Nil Seq]:
  assumes "utf8_valid s"
  obtains "s = []" | c ds cs where "s = c # ds @ cs" "utf8_tail_ok c ds" "utf8_valid cs"
  using assms by (induction s rule: utf8_valid_induct) blast+

lemma utf8_tail_ok_high: "utf8_tail_ok c ds \<Longrightarrow> d \<in> set ds \<Longrightarrow> 128 \<le> byte d"
  by (auto simp: utf8_tail_ok_def list_all_iff cont_byte_def)

lemma utf8_tail_ok_lead: "utf8_tail_ok c ds \<Longrightarrow> ds \<noteq> [] \<Longrightarrow> 128 \<le> byte c"
  by (auto simp: utf8_tail_ok_def utf8_extra_def split: if_splits)

lemma utf8_valid_append: "utf8_valid a \<Longrightarrow> utf8_valid (a @ b) = utf8_valid b"
  by (induction a rule: utf8_valid_induct) (simp_all add: utf8_valid_seq)

lemma utf8_valid_split:
  assumes "byte c < 128"
  shows "utf8_valid (a @ c # b) \<longleftrightarrow> utf8_valid a \<and> utf8_valid b"
proof
  assume "utf8_valid (a @ c # b)"
  then show "utf8_valid a \<and> utf8_valid b"
  proof (induction "a @ c # b" arbitrary: a rule: utf8_valid_induct)
    case Nil
    then show ?case by simp
  next
    case (Seq d ds cs)
    show ?case
    proof (cases a)
      case Nil
      with Seq.hyps assms have "d = c" "ds = []"
        using utf8_tail_ok_ascii by auto
      with Seq Nil show ?thesis by simp
    next
      case (Cons x a')
      then have eq: "d = x" "ds @ cs = a' @ c # b" using Seq.hyps(4) by auto
      have "c \<notin> set ds" using utf8_tail_ok_high [OF Seq.hyps(1)] assms by fastforce
      then obtain e where e: "a' = ds @ e" "cs = e @ c # b"
        using eq(2) by (auto simp: append_eq_append_conv2 append_eq_Cons_conv)
      with Seq have "utf8_valid e \<and> utf8_valid b" by blast
      with Seq.hyps(1) Cons eq e show ?thesis by (simp add: utf8_valid_seq)
    qed
  qed
next
  assume "utf8_valid a \<and> utf8_valid b"
  with assms show "utf8_valid (a @ c # b)" by (simp add: utf8_valid_append)
qed

section \<open>Lengths and slices in code units\<close>

text \<open>
  \<open>length\<close> and \<open>slice\<close> count UTF-16 code units: a character of four bytes is two
  units. A slice that would cut such a character in two drops it (a lone surrogate has no UTF-8).
\<close>

definition js_units :: "char \<Rightarrow> nat" where
  "js_units c = (if cont_byte c then 0 else if 240 \<le> byte c then 2 else 1)"

definition js_length :: "str \<Rightarrow> nat" where
  "js_length s = sum_list (map js_units s)"

fun js_drop :: "nat \<Rightarrow> str \<Rightarrow> str" where
  "js_drop n [] = []"
| "js_drop n (c # cs) =
     (if cont_byte c then js_drop n cs
      else if n = 0 then c # cs
      else js_drop (n - js_units c) cs)"

fun js_take :: "nat \<Rightarrow> str \<Rightarrow> str" where
  "js_take n [] = []"
| "js_take n (c # cs) =
     (if cont_byte c then c # js_take n cs
      else if n < js_units c then []
      else c # js_take (n - js_units c) cs)"

lemma js_length_Nil [simp]: "js_length [] = 0"
  by (simp add: js_length_def)

lemma js_length_Cons [simp]: "js_length (c # cs) = js_units c + js_length cs"
  by (simp add: js_length_def)

lemma js_length_append [simp]: "js_length (a @ b) = js_length a + js_length b"
  by (simp add: js_length_def)

lemma js_drop_append: "js_drop (js_length p + n) (p @ s) = js_drop n s"
proof (induction p)
  case (Cons c p)
  have "\<not> cont_byte c \<Longrightarrow> js_units c \<noteq> 0" by (simp add: js_units_def)
  moreover have "cont_byte c \<Longrightarrow> js_units c = 0" by (simp add: js_units_def)
  ultimately show ?case using Cons by (auto simp: add.assoc)
qed simp

lemma utf8_valid_not_cont: "utf8_valid (c # cs) \<Longrightarrow> \<not> cont_byte c"
  by (auto simp: utf8_valid.simps utf8_extra_def cont_byte_def split: if_splits option.splits)

lemma js_drop_0: "utf8_valid s \<Longrightarrow> js_drop 0 s = s"
  by (cases s) (auto dest: utf8_valid_not_cont)

lemma js_take_length: "js_length (js_take n s) \<le> n"
proof (induction n s rule: js_take.induct)
  case (2 n c cs)
  then show ?case by (cases "cont_byte c") (auto simp: js_units_def)
qed simp

lemma js_take_prefix: "startsWith s (js_take n s)"
  by (induction n s rule: js_take.induct) auto

section \<open>White space\<close>

text \<open>
  The white space and line terminators of ECMA-262, as UTF-8: tab, LF, VT, FF, CR, space,
  U+00A0, U+1680, U+2000 to U+200A, U+2028, U+2029, U+202F, U+205F, U+3000, U+FEFF.
\<close>

definition js_space :: "str list" where
  "js_space = map (\<lambda>n. [char_of n]) [9, 10, 11, 12, 13, 32 :: nat] @
     map (map char_of)
       ([[194, 160], [225, 154, 128]] @
        map (\<lambda>n. [226, 128, n]) [128, 129, 130, 131, 132, 133, 134, 135, 136, 137, 138, 168, 169, 175] @
        [[226, 129, 159], [227, 128, 128], [239, 187, 191 :: nat]])"

definition space_prefix :: "str list \<Rightarrow> str \<Rightarrow> nat" where
  "space_prefix ws s = (case find (startsWith s) ws of None \<Rightarrow> 0 | Some w \<Rightarrow> length w)"

function drop_spaces :: "str list \<Rightarrow> str \<Rightarrow> str" where
  "drop_spaces ws s =
     (let n = space_prefix ws s in if n = 0 \<or> s = [] then s else drop_spaces ws (drop n s))"
  by pat_completeness auto
termination
  by (relation "measure (\<lambda>(ws, s). length s)") auto

declare drop_spaces.simps [simp del]

definition starts_space :: "str \<Rightarrow> bool" where
  "starts_space s \<longleftrightarrow> list_ex (startsWith s) js_space"

text \<open>\<open>/\s$/\<close>.\<close>

definition ends_space :: "str \<Rightarrow> bool" where
  "ends_space s \<longleftrightarrow> list_ex (endsWith s) js_space"

definition trim_start :: "str \<Rightarrow> str" where
  "trim_start s = drop_spaces js_space s"

definition trim_end :: "str \<Rightarrow> str" where
  "trim_end s = rev (drop_spaces (map rev js_space) (rev s))"

definition trim :: "str \<Rightarrow> str" where
  "trim s = trim_end (trim_start s)"

lemma js_space_nonempty: "w \<in> set js_space \<Longrightarrow> w \<noteq> []"
  by (auto simp: js_space_def)

lemma space_prefix_0: "\<not> list_ex (startsWith s) ws \<Longrightarrow> space_prefix ws s = 0"
  by (auto simp: space_prefix_def list_ex_iff find_Some_iff split: option.splits dest: nth_mem)

lemma drop_spaces_id: "\<not> list_ex (startsWith s) ws \<Longrightarrow> drop_spaces ws s = s"
  by (subst drop_spaces.simps) (simp add: space_prefix_0)

lemma startsWith_rev: "startsWith (rev s) (rev w) \<longleftrightarrow> endsWith s w"
  by (auto simp: startsWith_iff endsWith_iff) (metis rev_append rev_rev_ident)+

lemma trim_id: "\<not> starts_space s \<Longrightarrow> \<not> ends_space s \<Longrightarrow> trim s = s"
  by (simp add: trim_def trim_start_def trim_end_def drop_spaces_id starts_space_def ends_space_def
      list_ex_iff startsWith_rev)

lemma drop_spaces_suffix: "\<exists>n. drop_spaces ws s = drop n s"
proof (induction ws s rule: drop_spaces.induct)
  case (1 ws s)
  show ?case
  proof (cases "space_prefix ws s = 0 \<or> s = []")
    case True
    then have "drop_spaces ws s = drop 0 s" by (subst drop_spaces.simps) auto
    then show ?thesis by blast
  next
    case False
    with 1 obtain n where "drop_spaces ws (drop (space_prefix ws s) s) = drop n (drop (space_prefix ws s) s)"
      by blast
    with False have "drop_spaces ws s = drop (n + space_prefix ws s) s"
      by (subst drop_spaces.simps) (simp add: Let_def)
    then show ?thesis by blast
  qed
qed

lemma trim_shorter: "length (trim s) \<le> length s \<and> (length (trim s) = length s \<longrightarrow> trim s = s)"
proof -
  obtain m where m: "trim_start s = drop m s"
    using drop_spaces_suffix by (auto simp: trim_start_def)
  obtain n where n: "drop_spaces (map rev js_space) (rev (drop m s)) = drop n (rev (drop m s))"
    using drop_spaces_suffix by blast
  have t: "trim s = rev (drop n (rev (drop m s)))"
    using m n by (simp add: trim_def trim_end_def)
  then have len: "length (trim s) = length s - m - n" by simp
  show ?thesis
  proof (cases "m = 0 \<or> s = []")
    case True
    then show ?thesis
    proof (cases "n = 0 \<or> s = []")
      case False
      with True len show ?thesis by (cases s) auto
    qed (use True t in auto)
  next
    case False
    with len show ?thesis by (cases s) auto
  qed
qed

section \<open>Hexadecimal digits\<close>

definition hex_value :: "char \<Rightarrow> nat option" where
  "hex_value c =
     (if 48 \<le> byte c \<and> byte c \<le> 57 then Some (byte c - 48)
      else if 97 \<le> byte c \<and> byte c \<le> 102 then Some (byte c - 87)
      else if 65 \<le> byte c \<and> byte c \<le> 70 then Some (byte c - 55)
      else None)"

definition upper_hex :: "nat \<Rightarrow> char" where
  "upper_hex n = char_of (if n < 10 then 48 + n else 55 + n)"

lemma hex_value_upper_hex [simp]: "n < 16 \<Longrightarrow> hex_value (upper_hex n) = Some n"
  by (auto simp: hex_value_def upper_hex_def)

lemma hex_value_lower [simp]: "hex_value (lower_char c) = hex_value c"
  by (auto simp: hex_value_def byte_lower_char)

section \<open>decodeURIComponent\<close>

text \<open>One \<open>%XX\<close> at the front of the string, with what follows it.\<close>

fun take_escape :: "str \<Rightarrow> (char \<times> str) option" where
  "take_escape (p # a # b # r) =
     (if p = percent then
        (case (hex_value a, hex_value b) of
           (Some x, Some y) \<Rightarrow> Some (char_of (16 * x + y), r)
         | _ \<Rightarrow> None)
      else None)"
| "take_escape _ = None"

fun take_escapes :: "nat \<Rightarrow> str \<Rightarrow> (str \<times> str) option" where
  "take_escapes 0 s = Some ([], s)"
| "take_escapes (Suc n) s =
     (case take_escape s of
        None \<Rightarrow> None
      | Some (b, r) \<Rightarrow> map_option (apfst ((#) b)) (take_escapes n r))"

lemma take_escape_length: "take_escape s = Some (b, r) \<Longrightarrow> length r < length s"
  by (cases s rule: take_escape.cases) (auto split: if_splits option.splits)

lemma take_escapes_length: "take_escapes n s = Some (bs, r) \<Longrightarrow> length r \<le> length s"
  by (induction n arbitrary: s bs)
    (fastforce split: option.splits dest: take_escape_length)+

text \<open>
  \<open>None\<close> is the URIError: a percent sign that starts no escape, or escapes whose bytes are
  not one well-formed UTF-8 character.
\<close>

function decodeURIComponent :: "str \<Rightarrow> str option" where
  "decodeURIComponent [] = Some []"
| "decodeURIComponent (c # cs) =
     (if c \<noteq> percent then map_option ((#) c) (decodeURIComponent cs)
      else case take_escape (c # cs) of
        None \<Rightarrow> None
      | Some (b, r) \<Rightarrow>
          (case utf8_extra b of
             None \<Rightarrow> None
           | Some n \<Rightarrow>
               (case take_escapes n r of
                  None \<Rightarrow> None
                | Some (bs, r') \<Rightarrow>
                    if utf8_tail_ok b bs
                    then map_option ((@) (b # bs)) (decodeURIComponent r')
                    else None)))"
  by pat_completeness auto
termination
proof (relation "measure length", goal_cases)
  case (3 c cs x b r n y bs r')
  then have "length r < length (c # cs)" "length r' \<le> length r"
    using take_escape_length take_escapes_length by metis+
  then show ?case by simp
qed auto

declare decodeURIComponent.simps(2) [simp del]

lemma decodeURIComponent_plain [simp]:
  "c \<noteq> percent \<Longrightarrow> decodeURIComponent (c # cs) = map_option ((#) c) (decodeURIComponent cs)"
  by (simp add: decodeURIComponent.simps)

lemma decodeURIComponent_no_percent: "percent \<notin> set s \<Longrightarrow> decodeURIComponent s = Some s"
  by (induction s) auto

lemma decodeURIComponent_append:
  "percent \<notin> set a \<Longrightarrow> decodeURIComponent (a @ s) = map_option ((@) a) (decodeURIComponent s)"
  by (induction a; cases "decodeURIComponent s") auto

lemma byte_percent: "byte percent = 37"
  by (simp add: byte_def)

lemma hex_value_ascii: "hex_value c = Some n \<Longrightarrow> byte c < 128"
  by (auto simp: hex_value_def split: if_splits)

lemma take_escape_utf8: "take_escape s = Some (b, r) \<Longrightarrow> utf8_valid s = utf8_valid r"
  by (cases s rule: take_escape.cases)
    (auto split: if_splits option.splits dest!: hex_value_ascii simp: byte_percent)

lemma take_escapes_utf8: "take_escapes n s = Some (bs, r) \<Longrightarrow> utf8_valid s = utf8_valid r"
  by (induction n arbitrary: s bs)
    (fastforce split: option.splits dest: take_escape_utf8)+

lemma decodeURIComponent_utf8:
  "utf8_valid s \<Longrightarrow> decodeURIComponent s = Some t \<Longrightarrow> utf8_valid t"
proof (induction s arbitrary: t rule: measure_induct_rule [where f = length])
  case (less s)
  from less.prems(1) show ?case
  proof (cases rule: utf8_valid_cases)
    case Nil
    with less.prems show ?thesis by simp
  next
    case (Seq c ds cs)
    show ?thesis
    proof (cases "c = percent")
      case False
      then have "percent \<notin> set (c # ds)"
        using utf8_tail_ok_high [OF Seq(2)] by (fastforce simp: byte_def)
      then obtain u where u: "decodeURIComponent cs = Some u" "t = (c # ds) @ u"
        using less.prems(2) Seq(1) decodeURIComponent_append [of "c # ds" cs]
        by (cases "decodeURIComponent cs") auto
      then have "utf8_valid u" using less.IH [of cs u] Seq by simp
      with u Seq(2) show ?thesis by (simp add: utf8_valid_seq)
    next
      case True
      with less.prems(2) Seq(1) obtain b r n bs r' u where
        d: "take_escape s = Some (b, r)" "take_escapes n r = Some (bs, r')" "utf8_tail_ok b bs"
          "decodeURIComponent r' = Some u" "t = b # bs @ u"
        by (auto simp: decodeURIComponent.simps split: option.splits if_splits)
      have "length r' < length s"
        using take_escape_length [OF d(1)] take_escapes_length [OF d(2)] by simp
      moreover have "utf8_valid r'"
        using take_escape_utf8 [OF d(1)] take_escapes_utf8 [OF d(2)] less.prems(1) by simp
      ultimately have "utf8_valid u" using less.IH d(4) by blast
      with d show ?thesis by (simp add: utf8_valid_seq)
    qed
  qed
qed

section \<open>Percent-encoding of a path\<close>

text \<open>
  The path percent-encode set of the URL standard: C0 controls, everything above \<open>~\<close>, space and
  the characters below. Other bytes of a path stay as they are.
\<close>

definition path_encoded :: "char \<Rightarrow> bool" where
  "path_encoded c \<longleftrightarrow> byte c < 32 \<or> 126 < byte c \<or>
     c \<in> {CHR '' '', CHR ''\"'', CHR ''#'', CHR ''<'', CHR ''>'', CHR ''?'', CHR ''^'',
          CHR ''`'', CHR ''{'', CHR ''}''}"

lemma path_encoded_byte:
  "path_encoded c \<longleftrightarrow> byte c < 32 \<or> 126 < byte c \<or> byte c \<in> {32, 34, 35, 60, 62, 63, 94, 96, 123, 125}"
  unfolding path_encoded_def insert_iff empty_iff byte_inject [symmetric]
  by (simp add: byte_lit)

lemma path_encoded_lower_char [simp]: "path_encoded (lower_char c) = path_encoded c"
  by (auto simp: path_encoded_byte byte_lower_char)

definition percent_encode_char :: "char \<Rightarrow> str" where
  "percent_encode_char c = [percent, upper_hex (byte c div 16), upper_hex (byte c mod 16)]"

definition percent_encode_path :: "str \<Rightarrow> str" where
  "percent_encode_path s = concat (map (\<lambda>c. if path_encoded c then percent_encode_char c else [c]) s)"

lemma percent_encode_path_Nil [simp]: "percent_encode_path [] = []"
  by (simp add: percent_encode_path_def)

lemma percent_encode_path_Cons [simp]:
  "percent_encode_path (c # cs) =
     (if path_encoded c then percent_encode_char c else [c]) @ percent_encode_path cs"
  by (simp add: percent_encode_path_def)

lemma percent_encode_path_append [simp]:
  "percent_encode_path (a @ b) = percent_encode_path a @ percent_encode_path b"
  by (simp add: percent_encode_path_def)

lemma percent_encode_path_plain: "\<forall>c \<in> set s. \<not> path_encoded c \<Longrightarrow> percent_encode_path s = s"
  by (induction s) auto

text \<open>An escape and its lower-cased form decode to the byte they encode.\<close>

lemma take_escape_encoded: "take_escape (percent_encode_char c @ s) = Some (c, s)"
proof -
  have "16 * (byte c div 16) + byte c mod 16 = byte c" by simp
  moreover have "byte c div 16 < 16" using byte_less [of c] by (simp add: less_mult_imp_div_less del: byte_less)
  ultimately show ?thesis by (simp add: percent_encode_char_def)
qed

lemma lower_char_percent [simp]: "lower_char c = percent \<longleftrightarrow> c = percent"
  by (rule lower_char_eq_iff) (simp_all add: byte_def)

lemma take_escape_lower:
  "take_escape (lower (percent_encode_char c) @ s) = Some (c, s)"
  using take_escape_encoded [of c s] by (simp add: percent_encode_char_def)

lemma path_encoded_high: "128 \<le> byte c \<Longrightarrow> path_encoded c"
  by (simp add: path_encoded_def)

lemma take_escapes_lower:
  "\<forall>d \<in> set ds. path_encoded d \<Longrightarrow>
   take_escapes (length ds) (lower (percent_encode_path ds) @ s) = Some (ds, s)"
  by (induction ds) (auto simp: take_escape_lower)

lemma path_encoded_lower_id: "path_encoded c \<Longrightarrow> lower_char c = c"
  by (auto simp: path_encoded_def lower_char_def byte_def)

lemma lower_high_id: "\<forall>d \<in> set ds. 128 \<le> byte d \<Longrightarrow> lower ds = ds"
  by (induction ds) (auto simp: lower_char_def)

text \<open>
  The round trip: decoding the lower-cased encoding of a well-formed string gives the
  lower-cased string back.
\<close>

lemma decode_lower_encode:
  assumes "utf8_valid s" and "percent \<notin> set s"
  shows "decodeURIComponent (lower (percent_encode_path s)) = Some (lower s)"
  using assms
proof (induction s rule: utf8_valid_induct)
  case Nil
  then show ?case by simp
next
  case (Seq c ds cs)
  then have IH: "decodeURIComponent (lower (percent_encode_path cs)) = Some (lower cs)" by simp
  have ds: "\<forall>d \<in> set ds. 128 \<le> byte d" using utf8_tail_ok_high [OF Seq(1)] by blast
  show ?case
  proof (cases "path_encoded c")
    case False
    then have "ds = []"
      using utf8_tail_ok_lead [OF Seq(1)] path_encoded_high by blast
    with False IH Seq.prems show ?thesis by auto
  next
    case True
    have n: "utf8_extra c = Some (length ds)" using Seq(1) by (simp add: utf8_tail_ok_def)
    have "take_escapes (length ds) (lower (percent_encode_path ds) @ lower (percent_encode_path cs)) =
      Some (ds, lower (percent_encode_path cs))"
      using ds path_encoded_high by (intro take_escapes_lower) blast
    moreover obtain a b where ab: "lower (percent_encode_char c) = percent # [a, b]"
      by (auto simp: percent_encode_char_def)
    moreover have "take_escape (percent # a # b # t) = Some (c, t)" for t
      using take_escape_lower [of c t] ab by simp
    ultimately show ?thesis
      using True n Seq(1) IH ds
      by (simp add: decodeURIComponent.simps path_encoded_lower_id lower_high_id del: take_escape.simps)
  qed
qed

end
