(* ===== verification/Json.thy ===== *)
theory Json
  imports Encoding
begin

text \<open>
  JSON values, \<open>JSON.stringify\<close> and \<open>JSON.parse\<close> on UTF-8 text. An object is the
  association list of its entries in insertion order; \<open>JSON.parse\<close> gives each key once, the
  last value winning. A number is kept as its decimal literal, \<open>JNum m e\<close> being
  \<open>m * 10 ^ e\<close>; the numbers the program itself writes are integers (\<open>e = 0\<close>). A
  lone surrogate escape becomes its three-byte form. The main result is the round trip
  \<open>jparse_jprint\<close>.
\<close>

datatype json =
    JNull
  | JBool bool
  | JNum int int
  | JStr str
  | JArr "json list"
  | JObj "(str \<times> json) list"

section \<open>Property access\<close>

text \<open>\<open>obj[key]\<close>; \<open>None\<close> is undefined. \<open>has_key\<close> is \<open>key in obj\<close>.\<close>

definition get_prop :: "(str \<times> json) list \<Rightarrow> str \<Rightarrow> json option" where
  "get_prop o' k = map_of o' k"

definition has_key :: "(str \<times> json) list \<Rightarrow> str \<Rightarrow> bool" where
  "has_key o' k = list_ex (\<lambda>(k', _). k' = k) o'"

text \<open>Assignment \<open>obj[key] = v\<close>: in place when the key exists, else appended.\<close>

fun put_prop :: "(str \<times> json) list \<Rightarrow> str \<Rightarrow> json \<Rightarrow> (str \<times> json) list" where
  "put_prop [] k v = [(k, v)]"
| "put_prop ((k', v') # ps) k v = (if k' = k then (k, v) # ps else (k', v') # put_prop ps k v)"

lemma has_key_iff: "has_key ps k \<longleftrightarrow> k \<in> fst ` set ps"
  by (force simp: has_key_def list_ex_iff)

lemma get_prop_None: "get_prop ps k = None \<longleftrightarrow> \<not> has_key ps k"
  by (simp add: get_prop_def has_key_iff map_of_eq_None_iff)

lemma get_put_prop: "get_prop (put_prop ps k v) k' = (if k' = k then Some v else get_prop ps k')"
  by (induction ps) (auto simp: get_prop_def)

lemma put_prop_new: "k \<notin> fst ` set ps \<Longrightarrow> put_prop ps k v = ps @ [(k, v)]"
  by (induction ps) auto

section \<open>Printing\<close>

definition digit :: "nat \<Rightarrow> char" where
  "digit n = char_of (48 + n)"

fun show_nat :: "nat \<Rightarrow> str" where
  "show_nat n = (if n < 10 then [digit n] else show_nat (n div 10) @ [digit (n mod 10)])"

declare show_nat.simps [simp del]

definition show_int :: "int \<Rightarrow> str" where
  "show_int i = (if i < 0 then CHR ''-'' # show_nat (nat (- i)) else show_nat (nat i))"

definition lower_hex :: "nat \<Rightarrow> char" where
  "lower_hex n = char_of (if n < 10 then 48 + n else 87 + n)"

definition quote_char :: "char \<Rightarrow> str" where
  "quote_char c =
     (if c = CHR 34 then [CHR 92, CHR 34]
      else if c = CHR 92 then [CHR 92, CHR 92]
      else if byte c = 8 then [CHR 92, CHR ''b'']
      else if byte c = 12 then [CHR 92, CHR ''f'']
      else if byte c = 10 then [CHR 92, CHR ''n'']
      else if byte c = 13 then [CHR 92, CHR ''r'']
      else if byte c = 9 then [CHR 92, CHR ''t'']
      else if byte c < 32 then
        [CHR 92, CHR ''u'', CHR ''0'', CHR ''0'', lower_hex (byte c div 16), lower_hex (byte c mod 16)]
      else [c])"

definition quote :: "str \<Rightarrow> str" where
  "quote s = CHR 34 # concat (map quote_char s) @ [CHR 34]"

fun jprint :: "json \<Rightarrow> str"
  and jprint_elems :: "json list \<Rightarrow> str"
  and jprint_members :: "(str \<times> json) list \<Rightarrow> str" where
  "jprint JNull = ''null''"
| "jprint (JBool b) = (if b then ''true'' else ''false'')"
| "jprint (JNum m e) = show_int m @ (if e = 0 then [] else CHR ''e'' # show_int e)"
| "jprint (JStr s) = quote s"
| "jprint (JArr js) = CHR ''['' # jprint_elems js"
| "jprint (JObj ps) = CHR ''{'' # jprint_members ps"
| "jprint_elems [] = '']''"
| "jprint_elems [j] = jprint j @ '']''"
| "jprint_elems (j # j' # js) = jprint j @ CHR '','' # jprint_elems (j' # js)"
| "jprint_members [] = ''}''"
| "jprint_members [(k, j)] = quote k @ CHR '':'' # jprint j @ ''}''"
| "jprint_members ((k, j) # p # ps) = quote k @ CHR '':'' # jprint j @ CHR '','' # jprint_members (p # ps)"

section \<open>Parsing\<close>

definition json_space :: "char \<Rightarrow> bool" where
  "json_space c \<longleftrightarrow> byte c \<in> {32, 9, 10, 13}"

definition skip :: "str \<Rightarrow> str" where
  "skip s = dropWhile json_space s"

definition is_digit :: "char \<Rightarrow> bool" where
  "is_digit c \<longleftrightarrow> 48 \<le> byte c \<and> byte c \<le> 57"

definition digits_value :: "str \<Rightarrow> nat" where
  "digits_value ds = foldl (\<lambda>n c. 10 * n + (byte c - 48)) 0 ds"

text \<open>The UTF-8 form of a code point.\<close>

definition utf8_encode :: "nat \<Rightarrow> str" where
  "utf8_encode n =
     map char_of
       (if n < 128 then [n]
        else if n < 2048 then [192 + n div 64, 128 + n mod 64]
        else if n < 65536 then [224 + n div 4096, 128 + n div 64 mod 64, 128 + n mod 64]
        else [240 + n div 262144, 128 + n div 4096 mod 64, 128 + n div 64 mod 64, 128 + n mod 64])"

fun hex4 :: "str \<Rightarrow> (nat \<times> str) option" where
  "hex4 (a # b # c # d # r) =
     (case (hex_value a, hex_value b, hex_value c, hex_value d) of
        (Some w, Some x, Some y, Some z) \<Rightarrow> Some (4096 * w + 256 * x + 16 * y + z, r)
      | _ \<Rightarrow> None)"
| "hex4 _ = None"

lemma hex4_length: "hex4 s = Some (n, r) \<Longrightarrow> length r < length s"
  by (cases s rule: hex4.cases) (auto split: option.splits)

text \<open>A \<open>\u\<close> escape after its \<open>u\<close>; a high surrogate takes a low surrogate escape along.\<close>

definition unicode_escape :: "str \<Rightarrow> (str \<times> str) option" where
  "unicode_escape s =
     (case hex4 s of
        None \<Rightarrow> None
      | Some (n, r) \<Rightarrow>
          (case r of
             x # u # r' \<Rightarrow>
               (case hex4 r' of
                  Some (m, r'') \<Rightarrow>
                    if x = CHR 92 \<and> u = CHR ''u'' \<and> 55296 \<le> n \<and> n \<le> 56319 \<and> 56320 \<le> m \<and> m \<le> 57343
                    then Some (utf8_encode (65536 + (n - 55296) * 1024 + (m - 56320)), r'')
                    else Some (utf8_encode n, r)
                | None \<Rightarrow> Some (utf8_encode n, r))
           | _ \<Rightarrow> Some (utf8_encode n, r)))"

lemma unicode_escape_length: "unicode_escape s = Some (t, r) \<Longrightarrow> length r < length s"
  by (auto simp: unicode_escape_def split: option.splits list.splits if_splits dest!: hex4_length)

definition simple_escape :: "char \<Rightarrow> str option" where
  "simple_escape e =
     (if e = CHR 34 \<or> e = CHR 92 \<or> e = slash then Some [e]
      else if e = CHR ''b'' then Some [char_of (8 :: nat)]
      else if e = CHR ''f'' then Some [char_of (12 :: nat)]
      else if e = CHR ''n'' then Some [char_of (10 :: nat)]
      else if e = CHR ''r'' then Some [char_of (13 :: nat)]
      else if e = CHR ''t'' then Some [char_of (9 :: nat)]
      else None)"

text \<open>A string after its opening quote.\<close>

function parse_string :: "str \<Rightarrow> (str \<times> str) option" where
  "parse_string [] = None"
| "parse_string (c # cs) =
     (if c = CHR 34 then Some ([], cs)
      else if byte c < 32 then None
      else if c = CHR 92 then
        (case cs of
           [] \<Rightarrow> None
         | e # r \<Rightarrow>
             if e = CHR ''u'' then
               (case unicode_escape r of
                  None \<Rightarrow> None
                | Some (t, r') \<Rightarrow> map_option (apfst ((@) t)) (parse_string r'))
             else
               (case simple_escape e of
                  None \<Rightarrow> None
                | Some t \<Rightarrow> map_option (apfst ((@) t)) (parse_string r)))
      else map_option (apfst ((#) c)) (parse_string cs))"
  by pat_completeness auto
termination
  by (relation "measure length") (auto dest: unicode_escape_length)

declare parse_string.simps(2) [simp del]

text \<open>The fraction and the exponent of a number: their digits and the power of ten.\<close>

definition parse_frac :: "str \<Rightarrow> (str \<times> str) option" where
  "parse_frac s =
     (if startsWith s ''.'' then
        (let ds = takeWhile is_digit (tl s)
         in if ds = [] then None else Some (ds, dropWhile is_digit (tl s)))
      else Some ([], s))"

definition parse_exp :: "str \<Rightarrow> (int \<times> str) option" where
  "parse_exp s =
     (if startsWith s ''e'' \<or> startsWith s ''E'' then
        (let t = tl s;
             neg = startsWith t ''-'';
             u = (if neg \<or> startsWith t ''+'' then tl t else t);
             ds = takeWhile is_digit u
         in if ds = [] then None
            else Some ((if neg then - int (digits_value ds) else int (digits_value ds)), dropWhile is_digit u))
      else Some (0, s))"

definition parse_number :: "str \<Rightarrow> (json \<times> str) option" where
  "parse_number s =
     (let neg = startsWith s ''-'';
          t = (if neg then tl s else s);
          ds = (if startsWith t ''0'' then ''0'' else takeWhile is_digit t);
          r = drop (length ds) t
      in if ds = [] then None
         else case parse_frac r of
           None \<Rightarrow> None
         | Some (fs, r1) \<Rightarrow>
             (case parse_exp r1 of
                None \<Rightarrow> None
              | Some (e, r2) \<Rightarrow>
                  let m = int (digits_value (ds @ fs))
                  in Some (JNum (if neg then - m else m) (e - int (length fs)), r2)))"

text \<open>
  Values, the elements of an array after \<open>[\<close> or \<open>,\<close> and the members of an object after
  \<open>{\<close> or \<open>,\<close>. \<open>first\<close> tells whether an empty list may close here. The first
  argument bounds the recursion; \<open>json_fuel\<close> below is enough for any input.
\<close>

fun parse_value :: "nat \<Rightarrow> str \<Rightarrow> (json \<times> str) option"
  and parse_elems :: "nat \<Rightarrow> bool \<Rightarrow> str \<Rightarrow> (json list \<times> str) option"
  and parse_members :: "nat \<Rightarrow> bool \<Rightarrow> (str \<times> json) list \<Rightarrow> str \<Rightarrow> ((str \<times> json) list \<times> str) option" where
  "parse_value 0 s = None"
| "parse_value (Suc n) s =
     (let t = skip s
      in if startsWith t ''null'' then Some (JNull, drop 4 t)
         else if startsWith t ''true'' then Some (JBool True, drop 4 t)
         else if startsWith t ''false'' then Some (JBool False, drop 5 t)
         else if startsWith t [CHR 34] then map_option (apfst JStr) (parse_string (tl t))
         else if startsWith t ''['' then map_option (apfst JArr) (parse_elems n True (tl t))
         else if startsWith t ''{'' then map_option (apfst JObj) (parse_members n True [] (tl t))
         else parse_number t)"
| "parse_elems 0 first s = None"
| "parse_elems (Suc n) first s =
     (if first \<and> startsWith (skip s) '']'' then Some ([], tl (skip s))
      else case parse_value n s of
        None \<Rightarrow> None
      | Some (j, r) \<Rightarrow>
          (let t = skip r
           in if startsWith t '']'' then Some ([j], tl t)
              else if startsWith t '','' then map_option (apfst ((#) j)) (parse_elems n False (tl t))
              else None))"
| "parse_members 0 first acc s = None"
| "parse_members (Suc n) first acc s =
     (let s' = skip s
      in if first \<and> startsWith s' ''}'' then Some (acc, tl s')
         else if \<not> startsWith s' [CHR 34] then None
         else case parse_string (tl s') of
           None \<Rightarrow> None
         | Some (k, r) \<Rightarrow>
             (let r' = skip r
              in if \<not> startsWith r' '':'' then None
                 else case parse_value n (tl r') of
                   None \<Rightarrow> None
                 | Some (j, r2) \<Rightarrow>
                     (let t = skip r2;
                          acc' = put_prop acc k j
                      in if startsWith t ''}'' then Some (acc', tl t)
                         else if startsWith t '','' then parse_members n False acc' (tl t)
                         else None)))"

definition json_fuel :: "str \<Rightarrow> nat" where
  "json_fuel s = 2 * length s + 2"

definition jparse :: "str \<Rightarrow> json option" where
  "jparse s =
     (case parse_value (json_fuel s) s of
        None \<Rightarrow> None
      | Some (j, r) \<Rightarrow> if skip r = [] then Some j else None)"

section \<open>The bound on the recursion is enough\<close>

lemma length_skip: "length (skip s) \<le> length s"
  by (simp add: skip_def length_dropWhile_le)

lemma parse_string_step:
  assumes "parse_string (c # cs) = Some (t, r)"
  shows "r = cs \<or> (\<exists>x r'. length r' \<le> length cs \<and> parse_string r' = Some (x, r))"
proof -
  note unfold = parse_string.simps(2) [of c cs]
  consider "c = CHR 34" | "c \<noteq> CHR 34" "c = CHR 92" | "c \<noteq> CHR 34" "c \<noteq> CHR 92" by blast
  then show ?thesis
  proof cases
    case 1
    with assms show ?thesis unfolding unfold by simp
  next
    case 2
    then obtain e u where cs: "cs = e # u"
      using assms unfolding unfold by (cases cs) (auto split: if_splits)
    show ?thesis
    proof (cases "e = CHR ''u''")
      case True
      then obtain t' r' x where "unicode_escape u = Some (t', r')" "parse_string r' = Some (x, r)"
        using assms 2 cs unfolding unfold by (auto split: if_splits option.splits)
      with cs show ?thesis using unicode_escape_length [of u t' r'] by fastforce
    next
      case False
      then obtain x where "parse_string u = Some (x, r)"
        using assms 2 cs unfolding unfold by (auto split: if_splits option.splits)
      with cs show ?thesis by (intro disjI2 exI conjI) auto
    qed
  next
    case 3
    then obtain x where "parse_string cs = Some (x, r)"
      using assms unfolding unfold by (auto split: if_splits)
    then show ?thesis by blast
  qed
qed

lemma parse_string_length: "parse_string s = Some (t, r) \<Longrightarrow> length r < length s"
proof (induction s arbitrary: t rule: measure_induct_rule [where f = length])
  case (less s)
  then obtain c cs where s: "s = c # cs" by (cases s) auto
  have "r = cs \<or> (\<exists>x r'. length r' \<le> length cs \<and> parse_string r' = Some (x, r))"
    using parse_string_step less.prems unfolding s by blast
  then show ?case
  proof
    assume "\<exists>x r'. length r' \<le> length cs \<and> parse_string r' = Some (x, r)"
    then obtain x r' where r': "length r' \<le> length cs" "parse_string r' = Some (x, r)" by blast
    then have "length r < length r'" using less.IH s by simp
    with r' s show ?case by simp
  qed (simp add: s)
qed

lemma parse_frac_length: "parse_frac s = Some (ds, r) \<Longrightarrow> length r \<le> length s"
  using length_dropWhile_le [of is_digit "tl s"]
  by (auto simp: parse_frac_def Let_def split: if_splits)

lemma parse_exp_length: "parse_exp s = Some (e, r) \<Longrightarrow> length r \<le> length s"
  using length_dropWhile_le [of is_digit "tl s"] length_dropWhile_le [of is_digit "tl (tl s)"]
  by (auto simp: parse_exp_def Let_def split: if_splits)

definition number_body :: "str \<Rightarrow> str" where
  "number_body s = (if startsWith s ''-'' then tl s else s)"

definition number_digits :: "str \<Rightarrow> str" where
  "number_digits t = (if startsWith t ''0'' then ''0'' else takeWhile is_digit t)"

lemma parse_number_alt:
  "parse_number s =
     (if number_digits (number_body s) = [] then None
      else case parse_frac (drop (length (number_digits (number_body s))) (number_body s)) of
        None \<Rightarrow> None
      | Some (fs, r1) \<Rightarrow>
          (case parse_exp r1 of
             None \<Rightarrow> None
           | Some (e, r2) \<Rightarrow>
               Some (JNum ((if startsWith s ''-'' then - 1 else 1) *
                        int (digits_value (number_digits (number_body s) @ fs)))
                      (e - int (length fs)), r2)))"
  by (simp add: parse_number_def number_body_def number_digits_def Let_def split: option.splits)

lemma parse_number_length:
  assumes "parse_number s = Some (j, r)"
  shows "length r < length s"
proof -
  define t ds where "t = number_body s" and "ds = number_digits t"
  obtain fs r1 e where p: "ds \<noteq> []" "parse_frac (drop (length ds) t) = Some (fs, r1)"
    "parse_exp r1 = Some (e, r)"
    using assms unfolding parse_number_alt t_def [symmetric] ds_def [symmetric]
    by (auto split: if_splits option.splits)
  have "length ds \<le> length t"
    by (auto simp: ds_def number_digits_def startsWith_iff length_takeWhile_le)
  moreover have "length t \<le> length s" by (simp add: t_def number_body_def)
  ultimately have "length (drop (length ds) t) < length s" using p(1) by (cases ds) auto
  moreover have "length r \<le> length (drop (length ds) t)"
    using parse_frac_length [OF p(2)] parse_exp_length [OF p(3)] by simp
  ultimately show ?thesis by simp
qed

lemma startsWith_nonempty: "startsWith t (c # p) \<Longrightarrow> length (tl t) < length t"
  by (cases t) auto

lemma tl_skip_length: "startsWith (skip s) (c # p) \<Longrightarrow> length (tl (skip s)) < length s"
  using startsWith_nonempty [of "skip s" c p] length_skip [of s] by simp

lemma parse_lengths:
  "parse_value n s = Some (j, r) \<Longrightarrow> length r < length s"
  "parse_elems n first s' = Some (js, r) \<Longrightarrow> length r < length s'"
  "parse_members n first acc s'' = Some (ps, r) \<Longrightarrow> length r < length s''"
proof (induction n s and n first s' and n first acc s'' arbitrary: j r and js r and ps r
    rule: parse_value_parse_elems_parse_members.induct)
  case (2 n s)
  define t where "t = skip s"
  have t: "length t \<le> length s" by (simp add: t_def length_skip)
  have ne: "startsWith t (c # p) \<Longrightarrow> length (tl t) < length s" for c p
    using startsWith_nonempty [of t c p] t by simp
  have dr: "length (drop 4 t) < length s" "length (drop 5 t) < length s" if "startsWith t (c # p)" for c p
    using that t by (cases t; auto)+
  from "2.prems" consider "length r < length s"
    | x where "parse_string (tl t) = Some (x, r)" "length (tl t) < length s"
    | x where "parse_elems n True (tl t) = Some (x, r)" "length (tl t) < length s"
        "\<not> startsWith t ''null''" "\<not> startsWith t ''true''" "\<not> startsWith t ''false''"
        "\<not> startsWith t [CHR 34]" "startsWith t ''[''"
    | x where "parse_members n True [] (tl t) = Some (x, r)" "length (tl t) < length s"
        "\<not> startsWith t ''null''" "\<not> startsWith t ''true''" "\<not> startsWith t ''false''"
        "\<not> startsWith t [CHR 34]" "\<not> startsWith t ''[''" "startsWith t ''{''"
    | "parse_number t = Some (j, r)"
    using ne dr by (auto simp: Let_def simp del: length_drop length_tl simp flip: t_def split: if_splits)
  then show ?case
  proof cases
    case 1
    then show ?thesis .
  next
    case (2 x)
    then show ?thesis using parse_string_length by fastforce
  next
    case (3 x)
    then show ?thesis using "2.IH"(1) [OF t_def] by fastforce
  next
    case (4 x)
    then show ?thesis using "2.IH"(2) [OF t_def] by fastforce
  next
    case 5
    then show ?thesis using parse_number_length t by fastforce
  qed
next
  case (4 n first s)
  have sk: "length (skip r') \<le> length r'" for r' by (rule length_skip)
  show ?case
  proof (cases "first \<and> startsWith (skip s) '']''")
    case True
    with "4.prems" have "r = tl (skip s)" by simp
    with True show ?thesis using tl_skip_length [of s] by blast
  next
    case False
    with "4.prems" obtain j r1 where v: "parse_value n s = Some (j, r1)"
      by (auto split: option.splits)
    then have l1: "length r1 < length s" using 4(1) False by blast
    from "4.prems" False v consider "r = tl (skip r1)" "startsWith (skip r1) '']''"
      | js' where "parse_elems n False (tl (skip r1)) = Some (js', r)" "\<not> startsWith (skip r1) '']''"
          "startsWith (skip r1) '',''"
      by (auto simp: Let_def split: if_splits)
    then show ?thesis
    proof cases
      case 1
      then show ?thesis using sk [of r1] l1 by simp
    next
      case (2 js')
      then have "length r < length (tl (skip r1))" using 4(2) False v by blast
      then show ?thesis using sk [of r1] l1 by simp
    qed
  qed
next
  case (6 n first acc s)
  have sk: "length (skip r') \<le> length r'" for r' by (rule length_skip)
  show ?case
  proof (cases "first \<and> startsWith (skip s) ''}''")
    case True
    with "6.prems" have "r = tl (skip s)" by (simp add: Let_def)
    with True show ?thesis using tl_skip_length [of s] by blast
  next
    case False
    from "6.prems" False obtain k r1 j r2 where
      a: "startsWith (skip s) [CHR 34]" "parse_string (tl (skip s)) = Some (k, r1)"
        "startsWith (skip r1) '':''" "parse_value n (tl (skip r1)) = Some (j, r2)"
      by (auto simp: Let_def split: if_splits option.splits)
    have l1: "length r1 < length s"
      using parse_string_length [OF a(2)] sk [of s] by simp
    have l2: "length r2 < length (tl (skip r1))" using 6(1) False a by blast
    from "6.prems" False a consider "r = tl (skip r2)"
      | "parse_members n False (put_prop acc k j) (tl (skip r2)) = Some (ps, r)"
          "\<not> startsWith (skip r2) ''}''" "startsWith (skip r2) '',''"
      by (auto simp: Let_def split: if_splits)
    then show ?thesis
    proof cases
      case 1
      then show ?thesis using sk [of r1] sk [of r2] l1 l2 by simp
    next
      case 2
      then have "length r < length (tl (skip r2))" using 6(2) False a by blast
      then show ?thesis using sk [of r1] sk [of r2] l1 l2 by simp
    qed
  qed
qed simp_all

text \<open>More fuel than the bound changes nothing.\<close>

lemma parse_stable:
  "(2 * length s + 1 \<le> n \<longrightarrow> parse_value (Suc n) s = parse_value n s) \<and>
   (\<forall>first. 2 * length s + 2 \<le> n \<longrightarrow> parse_elems (Suc n) first s = parse_elems n first s) \<and>
   (\<forall>first acc. 2 * length s + 2 \<le> n \<longrightarrow> parse_members (Suc n) first acc s = parse_members n first acc s)"
proof (induction n arbitrary: s)
  case (Suc n)
  have sk: "length (skip r) \<le> length r" for r by (rule length_skip)
  have v: "2 * length t + 1 \<le> n \<Longrightarrow> parse_value (Suc n) t = parse_value n t"
    and e: "2 * length t + 2 \<le> n \<Longrightarrow> parse_elems (Suc n) first t = parse_elems n first t"
    and m: "2 * length t + 2 \<le> n \<Longrightarrow> parse_members (Suc n) first acc t = parse_members n first acc t"
    for t first acc using Suc.IH by blast+
  have "parse_value (Suc (Suc n)) s = parse_value (Suc n) s" if "2 * length s + 1 \<le> Suc n"
  proof -
    have tl: "2 * length (tl (skip s)) + 2 \<le> n" if "startsWith (skip s) (c # p)" for c p
      using tl_skip_length [OF that] \<open>2 * length s + 1 \<le> Suc n\<close> by simp
    show ?thesis
      unfolding parse_value.simps(2) [of "Suc n"] parse_value.simps(2) [of n] Let_def
      using e [OF tl] m [OF tl]
      by (simp del: parse_elems.simps parse_members.simps parse_value.simps cong: if_cong)
  qed
  moreover have "parse_elems (Suc (Suc n)) first s = parse_elems (Suc n) first s"
    if "2 * length s + 2 \<le> Suc n" for first
  proof -
    have "parse_value (Suc n) s = parse_value n s" using that by (intro v) simp
    moreover have "parse_elems (Suc n) False (tl (skip r)) = parse_elems n False (tl (skip r))"
      if "parse_value n s = Some (j, r)" for j r
      using parse_lengths(1) [OF that] sk [of r] \<open>2 * length s + 2 \<le> Suc n\<close> by (intro e) simp
    ultimately show ?thesis
      unfolding parse_elems.simps(2) [of "Suc n"] parse_elems.simps(2) [of n]
      by (auto simp: Let_def simp del: parse_elems.simps parse_members.simps parse_value.simps split: option.splits)
  qed
  moreover have "parse_members (Suc (Suc n)) first acc s = parse_members (Suc n) first acc s"
    if "2 * length s + 2 \<le> Suc n" for first acc
  proof -
    have pv: "parse_value (Suc n) (tl (skip r)) = parse_value n (tl (skip r))"
      if "parse_string (tl (skip s)) = Some (k, r)" for k r
      using parse_string_length [OF that] sk [of r] sk [of s] \<open>2 * length s + 2 \<le> Suc n\<close>
      by (intro v) simp
    have pm: "parse_members (Suc n) False a (tl (skip r2)) = parse_members n False a (tl (skip r2))"
      if "parse_string (tl (skip s)) = Some (k, r)" "parse_value n (tl (skip r)) = Some (j, r2)" for k r j r2 a
      using parse_string_length [OF that(1)] parse_lengths(1) [OF that(2)]
        sk [of r] sk [of s] sk [of r2] \<open>2 * length s + 2 \<le> Suc n\<close> by (intro m) simp
    show ?thesis
      by (rule trans [OF parse_members.simps(2) trans [OF _ parse_members.simps(2) [symmetric]]])
        (use pv pm in \<open>auto simp: Let_def simp del: parse_elems.simps parse_members.simps parse_value.simps
          split: option.splits\<close>)
  qed
  ultimately show ?case by blast
qed simp_all

lemma parse_value_fuel: "2 * length s + 1 \<le> n \<Longrightarrow> parse_value n s = parse_value (json_fuel s) s"
proof (induction "n - (2 * length s + 1)" arbitrary: n)
  case 0
  then have "n = 2 * length s + 1" by simp
  then show ?case using parse_stable [of s n] by (simp add: json_fuel_def)
next
  case (Suc k)
  then obtain m where "n = Suc m" "2 * length s + 1 \<le> m" "k = m - (2 * length s + 1)"
    by (cases n) auto
  with Suc.hyps(1) [of m] show ?case using parse_stable [of s m] by simp
qed

section \<open>The round trip\<close>

text \<open>What \<open>JSON.stringify\<close> prints here: integers, and objects with distinct keys.\<close>

fun wf_json :: "json \<Rightarrow> bool" where
  "wf_json (JNum m e) = (e = 0)"
| "wf_json (JArr js) = list_all wf_json js"
| "wf_json (JObj ps) = (distinct (map fst ps) \<and> list_all (\<lambda>(_, j). wf_json j) ps)"
| "wf_json _ = True"

lemma byte_digit: "n < 10 \<Longrightarrow> byte (digit n) = 48 + n"
  by (simp add: digit_def)

lemma is_digit_digit: "n < 10 \<Longrightarrow> is_digit (digit n)"
  by (simp add: is_digit_def byte_digit)

lemma show_nat_digits: "list_all is_digit (show_nat n)"
proof (induction n rule: show_nat.induct)
  case (1 n)
  show ?case by (subst show_nat.simps) (use 1 in \<open>auto simp: is_digit_digit\<close>)
qed

lemma show_nat_not_Nil: "show_nat n \<noteq> []"
  by (subst show_nat.simps) simp

lemma digits_value_append: "digits_value (ds @ [d]) = 10 * digits_value ds + (byte d - 48)"
  by (simp add: digits_value_def)

lemma digits_value_show: "digits_value (show_nat n) = n"
proof (induction n rule: show_nat.induct)
  case (1 n)
  show ?case
  proof (cases "n < 10")
    case True
    then show ?thesis by (subst show_nat.simps) (simp add: digits_value_def byte_digit)
  next
    case False
    have "digits_value (show_nat n) = 10 * digits_value (show_nat (n div 10)) + n mod 10"
      using False by (subst show_nat.simps) (simp add: digits_value_append byte_digit)
    with 1 [OF False] show ?thesis by simp
  qed
qed

lemma show_nat_hd: "hd (show_nat n) = CHR ''0'' \<longleftrightarrow> n = 0"
proof (induction n rule: show_nat.induct)
  case (1 n)
  have d: "digit m = CHR ''0'' \<longleftrightarrow> m = 0" if "m < 10" for m
    using that by (simp add: digit_def char_of_eq_byte byte_lit)
  show ?case
    by (subst show_nat.simps) (use 1 d in \<open>auto simp: show_nat_not_Nil div_eq_0_iff\<close>)
qed

text \<open>What may follow a number without being read as part of it.\<close>

definition ends_number :: "str \<Rightarrow> bool" where
  "ends_number r \<longleftrightarrow> r = [] \<or> \<not> is_digit (hd r) \<and> hd r \<noteq> dot \<and> hd r \<noteq> CHR ''e'' \<and> hd r \<noteq> CHR ''E''"

lemma takeWhile_digits:
  assumes "list_all is_digit ds" "ends_number r"
  shows "takeWhile is_digit (ds @ r) = ds"
  using assms by (cases r) (auto simp: list_all_iff ends_number_def takeWhile_append)

lemma number_digits_show:
  assumes "ends_number r"
  shows "number_digits (show_nat n @ r) = show_nat n"
proof (cases "n = 0")
  case True
  then have "show_nat n = ''0''" by (subst show_nat.simps) (simp add: digit_def char_of_eq_byte byte_lit)
  then show ?thesis by (simp add: number_digits_def)
next
  case False
  then have "\<not> startsWith (show_nat n @ r) ''0''"
    using show_nat_hd [of n] show_nat_not_Nil [of n] by (cases "show_nat n") auto
  then show ?thesis by (simp add: number_digits_def takeWhile_digits show_nat_digits assms)
qed

lemma parse_frac_exp_end: "ends_number r \<Longrightarrow> parse_frac r = Some ([], r) \<and> parse_exp r = Some (0, r)"
  by (cases r) (auto simp: parse_frac_def parse_exp_def ends_number_def)

lemma parse_number_show:
  assumes "ends_number r"
  shows "parse_number (show_int m @ r) = Some (JNum m 0, r)"
proof -
  have hd: "startsWith (show_nat n @ r) ''-'' = False" for n
    using show_nat_digits [of n] show_nat_not_Nil [of n]
    by (cases "show_nat n") (auto simp: is_digit_def byte_lit)
  have body: "number_body (show_int m @ r) = show_nat (nat \<bar>m\<bar>) @ r"
    using hd by (auto simp: number_body_def show_int_def)
  have sgn: "startsWith (show_int m @ r) ''-'' \<longleftrightarrow> m < 0"
    using hd by (auto simp: show_int_def)
  show ?thesis
    unfolding parse_number_alt body number_digits_show [OF assms] sgn
    using parse_frac_exp_end [OF assms] by (simp add: show_nat_not_Nil digits_value_show)
qed

lemma byte_lower_hex: "n < 16 \<Longrightarrow> hex_value (lower_hex n) = Some n"
  by (auto simp: hex_value_def lower_hex_def)

lemma utf8_encode_ascii: "n < 128 \<Longrightarrow> utf8_encode n = [char_of n]"
  by (simp add: utf8_encode_def)

lemma hex_value_zero: "hex_value (CHR ''0'') = Some 0"
  by (simp add: hex_value_def byte_lit)

lemma unicode_escape_control:
  assumes "byte c < 32"
  shows "unicode_escape (CHR ''0'' # CHR ''0'' # lower_hex (byte c div 16) # lower_hex (byte c mod 16) # r) =
    Some ([c], r)"
proof -
  have "hex4 (CHR ''0'' # CHR ''0'' # lower_hex (byte c div 16) # lower_hex (byte c mod 16) # r) =
      Some (byte c, r)"
    using assms by (simp add: byte_lower_hex hex_value_zero)
  then show ?thesis
    using assms by (auto simp: unicode_escape_def utf8_encode_ascii split: list.splits option.splits)
qed

lemma parse_string_quote_char: "parse_string (quote_char c @ s) = map_option (apfst ((#) c)) (parse_string s)"
proof (cases "byte c < 32 \<and> byte c \<notin> {8, 9, 10, 12, 13}")
  case True
  have append_c: "(@) [c] = (#) c" by (auto simp: fun_eq_iff)
  from True have "quote_char c = [CHR 92, CHR ''u'', CHR ''0'', CHR ''0'', lower_hex (byte c div 16), lower_hex (byte c mod 16)]"
    by (auto simp: quote_char_def byte_lit)
  then show ?thesis
    using unicode_escape_control [of c s] True append_c
    by (simp add: parse_string.simps(2) [of "CHR 92"] byte_lit comp_def option.map_comp cong: map_option_cong)
next
  case False
  have append_c: "(@) [c] = (#) c" by (auto simp: fun_eq_iff)
  have ctl: "byte c = n \<Longrightarrow> (@) [char_of n] = (#) c" for n
    using char_of_byte [of c] by (auto simp: fun_eq_iff)
  show ?thesis
    using False ctl [of 8] ctl [of 9] ctl [of 10] ctl [of 12] ctl [of 13] append_c
    by (auto simp: quote_char_def parse_string.simps(2) [of "CHR 92"] parse_string.simps(2) [of c]
        simple_escape_def byte_lit)
qed

lemma parse_string_quote: "parse_string (concat (map quote_char s) @ CHR 34 # r) = Some (s, r)"
proof (induction s)
  case Nil
  show ?case by (simp add: parse_string.simps)
next
  case (Cons c s)
  then show ?case by (simp add: parse_string_quote_char)
qed

lemma skip_hd: "s \<noteq> [] \<Longrightarrow> \<not> json_space (hd s) \<Longrightarrow> skip s = s"
  by (cases s) (simp_all add: skip_def)

lemma skip_lit: "\<not> json_space c \<Longrightarrow> skip (c # s) = c # s"
  by (simp add: skip_def)

lemma json_space_lit [simp]:
  "\<not> json_space (CHR '','')" "\<not> json_space (CHR '':'')" "\<not> json_space (CHR '']'')"
  "\<not> json_space (CHR ''}'')" "\<not> json_space (CHR 34)" "\<not> json_space (CHR ''['')"
  "\<not> json_space (CHR ''{'')" "\<not> json_space (CHR ''n'')" "\<not> json_space (CHR ''t'')"
  "\<not> json_space (CHR ''f'')" "\<not> json_space (CHR ''-'')"
  by (simp_all add: json_space_def byte_lit)

lemma digit_char: "is_digit c \<Longrightarrow> \<not> json_space c \<and> c \<noteq> CHR '']'' \<and> c \<noteq> CHR ''n'' \<and> c \<noteq> CHR ''t'' \<and>
    c \<noteq> CHR ''f'' \<and> c \<noteq> CHR 34 \<and> c \<noteq> CHR ''['' \<and> c \<noteq> CHR ''{''"
  by (auto simp: is_digit_def json_space_def byte_lit)

text \<open>The first character of a printed value: of a number, not one of the other kinds' characters.\<close>

lemma show_int_hd:
  "\<exists>c cs. show_int m = c # cs \<and> (c = CHR ''-'' \<or> is_digit c)"
  using show_nat_digits [of "nat m"] show_nat_not_Nil [of "nat m"]
  by (cases "show_nat (nat m)") (auto simp: show_int_def)

lemma jprint_hd: "wf_json j \<Longrightarrow> \<exists>c cs. jprint j = c # cs \<and> \<not> json_space c \<and> c \<noteq> CHR '']''"
proof (cases j)
  case (JNum m e)
  obtain c cs where "show_int m = c # cs" "c = CHR ''-'' \<or> is_digit c" using show_int_hd by blast
  then show ?thesis using JNum digit_char [of c] by auto
qed (auto simp: quote_def)

lemma ends_number_lit [simp]:
  "ends_number (CHR '','' # r)" "ends_number (CHR '']'' # r)" "ends_number (CHR ''}'' # r)" "ends_number []"
  by (simp_all add: ends_number_def is_digit_def byte_lit)

lemma parse_quote: "parse_string (tl (quote k @ r)) = Some (k, r)"
  using parse_string_quote [of k r] by (simp add: quote_def)

lemma quote_Cons: "\<exists>cs. quote k = CHR 34 # cs"
  by (simp add: quote_def)

lemma parse_value_show:
  assumes "ends_number r"
  shows "parse_value (Suc n) (show_int m @ r) = Some (JNum m 0, r)"
proof -
  obtain c cs where c: "show_int m = c # cs" "c = CHR ''-'' \<or> is_digit c" using show_int_hd by blast
  then have "\<not> json_space c" "c \<noteq> CHR ''n''" "c \<noteq> CHR ''t''" "c \<noteq> CHR ''f''" "c \<noteq> CHR 34"
      "c \<noteq> CHR ''[''" "c \<noteq> CHR ''{''"
    using digit_char [of c] by auto
  then show ?thesis
    using parse_number_show [OF assms, of m] c(1) by (simp add: skip_lit)
qed

text \<open>Any fuel of twice the length is enough for what was printed.\<close>

lemma parse_print:
  "wf_json j \<Longrightarrow> ends_number r \<Longrightarrow> 2 * length (jprint j) + 1 \<le> n \<Longrightarrow>
     parse_value n (jprint j @ r) = Some (j, r)"
  "list_all wf_json js \<Longrightarrow> 2 * length (jprint_elems js) + 1 \<le> n \<Longrightarrow> first \<or> js \<noteq> [] \<Longrightarrow>
     parse_elems n first (jprint_elems js @ r) = Some (js, r)"
  "list_all (\<lambda>(_, j). wf_json j) ps \<Longrightarrow> distinct (map fst (acc @ ps)) \<Longrightarrow>
     2 * length (jprint_members ps) + 1 \<le> n \<Longrightarrow> first \<or> ps \<noteq> [] \<Longrightarrow>
     parse_members n first acc (jprint_members ps @ r) = Some (acc @ ps, r)"
proof (induction j and js and ps arbitrary: n r and n r first and n r first acc
    rule: jprint_jprint_elems_jprint_members.induct)
  case 1
  then obtain m where "n = Suc m" by (cases n) auto
  then show ?case by (simp add: skip_lit)
next
  case (2 b)
  then obtain m where "n = Suc m" by (cases n) auto
  then show ?case by (simp add: skip_lit)
next
  case (3 i e)
  then obtain m where "n = Suc m" by (cases n) auto
  with 3 show ?case by (simp add: parse_value_show del: parse_value.simps)
next
  case (4 s)
  then obtain m where "n = Suc m" by (cases n) auto
  then show ?case using parse_quote [of s r] by (auto simp: quote_def skip_lit)
next
  case (5 js)
  then obtain m where "n = Suc m" by (cases n) auto
  with 5 show ?case by (simp add: skip_lit)
next
  case (6 ps)
  then obtain m where "n = Suc m" by (cases n) auto
  with 6 show ?case by (simp add: skip_lit)
next
  case 7
  then obtain m where "n = Suc m" by (cases n) auto
  with 7 show ?case by (simp add: skip_lit)
next
  case (8 j)
  then obtain m where m: "n = Suc m" by (cases n) auto
  obtain c cs where c: "jprint j = c # cs" "\<not> json_space c" "c \<noteq> CHR '']''"
    using jprint_hd [of j] "8.prems"(1) by (auto simp del: jprint.simps)
  have "parse_value m (jprint j @ '']'' @ r) = Some (j, '']'' @ r)" using 8 m by simp
  then show ?case using c by (simp add: m skip_lit)
next
  case (9 j j' js)
  then obtain m where m: "n = Suc m" by (cases n) auto
  obtain c cs where c: "jprint j = c # cs" "\<not> json_space c" "c \<noteq> CHR '']''"
    using jprint_hd [of j] "9.prems"(1) by (auto simp del: jprint.simps)
  have "parse_value m (jprint j @ CHR '','' # jprint_elems (j' # js) @ r) =
      Some (j, CHR '','' # jprint_elems (j' # js) @ r)"
    using 9 m by simp
  moreover have "parse_elems m False (jprint_elems (j' # js) @ r) = Some (j' # js, r)"
    using 9(2) [of m False r] "9.prems" m by simp
  ultimately show ?case using c by (simp add: m skip_lit)
next
  case 10
  then obtain m where "n = Suc m" by (cases n) auto
  with 10 show ?case by (simp add: skip_lit)
next
  case (11 k j)
  then obtain m where m: "n = Suc m" by (cases n) auto
  have "parse_value m (jprint j @ ''}'' @ r) = Some (j, ''}'' @ r)" using 11 m by simp
  moreover obtain cs where cs: "quote k = CHR 34 # cs" using quote_Cons by blast
  ultimately show ?case
    using parse_quote [of k "CHR '':'' # jprint j @ CHR ''}'' # r"] "11.prems"(2)
    by (simp add: m skip_lit put_prop_new)
next
  case (12 k j p ps)
  then obtain m where m: "n = Suc m" by (cases n) auto
  have "parse_value m (jprint j @ CHR '','' # jprint_members (p # ps) @ r) =
      Some (j, CHR '','' # jprint_members (p # ps) @ r)"
    using 12 m by simp
  moreover have "parse_members m False (acc @ [(k, j)]) (jprint_members (p # ps) @ r) =
      Some ((acc @ [(k, j)]) @ p # ps, r)"
    using 12(2) [of "acc @ [(k, j)]" m False r] "12.prems" m by simp
  moreover obtain cs where cs: "quote k = CHR 34 # cs" using quote_Cons by blast
  ultimately show ?case
    using parse_quote [of k "CHR '':'' # jprint j @ CHR '','' # jprint_members (p # ps) @ r"] "12.prems"(2)
    by (simp add: m skip_lit put_prop_new)
qed

text \<open>\<open>JSON.parse(JSON.stringify(j))\<close> is \<open>j\<close>.\<close>

theorem jparse_jprint: "wf_json j \<Longrightarrow> jparse (jprint j) = Some j"
  using parse_print(1) [of j "[]" "json_fuel (jprint j)"]
  by (simp add: jparse_def json_fuel_def skip_def)

end
