(* ===== verification/Regex.thy ===== *)
theory Regex
  imports Prelude
begin

text \<open>
  The regular expressions of the source as a datatype, with an executable matcher (Brzozowski
  derivatives) and the language it decides. \<open>rx_test\<close> is \<open>/^...$/.test(s)\<close> and
  \<open>rx_test_prefix\<close> is \<open>/^.../.test(s)\<close>; \<open>rx_nocase\<close> is the flag
  \<open>i\<close>. Character classes are predicates on bytes: every class of the source is either
  a set of ASCII characters or the complement of one.
\<close>

datatype rx =
    RNone
  | REmpty
  | RSet "char \<Rightarrow> bool"
  | RSeq rx rx
  | RAlt rx rx
  | RStar rx

abbreviation rchar :: "char \<Rightarrow> rx" where
  "rchar c \<equiv> RSet (\<lambda>d. d = c)"

definition rx_plus :: "rx \<Rightarrow> rx" where
  "rx_plus r = RSeq r (RStar r)"

definition rx_opt :: "rx \<Rightarrow> rx" where
  "rx_opt r = RAlt REmpty r"

fun rx_lit :: "str \<Rightarrow> rx" where
  "rx_lit [] = REmpty"
| "rx_lit (c # cs) = RSeq (rchar c) (rx_lit cs)"

fun rx_seq :: "rx list \<Rightarrow> rx" where
  "rx_seq [] = REmpty"
| "rx_seq (r # rs) = RSeq r (rx_seq rs)"

fun rx_alts :: "rx list \<Rightarrow> rx" where
  "rx_alts [] = RNone"
| "rx_alts (r # rs) = RAlt r (rx_alts rs)"

section \<open>Matching\<close>

fun nullable :: "rx \<Rightarrow> bool" where
  "nullable RNone = False"
| "nullable REmpty = True"
| "nullable (RSet P) = False"
| "nullable (RSeq r s) = (nullable r \<and> nullable s)"
| "nullable (RAlt r s) = (nullable r \<or> nullable s)"
| "nullable (RStar r) = True"

text \<open>Sequences and alternatives with the trivial cases removed keep derivatives small.\<close>

fun mk_seq :: "rx \<Rightarrow> rx \<Rightarrow> rx" where
  "mk_seq RNone s = RNone"
| "mk_seq REmpty s = s"
| "mk_seq r s = RSeq r s"

fun mk_alt :: "rx \<Rightarrow> rx \<Rightarrow> rx" where
  "mk_alt RNone s = s"
| "mk_alt r RNone = r"
| "mk_alt r s = RAlt r s"

fun deriv :: "char \<Rightarrow> rx \<Rightarrow> rx" where
  "deriv c RNone = RNone"
| "deriv c REmpty = RNone"
| "deriv c (RSet P) = (if P c then REmpty else RNone)"
| "deriv c (RSeq r s) =
     (if nullable r then mk_alt (mk_seq (deriv c r) s) (deriv c s) else mk_seq (deriv c r) s)"
| "deriv c (RAlt r s) = mk_alt (deriv c r) (deriv c s)"
| "deriv c (RStar r) = mk_seq (deriv c r) (RStar r)"

fun rx_test :: "rx \<Rightarrow> str \<Rightarrow> bool" where
  "rx_test r [] = nullable r"
| "rx_test r (c # cs) = rx_test (deriv c r) cs"

fun rx_test_prefix :: "rx \<Rightarrow> str \<Rightarrow> bool" where
  "rx_test_prefix r [] = nullable r"
| "rx_test_prefix r (c # cs) = (nullable r \<or> rx_test_prefix (deriv c r) cs)"

text \<open>The flag \<open>i\<close>: a character matches when its upper- or lower-case form does.\<close>

definition upper_char :: "char \<Rightarrow> char" where
  "upper_char c = (if 97 \<le> byte c \<and> byte c \<le> 122 then char_of (byte c - 32) else c)"

fun rx_nocase :: "rx \<Rightarrow> rx" where
  "rx_nocase (RSet P) = RSet (\<lambda>c. P (lower_char c) \<or> P (upper_char c))"
| "rx_nocase (RSeq r s) = RSeq (rx_nocase r) (rx_nocase s)"
| "rx_nocase (RAlt r s) = RAlt (rx_nocase r) (rx_nocase s)"
| "rx_nocase (RStar r) = RStar (rx_nocase r)"
| "rx_nocase r = r"

section \<open>The language of a regular expression\<close>

inductive in_lang :: "rx \<Rightarrow> str \<Rightarrow> bool" where
  in_empty: "in_lang REmpty []"
| in_set: "P c \<Longrightarrow> in_lang (RSet P) [c]"
| in_seq: "in_lang r a \<Longrightarrow> in_lang s b \<Longrightarrow> in_lang (RSeq r s) (a @ b)"
| in_alt_left: "in_lang r a \<Longrightarrow> in_lang (RAlt r s) a"
| in_alt_right: "in_lang s a \<Longrightarrow> in_lang (RAlt r s) a"
| in_star_nil: "in_lang (RStar r) []"
| in_star_step: "in_lang r a \<Longrightarrow> in_lang (RStar r) b \<Longrightarrow> in_lang (RStar r) (a @ b)"

inductive_simps in_lang_None [simp]: "in_lang RNone s"
inductive_simps in_lang_Empty [simp]: "in_lang REmpty s"
inductive_simps in_lang_Set [simp]: "in_lang (RSet P) s"
inductive_simps in_lang_Seq: "in_lang (RSeq r s) t"
inductive_simps in_lang_Alt [simp]: "in_lang (RAlt r s) t"

lemma in_lang_nullable: "in_lang r [] = nullable r"
proof
  assume "in_lang r []"
  then show "nullable r" by (induction r "[] :: str" rule: in_lang.induct) auto
next
  assume "nullable r"
  then show "in_lang r []"
  proof (induction r)
    case (RSeq r s)
    then show ?case using in_seq [of r "[]" s "[]"] by simp
  qed (auto intro: in_lang.intros)
qed

lemma in_lang_mk_seq: "in_lang (mk_seq r s) t = in_lang (RSeq r s) t"
  by (induction r s rule: mk_seq.induct) (auto simp: in_lang_Seq)

lemma in_lang_mk_alt: "in_lang (mk_alt r s) t = in_lang (RAlt r s) t"
  by (induction r s rule: mk_alt.induct) auto

lemma in_lang_star_Cons:
  "in_lang (RStar r) (c # t) \<Longrightarrow> \<exists>a b. t = a @ b \<and> in_lang r (c # a) \<and> in_lang (RStar r) b"
proof (induction "RStar r" "c # t" arbitrary: t rule: in_lang.induct)
  case (in_star_step a b)
  then show ?case by (cases a) auto
qed

lemma in_lang_deriv: "in_lang (deriv c r) t = in_lang r (c # t)"
proof (induction r arbitrary: t)
  case (RSeq r s)
  have "in_lang (RSeq r s) (c # t) \<longleftrightarrow>
      (\<exists>a b. t = a @ b \<and> in_lang r (c # a) \<and> in_lang s b) \<or> in_lang r [] \<and> in_lang s (c # t)"
    by (auto simp: in_lang_Seq Cons_eq_append_conv)
  then show ?case
    using RSeq by (auto simp: in_lang_mk_seq in_lang_mk_alt in_lang_Seq in_lang_nullable)
next
  case (RStar r)
  have "in_lang (RStar r) (c # t) \<longleftrightarrow> (\<exists>a b. t = a @ b \<and> in_lang r (c # a) \<and> in_lang (RStar r) b)"
    using in_lang_star_Cons in_star_step [of r "c # _"] by fastforce
  then show ?case using RStar by (auto simp: in_lang_mk_seq in_lang_Seq)
qed (auto simp: in_lang_mk_alt)

text \<open>The matcher decides the language.\<close>

lemma rx_test_iff: "rx_test r s \<longleftrightarrow> in_lang r s"
  by (induction s arbitrary: r) (auto simp: in_lang_nullable in_lang_deriv)

lemma rx_test_prefix_iff: "rx_test_prefix r s \<longleftrightarrow> (\<exists>a b. s = a @ b \<and> in_lang r a)"
proof (induction s arbitrary: r)
  case (Cons c s)
  have "(\<exists>a b. c # s = a @ b \<and> in_lang r a) \<longleftrightarrow>
      in_lang r [] \<or> (\<exists>a b. s = a @ b \<and> in_lang r (c # a))"
    by (auto simp: Cons_eq_append_conv)
  with Cons show ?case by (simp add: in_lang_deriv in_lang_nullable)
qed (simp add: in_lang_nullable)

section \<open>Languages of the combinators\<close>

lemma in_lang_lit [simp]: "in_lang (rx_lit p) s \<longleftrightarrow> s = p"
  by (induction p arbitrary: s) (auto simp: in_lang_Seq)

lemma in_lang_star_set: "in_lang (RStar (RSet P)) s \<longleftrightarrow> list_all P s"
proof (induction s)
  case Nil
  show ?case by (simp add: in_star_nil)
next
  case (Cons c s)
  have "in_lang (RStar (RSet P)) (c # s) \<longleftrightarrow> P c \<and> in_lang (RStar (RSet P)) s"
    using in_lang_star_Cons [of "RSet P" c s] in_star_step [of "RSet P" "[c]" s] by auto
  with Cons show ?case by simp
qed

lemma in_lang_plus_set: "in_lang (rx_plus (RSet P)) s \<longleftrightarrow> s \<noteq> [] \<and> list_all P s"
proof -
  have "in_lang (rx_plus (RSet P)) s \<longleftrightarrow> (\<exists>c t. s = [c] @ t \<and> P c \<and> list_all P t)"
    unfolding rx_plus_def in_lang_Seq in_lang_star_set in_lang_Set by blast
  also have "\<dots> \<longleftrightarrow> s \<noteq> [] \<and> list_all P s" by (cases s) auto
  finally show ?thesis .
qed

lemma in_lang_opt [simp]: "in_lang (rx_opt r) s \<longleftrightarrow> s = [] \<or> in_lang r s"
  by (simp add: rx_opt_def)

lemma in_lang_seq_Nil [simp]: "in_lang (rx_seq []) s \<longleftrightarrow> s = []"
  by simp

lemma in_lang_seq_Cons: "in_lang (rx_seq (r # rs)) s \<longleftrightarrow> (\<exists>a b. s = a @ b \<and> in_lang r a \<and> in_lang (rx_seq rs) b)"
  by (auto simp: in_lang_Seq)

lemma in_lang_alts [simp]: "in_lang (rx_alts rs) s \<longleftrightarrow> (\<exists>r \<in> set rs. in_lang r s)"
  by (induction rs) auto

section \<open>Ignoring case\<close>

lemma lower_upper_char [simp]: "lower_char (upper_char c) = lower_char c"
  by (auto simp: lower_char_def upper_char_def)

lemma upper_lower_char [simp]: "upper_char (lower_char c) = upper_char c"
  by (auto simp: lower_char_def upper_char_def)

text \<open>Two characters with the same lower-case form have the same upper-case form.\<close>

lemma same_case: "lower_char c = lower_char d \<Longrightarrow> upper_char c = upper_char d"
  by (metis upper_lower_char)

definition same_case_set :: "(char \<Rightarrow> bool) \<Rightarrow> bool" where
  "same_case_set P \<longleftrightarrow> (\<forall>c d. lower_char c = lower_char d \<longrightarrow> P c = P d)"

primrec case_closed :: "rx \<Rightarrow> bool" where
  "case_closed RNone = True"
| "case_closed REmpty = True"
| "case_closed (RSet P) = same_case_set P"
| "case_closed (RSeq r s) = (case_closed r \<and> case_closed s)"
| "case_closed (RAlt r s) = (case_closed r \<and> case_closed s)"
| "case_closed (RStar r) = case_closed r"

lemma same_case_nocase: "same_case_set (\<lambda>c. P (lower_char c) \<or> P (upper_char c))"
  unfolding same_case_set_def by (metis same_case)

lemma case_closed_nocase [simp]: "case_closed (rx_nocase r)"
  by (induction r) (simp_all add: same_case_nocase)

lemma case_closed_mk_seq [simp]:
  "case_closed r \<Longrightarrow> case_closed s \<Longrightarrow> case_closed (mk_seq r s)"
  by (cases r) simp_all

lemma case_closed_mk_alt [simp]:
  "case_closed r \<Longrightarrow> case_closed s \<Longrightarrow> case_closed (mk_alt r s)"
  by (cases r; cases s) simp_all

lemma case_closed_deriv [simp]: "case_closed r \<Longrightarrow> case_closed (deriv c r)"
  by (induction r) simp_all

lemma same_case_setD: "same_case_set P \<Longrightarrow> lower_char c = lower_char d \<Longrightarrow> P c = P d"
  unfolding same_case_set_def by blast

lemma deriv_case_closed:
  "case_closed r \<Longrightarrow> lower_char c = lower_char d \<Longrightarrow> deriv c r = deriv d r"
proof (induction r)
  case (RSet P)
  then have "P c = P d" by (metis case_closed.simps(3) same_case_setD)
  then show ?case by simp
qed simp_all

lemma rx_test_case_closed:
  "case_closed r \<Longrightarrow> lower s = lower t \<Longrightarrow> rx_test r s = rx_test r t"
proof (induction s arbitrary: r t)
  case (Cons c s)
  then obtain d t' where t: "t = d # t'" by (cases t) auto
  with Cons.prems have "deriv c r = deriv d r" by (intro deriv_case_closed) simp_all
  with Cons t show ?case by simp
qed (metis lower_eq_Nil lower_Nil)

text \<open>With the flag \<open>i\<close> only the lower-case form of the input counts.\<close>

lemma rx_test_nocase_lower: "rx_test (rx_nocase r) (lower s) = rx_test (rx_nocase r) s"
  by (rule rx_test_case_closed) simp_all

section \<open>Sequences read from the left\<close>

named_theorems rx_lang "the language of a regular expression, read from the left"

lemma in_lang_seq_lit [rx_lang]:
  "in_lang (rx_seq (rx_lit p # rs)) s \<longleftrightarrow> startsWith s p \<and> in_lang (rx_seq rs) (drop (length p) s)"
  unfolding in_lang_seq_Cons by (auto simp: startsWith_iff simp del: rx_seq.simps)

lemma in_lang_seq_opt [rx_lang]:
  "in_lang (rx_seq (rx_opt r # rs)) s \<longleftrightarrow> in_lang (rx_seq rs) s \<or> in_lang (rx_seq (r # rs)) s"
  unfolding in_lang_seq_Cons by (auto simp del: rx_seq.simps)

lemmas [rx_lang] = in_lang_seq_Nil

lemma in_lang_seq_last [rx_lang]: "in_lang (rx_seq [r]) s \<longleftrightarrow> in_lang r s"
  by (simp add: in_lang_Seq)

text \<open>
  With the flag \<open>i\<close>, a pattern without upper-case letters matches a string when it matches
  the lower-case string.
\<close>

primrec lower_rx :: "rx \<Rightarrow> bool" where
  "lower_rx RNone = True"
| "lower_rx REmpty = True"
| "lower_rx (RSet P) = (\<forall>c. P (upper_char c) \<longrightarrow> P (lower_char c))"
| "lower_rx (RSeq r s) = (lower_rx r \<and> lower_rx s)"
| "lower_rx (RAlt r s) = (lower_rx r \<and> lower_rx s)"
| "lower_rx (RStar r) = lower_rx r"

lemma nullable_nocase [simp]: "nullable (rx_nocase r) = nullable r"
  by (induction r) auto

lemma nocase_mk_seq: "rx_nocase (mk_seq r s) = mk_seq (rx_nocase r) (rx_nocase s)"
  by (cases r) simp_all

lemma nocase_mk_alt: "rx_nocase (mk_alt r s) = mk_alt (rx_nocase r) (rx_nocase s)"
  by (cases r; cases s) simp_all

lemma lower_rx_mk [simp]:
  "lower_rx r \<Longrightarrow> lower_rx s \<Longrightarrow> lower_rx (mk_seq r s)"
  "lower_rx r \<Longrightarrow> lower_rx s \<Longrightarrow> lower_rx (mk_alt r s)"
  by (cases r; simp) (cases r; cases s; simp)

lemma lower_rx_deriv [simp]: "lower_rx r \<Longrightarrow> lower_rx (deriv c r)"
  by (induction r) simp_all

lemma deriv_nocase: "lower_rx r \<Longrightarrow> deriv c (rx_nocase r) = rx_nocase (deriv (lower_char c) r)"
proof (induction r)
  case (RSet P)
  have "P (upper_char c) \<Longrightarrow> P (lower_char c)" using RSet by simp
  then show ?case by auto
qed (simp_all add: nocase_mk_seq nocase_mk_alt)

lemma rx_test_nocase: "lower_rx r \<Longrightarrow> rx_test (rx_nocase r) s = rx_test r (lower s)"
  by (induction s arbitrary: r) (simp_all add: deriv_nocase)

lemma byte_upper_char: "byte (upper_char c) = (if 97 \<le> byte c \<and> byte c \<le> 122 then byte c - 32 else byte c)"
proof -
  have "byte c - 32 < 256" using byte_less [of c] by linarith
  then show ?thesis by (simp add: upper_char_def)
qed

lemma lower_rx_char: "\<not> (65 \<le> byte d \<and> byte d \<le> 90) \<Longrightarrow> lower_rx (rchar d)"
proof -
  assume d: "\<not> (65 \<le> byte d \<and> byte d \<le> 90)"
  have "byte (upper_char c) = byte d \<Longrightarrow> byte (lower_char c) = byte d" for c
    using d by (auto simp: byte_upper_char byte_lower_char split: if_splits)
  then show ?thesis by (auto simp flip: byte_inject)
qed

lemma lower_rx_lit: "list_all (\<lambda>d. \<not> (65 \<le> byte d \<and> byte d \<le> 90)) p \<Longrightarrow> lower_rx (rx_lit p)"
  by (induction p) (use lower_rx_char in auto)

lemma lower_rx_opt [simp]: "lower_rx (rx_opt r) = lower_rx r"
  by (simp add: rx_opt_def)

lemma lower_rx_plus [simp]: "lower_rx (rx_plus r) = lower_rx r"
  by (simp add: rx_plus_def)

lemma lower_rx_seq [simp]: "lower_rx (rx_seq rs) \<longleftrightarrow> list_all lower_rx rs"
  by (induction rs) auto

lemma lower_rx_alts [simp]: "lower_rx (rx_alts rs) \<longleftrightarrow> list_all lower_rx rs"
  by (induction rs) auto

end
