(* ===== verification/Schema.thy ===== *)
theory Schema
  imports Json Regex
begin

text \<open>
  The deployment configuration, \<open>config/schema.ts\<close> (and \<open>api/src/rc-config.ts\<close>):
  the feature names, the parsed configuration and \<open>parseConfig\<close>, with every error it
  reports. \<open>new URL\<close> is an argument; its result carries the four members the code reads.
  A version number is compared exactly, as JavaScript does below \<open>2 ^ 53\<close>.
\<close>

datatype FeatureName = Uploads | Downloads | Terminal | Shell | Export | Share | Config | Mcp

datatype FeatureNameV2 = Uploads2 | Downloads2 | Terminal2 | Shell2 | Export2 | Mcp2

definition FEATURES :: "FeatureName list" where
  "FEATURES = [Uploads, Downloads, Terminal, Shell, Export, Share, Config, Mcp]"

definition FEATURES_V2 :: "FeatureNameV2 list" where
  "FEATURES_V2 = [Uploads2, Downloads2, Terminal2, Shell2, Export2, Mcp2]"

fun feature_name :: "FeatureName \<Rightarrow> str" where
  "feature_name Uploads = ''uploads''"
| "feature_name Downloads = ''downloads''"
| "feature_name Terminal = ''terminal''"
| "feature_name Shell = ''shell''"
| "feature_name Export = ''export''"
| "feature_name Share = ''share''"
| "feature_name Config = ''config''"
| "feature_name Mcp = ''mcp''"

fun feature_name_v2 :: "FeatureNameV2 \<Rightarrow> str" where
  "feature_name_v2 Uploads2 = ''uploads''"
| "feature_name_v2 Downloads2 = ''downloads''"
| "feature_name_v2 Terminal2 = ''terminal''"
| "feature_name_v2 Shell2 = ''shell''"
| "feature_name_v2 Export2 = ''export''"
| "feature_name_v2 Mcp2 = ''mcp''"

text \<open>\<open>Record<FeatureName, {enabled: boolean}>\<close> is a function to the flag.\<close>

record RcConfig =
  serverUrl :: "str option"
  features :: "FeatureName \<Rightarrow> bool"
  v2_features :: "FeatureNameV2 \<Rightarrow> bool"
  v2_versions :: "(str \<times> str) option"

record url_parts =
  url_protocol :: str
  url_search :: str
  url_hash :: str
  url_href :: str

type_synonym 'a parsed = "str + 'a"

definition fail :: "str \<Rightarrow> str \<Rightarrow> 'a parsed" where
  "fail source message = Inl (source @ '': '' @ message)"

text \<open>\<open>only\<close>: the first key that is not allowed is the error.\<close>

fun only :: "str \<Rightarrow> (str \<times> json) list \<Rightarrow> str list \<Rightarrow> str \<Rightarrow> unit parsed" where
  "only source [] allowed pre = Inr ()"
| "only source ((key, _) # ps) allowed pre =
     (if key \<in> set allowed then only source ps allowed pre
      else fail source (''unknown key '' @ [CHR 34] @ pre @ key @ [CHR 34]))"

definition feature :: "str \<Rightarrow> json option \<Rightarrow> str \<Rightarrow> bool parsed" where
  "feature source value name =
     (case value of
        None \<Rightarrow> Inr True
      | Some (JObj ps) \<Rightarrow>
          andThen (only source ps [''enabled''] (name @ ''.'')) (\<lambda>_.
            case get_prop ps ''enabled'' of
              None \<Rightarrow> Inr True
            | Some (JBool b) \<Rightarrow> Inr b
            | Some _ \<Rightarrow> fail source (name @ ''.enabled must be true or false''))
      | Some _ \<Rightarrow> fail source (name @ '' must be an object''))"

definition parse_server_url :: "(str \<Rightarrow> url_parts option) \<Rightarrow> str \<Rightarrow> json option \<Rightarrow> str option parsed" where
  "parse_server_url new_URL source value =
     (case value of
        None \<Rightarrow> Inr None
      | Some (JStr s) \<Rightarrow>
          (case new_URL s of
             None \<Rightarrow> fail source ''serverUrl is not a valid URL''
           | Some url \<Rightarrow>
               if url_protocol url \<noteq> ''http:'' \<and> url_protocol url \<noteq> ''https:''
               then fail source ''serverUrl must start with http:// or https://''
               else if url_search url \<noteq> [] \<or> url_hash url \<noteq> []
               then fail source ''serverUrl must not have a query or fragment''
               else Inr (Some (strip_trailing_slashes (url_href url))))
      | Some _ \<Rightarrow> fail source ''serverUrl must be a string'')"

text \<open>\<open>raw.features ?? {}\<close>: a missing or null object has no entries.\<close>

definition object_or_empty :: "str \<Rightarrow> json option \<Rightarrow> str \<Rightarrow> (str \<times> json) list parsed" where
  "object_or_empty source value name =
     (case value of
        None \<Rightarrow> Inr []
      | Some JNull \<Rightarrow> Inr []
      | Some (JObj ps) \<Rightarrow> Inr ps
      | Some _ \<Rightarrow> fail source (name @ '' must be an object''))"

text \<open>\<open>/^\d+\.\d+\.\d+$/\<close> and the three numbers.\<close>

definition semver :: rx where
  "semver = rx_seq [rx_plus (RSet is_digit), rchar dot, rx_plus (RSet is_digit), rchar dot, rx_plus (RSet is_digit)]"

definition version_numbers :: "str \<Rightarrow> nat list" where
  "version_numbers v = map digits_value (split_on dot v)"

text \<open>
  \<open>order = a.findIndex((n, i) => n !== b[i])\<close>; the range is refused when there is no
  such index or the smaller number is not on the left.
\<close>

fun first_difference :: "nat list \<Rightarrow> nat list \<Rightarrow> (nat \<times> nat) option" where
  "first_difference (a # as) (b # bs) = (if a \<noteq> b then Some (a, b) else first_difference as bs)"
| "first_difference _ _ = None"

definition version_below :: "str \<Rightarrow> str \<Rightarrow> bool" where
  "version_below mn mx =
     (case first_difference (version_numbers mn) (version_numbers mx) of
        None \<Rightarrow> False
      | Some (a, b) \<Rightarrow> \<not> b < a)"

definition parse_versions :: "str \<Rightarrow> json option \<Rightarrow> (str \<times> str) option parsed" where
  "parse_versions source value =
     (case value of
        None \<Rightarrow> Inr None
      | Some (JObj ps) \<Rightarrow>
          andThen (only source ps [''min'', ''max''] ''opencodeV2.versions.'') (\<lambda>_.
            case get_prop ps ''min'' of
              Some (JStr mn) \<Rightarrow>
                if \<not> rx_test semver mn
                then fail source ''opencodeV2.versions.min must be a MAJOR.MINOR.PATCH version''
                else (case get_prop ps ''max'' of
                  Some (JStr mx) \<Rightarrow>
                    if \<not> rx_test semver mx
                    then fail source ''opencodeV2.versions.max must be a MAJOR.MINOR.PATCH version''
                    else if version_below mn mx then Inr (Some (mn, mx))
                    else fail source ''opencodeV2.versions.min must be lower than max''
                | _ \<Rightarrow> fail source ''opencodeV2.versions.max must be a MAJOR.MINOR.PATCH version'')
            | _ \<Rightarrow> fail source ''opencodeV2.versions.min must be a MAJOR.MINOR.PATCH version'')
      | Some _ \<Rightarrow> fail source ''opencodeV2.versions must be an object'')"

definition flags_of :: "'f list \<Rightarrow> bool list \<Rightarrow> 'f \<Rightarrow> bool" where
  "flags_of names flags f = (map_of (zip names flags) f = Some True)"

definition parseConfig :: "(str \<Rightarrow> url_parts option) \<Rightarrow> json \<Rightarrow> str \<Rightarrow> RcConfig parsed" where
  "parseConfig new_URL raw source =
     (case raw of
        JObj r \<Rightarrow>
          andThen (only source r [''serverUrl'', ''features'', ''opencodeV2''] []) (\<lambda>_.
          andThen (parse_server_url new_URL source (get_prop r ''serverUrl'')) (\<lambda>url.
          andThen (object_or_empty source (get_prop r ''features'') ''features'') (\<lambda>fs.
          andThen (only source fs (map feature_name FEATURES) ''features.'') (\<lambda>_.
          andThen (object_or_empty source (get_prop r ''opencodeV2'') ''opencodeV2'') (\<lambda>v2.
          andThen (only source v2 [''features'', ''versions''] ''opencodeV2.'') (\<lambda>_.
          andThen (parse_versions source (get_prop v2 ''versions'')) (\<lambda>versions.
          andThen (object_or_empty source (get_prop v2 ''features'') ''opencodeV2.features'') (\<lambda>fs2.
          andThen (only source fs2 (map feature_name_v2 FEATURES_V2) ''opencodeV2.features.'') (\<lambda>_.
          andThen (traverse (\<lambda>f. feature source (get_prop fs (feature_name f)) (''features.'' @ feature_name f))
                    FEATURES) (\<lambda>flags.
          andThen (traverse (\<lambda>f. feature source (get_prop fs2 (feature_name_v2 f))
                    (''opencodeV2.features.'' @ feature_name_v2 f)) FEATURES_V2) (\<lambda>flags2.
            Inr \<lparr>serverUrl = (if url = Some [] then None else url),
                 features = flags_of FEATURES flags,
                 v2_features = flags_of FEATURES_V2 flags2,
                 v2_versions = versions\<rparr>)))))))))))
      | _ \<Rightarrow> fail source ''must be a JSON object'')"

definition parseConfigText ::
  "(str \<Rightarrow> url_parts option) \<Rightarrow> (str \<Rightarrow> str) \<Rightarrow> str \<Rightarrow> str \<Rightarrow> RcConfig parsed" where
  "parseConfigText new_URL json_error text source =
     (case jparse text of
        None \<Rightarrow> fail source (''not valid JSON ('' @ json_error text @ '')'')
      | Some raw \<Rightarrow> parseConfig new_URL raw source)"

text \<open>
  \<open>api/src/rc-config.ts\<close>: without a path every feature is enabled; the file's text is an
  argument (\<open>readFileSync\<close>).
\<close>

definition loadRcConfig ::
  "(str \<Rightarrow> url_parts option) \<Rightarrow> (str \<Rightarrow> str) \<Rightarrow> (str \<Rightarrow> str parsed) \<Rightarrow> str option \<Rightarrow> RcConfig parsed" where
  "loadRcConfig new_URL json_error readFile path =
     (case path of
        None \<Rightarrow> parseConfig new_URL (JObj []) ''config''
      | Some p \<Rightarrow>
          if p = [] then parseConfig new_URL (JObj []) ''config''
          else andThen (readFile p) (\<lambda>text. parseConfigText new_URL json_error text p))"

section \<open>What a successful parse guarantees\<close>

lemma only_Inr: "only source ps allowed pre = Inr () \<longleftrightarrow> (\<forall>k \<in> fst ` set ps. k \<in> set allowed)"
  by (induction ps) (auto simp: fail_def split: if_splits)

lemma distinct_FEATURES: "distinct FEATURES" "distinct FEATURES_V2"
  by (simp_all add: FEATURES_def FEATURES_V2_def)

lemma set_FEATURES: "f \<in> set FEATURES" "g \<in> set FEATURES_V2"
  by (cases f; simp add: FEATURES_def) (cases g; simp add: FEATURES_V2_def)

lemma flags_of_traverse:
  assumes "traverse p names = Inr flags" "distinct names" "f \<in> set names"
  shows "p f = Inr (flags_of names flags f)"
proof -
  from assms obtain i where i: "i < length names" "names ! i = f" by (auto simp: in_set_conv_nth)
  have l: "length names = length flags" and p: "p f = Inr (flags ! i)"
    using assms(1) i by (auto simp: traverse_Inr list_all2_conv_all_nth)
  have "map_of (zip names flags) f = Some (flags ! i)"
    using map_of_zip_nth [of names flags i] l i assms(2) by simp
  with p show ?thesis by (simp add: flags_of_def)
qed

text \<open>A feature is off exactly when its entry says \<open>"enabled": false\<close>.\<close>

definition switched_off :: "json option \<Rightarrow> bool" where
  "switched_off value \<longleftrightarrow> (\<exists>ps. value = Some (JObj ps) \<and> get_prop ps ''enabled'' = Some (JBool False))"

lemma feature_Inr:
  assumes "feature source value name = Inr b"
  shows "b \<longleftrightarrow> \<not> switched_off value"
  using assms
  by (auto simp: feature_def switched_off_def fail_def andThen_eq_Inr
      split: option.splits json.splits)

lemma feature_keys:
  assumes "feature source (Some (JObj ps)) name = Inr b"
  shows "fst ` set ps \<subseteq> {''enabled''}"
  using assms by (auto simp: feature_def andThen_eq_Inr only_Inr)

text \<open>The object under a key, empty when it is missing or null.\<close>

definition sub_object :: "(str \<times> json) list \<Rightarrow> str \<Rightarrow> (str \<times> json) list" where
  "sub_object ps k = (case get_prop ps k of Some (JObj qs) \<Rightarrow> qs | _ \<Rightarrow> [])"

lemma object_or_empty_Inr: "object_or_empty source (get_prop ps k) name = Inr qs \<Longrightarrow> qs = sub_object ps k"
  by (auto simp: object_or_empty_def sub_object_def fail_def split: option.splits json.splits)

lemma parseConfig_Inr:
  assumes "parseConfig new_URL raw source = Inr cfg"
  obtains r url flags flags2 where
    "raw = JObj r"
    "only source r [''serverUrl'', ''features'', ''opencodeV2''] [] = Inr ()"
    "only source (sub_object r ''features'') (map feature_name FEATURES) ''features.'' = Inr ()"
    "only source (sub_object r ''opencodeV2'') [''features'', ''versions''] ''opencodeV2.'' = Inr ()"
    "only source (sub_object (sub_object r ''opencodeV2'') ''features'') (map feature_name_v2 FEATURES_V2)
       ''opencodeV2.features.'' = Inr ()"
    "parse_versions source (get_prop (sub_object r ''opencodeV2'') ''versions'') = Inr (v2_versions cfg)"
    "\<And>f. feature source (get_prop (sub_object r ''features'') (feature_name f)) (''features.'' @ feature_name f) =
       Inr (features cfg f)"
    "\<And>f. feature source (get_prop (sub_object (sub_object r ''opencodeV2'') ''features'') (feature_name_v2 f))
       (''opencodeV2.features.'' @ feature_name_v2 f) = Inr (v2_features cfg f)"
proof -
  from assms obtain r where r: "raw = JObj r" by (cases raw) (auto simp: parseConfig_def fail_def)
  show ?thesis
    using assms unfolding parseConfig_def r
    by (auto simp: andThen_eq_Inr dest!: object_or_empty_Inr intro!: that [OF r]
        dest: flags_of_traverse [OF _ distinct_FEATURES(1) set_FEATURES(1)]
          flags_of_traverse [OF _ distinct_FEATURES(2) set_FEATURES(2)])
qed

lemma first_difference_lex:
  "first_difference as bs = Some (a, b) \<Longrightarrow> length as = length bs \<Longrightarrow> a < b \<longleftrightarrow> (as, bs) \<in> lex {(x, y). x < y}"
  by (induction as bs rule: first_difference.induct) (auto split: if_splits)

lemma first_difference_neq: "first_difference as bs = Some (a, b) \<Longrightarrow> a \<noteq> b"
  by (induction as bs rule: first_difference.induct) (auto split: if_splits)

text \<open>The version numbers of an accepted range, most significant first.\<close>

lemma parse_versions_Inr:
  assumes "parse_versions source value = Inr (Some (mn, mx))"
  shows "rx_test semver mn \<and> rx_test semver mx \<and> version_below mn mx"
  using assms
  by (auto simp: parse_versions_def fail_def andThen_eq_Inr split: option.splits json.splits if_splits)

lemma semver_numbers:
  assumes "rx_test semver v"
  shows "length (version_numbers v) = 3"
proof -
  obtain a b c where v: "v = a @ dot # b @ dot # c" "list_all is_digit a" "list_all is_digit b" "list_all is_digit c"
    using assms unfolding rx_test_iff semver_def in_lang_seq_Cons in_lang_plus_set in_lang_seq_Nil
      in_lang_Set by auto
  have "dot \<notin> set ds" if "list_all is_digit ds" for ds
    using that by (auto simp: list_all_iff is_digit_def byte_lit)
  with v show ?thesis by (simp add: version_numbers_def split_on_append split_on_single)
qed

lemma version_below_lex:
  assumes "rx_test semver mn" "rx_test semver mx"
  shows "version_below mn mx \<longleftrightarrow> (version_numbers mn, version_numbers mx) \<in> lex {(x, y). x < y}"
proof (cases "first_difference (version_numbers mn) (version_numbers mx)")
  case None
  have "first_difference as bs = None \<Longrightarrow> length as = length bs \<Longrightarrow> as = bs" for as bs
    by (induction as bs rule: first_difference.induct) (auto split: if_splits)
  with None assms have "version_numbers mn = version_numbers mx" by (simp add: semver_numbers)
  moreover have "(as, as) \<notin> lex {(x, y). x < y}" for as :: "nat list" by (induction as) auto
  ultimately show ?thesis using None by (simp add: version_below_def)
next
  case (Some ab)
  then obtain a b where ab: "first_difference (version_numbers mn) (version_numbers mx) = Some (a, b)" 
    by (cases ab) auto
  then show ?thesis
    using first_difference_lex [OF ab] first_difference_neq [OF ab] assms
    by (auto simp: version_below_def semver_numbers)
qed

section \<open>Properties\<close>

text \<open>A configuration that is accepted has only known keys at every level, and a feature is
  off exactly when its own entry says so: a typo cannot leave a feature on, and no other entry
  can switch one off.\<close>

theorem parseConfig_flags:
  assumes "parseConfig new_URL (JObj r) source = Inr cfg"
  shows "fst ` set r \<subseteq> {''serverUrl'', ''features'', ''opencodeV2''} \<and>
    fst ` set (sub_object r ''features'') \<subseteq> feature_name ` UNIV \<and>
    fst ` set (sub_object (sub_object r ''opencodeV2'') ''features'') \<subseteq> feature_name_v2 ` UNIV \<and>
    (\<forall>f. features cfg f \<longleftrightarrow> \<not> switched_off (get_prop (sub_object r ''features'') (feature_name f))) \<and>
    (\<forall>f. v2_features cfg f \<longleftrightarrow>
       \<not> switched_off (get_prop (sub_object (sub_object r ''opencodeV2'') ''features'') (feature_name_v2 f)))"
  using assms
proof (rule parseConfig_Inr)
  fix r'
  assume r: "JObj r = JObj r'"
    and o1: "only source r' [''serverUrl'', ''features'', ''opencodeV2''] [] = Inr ()"
    and o2: "only source (sub_object r' ''features'') (map feature_name FEATURES) ''features.'' = Inr ()"
    and o3: "only source (sub_object (sub_object r' ''opencodeV2'') ''features'') (map feature_name_v2 FEATURES_V2)
       ''opencodeV2.features.'' = Inr ()"
    and f1: "\<And>f. feature source (get_prop (sub_object r' ''features'') (feature_name f)) (''features.'' @ feature_name f) =
       Inr (features cfg f)"
    and f2: "\<And>f. feature source (get_prop (sub_object (sub_object r' ''opencodeV2'') ''features'') (feature_name_v2 f))
       (''opencodeV2.features.'' @ feature_name_v2 f) = Inr (v2_features cfg f)"
  have "fst ` set r \<subseteq> {''serverUrl'', ''features'', ''opencodeV2''}"
    "fst ` set (sub_object r ''features'') \<subseteq> feature_name ` UNIV"
    "fst ` set (sub_object (sub_object r ''opencodeV2'') ''features'') \<subseteq> feature_name_v2 ` UNIV"
    using o1 o2 o3 r by (auto simp: only_Inr)
  moreover have "r' = r" using r by simp
  ultimately show ?thesis using feature_Inr [OF f1] feature_Inr [OF f2] by simp
qed

theorem parseConfig_flags_witness:
  "\<exists>cfg. parseConfig (\<lambda>_. None) (JObj [(''features'', JObj [(''shell'', JObj [(''enabled'', JBool False)])])]) ''config'' = Inr cfg \<and>
     \<not> features cfg Shell \<and> features cfg Terminal"
proof -
  let ?r = "[(''features'', JObj [(''shell'', JObj [(''enabled'', JBool False)])])]"
  have "case parseConfig (\<lambda>_. None) (JObj ?r) ''config'' of Inl _ \<Rightarrow> False | Inr cfg \<Rightarrow> True"
    by code_simp
  then obtain cfg where cfg: "parseConfig (\<lambda>_. None) (JObj ?r) ''config'' = Inr cfg"
    by (auto split: sum.splits)
  from parseConfig_flags [OF cfg] have "\<not> features cfg Shell \<and> features cfg Terminal"
    by (simp add: sub_object_def get_prop_def switched_off_def)
  with cfg show ?thesis by blast
qed

text \<open>A version range that is accepted is two MAJOR.MINOR.PATCH versions, the lower one first
  in the order of the numbers.\<close>

theorem parseConfig_versions:
  assumes "parseConfig new_URL raw source = Inr cfg" "v2_versions cfg = Some (mn, mx)"
  shows "rx_test semver mn \<and> rx_test semver mx \<and>
    (version_numbers mn, version_numbers mx) \<in> lex {(x, y). x < y}"
proof -
  from assms(1) obtain r where "parse_versions source (get_prop (sub_object r ''opencodeV2'') ''versions'') = Inr (Some (mn, mx))"
    by (rule parseConfig_Inr) (simp add: assms(2))
  from parse_versions_Inr [OF this] show ?thesis using version_below_lex by blast
qed

theorem parseConfig_versions_witness:
  "(version_numbers ''2.9.0'', version_numbers ''2.10.0'') \<in> lex {(x, y). x < y}"
proof -
  let ?raw = "JObj [(''opencodeV2'', JObj [(''versions'', JObj [(''min'', JStr ''2.9.0''), (''max'', JStr ''2.10.0'')])])]"
  have "case parseConfig (\<lambda>_. None) ?raw ''config'' of
      Inl _ \<Rightarrow> False | Inr cfg \<Rightarrow> v2_versions cfg = Some (''2.9.0'', ''2.10.0'')"
    by code_simp
  then obtain cfg where "parseConfig (\<lambda>_. None) ?raw ''config'' = Inr cfg" "v2_versions cfg = Some (''2.9.0'', ''2.10.0'')"
    by (auto split: sum.splits)
  from parseConfig_versions [OF this] show ?thesis by blast
qed

end
