(* ===== verification/Url.thy ===== *)
theory Url
  imports Encoding
begin

text \<open>
  The path part of the URL standard, as \<open>new URL(input, base).pathname\<close> computes it for an
  input that starts with one slash and a base of a special scheme: the input is trimmed, tabs and
  newlines are dropped, the path ends at \<open>?\<close> or \<open>#\<close>, a backslash separates like a
  slash, single-dot and double-dot segments (also percent-encoded) are resolved and the rest is
  percent-encoded.
\<close>

section \<open>Preparing the input\<close>

definition c0_or_space :: "char \<Rightarrow> bool" where
  "c0_or_space c \<longleftrightarrow> byte c \<le> 32"

definition tab_or_newline :: "char \<Rightarrow> bool" where
  "tab_or_newline c \<longleftrightarrow> byte c \<in> {9, 10, 13}"

definition url_strip :: "str \<Rightarrow> str" where
  "url_strip s = filter (\<lambda>c. \<not> tab_or_newline c)
     (rev (dropWhile c0_or_space (rev (dropWhile c0_or_space s))))"

lemma dropWhile_id: "s = [] \<or> \<not> P (hd s) \<Longrightarrow> dropWhile P s = s"
  by (cases s) auto

lemma url_strip_id:
  assumes "s = [] \<or> \<not> c0_or_space (hd s)" and "s = [] \<or> \<not> c0_or_space (last s)"
    and "\<forall>c \<in> set s. \<not> tab_or_newline c"
  shows "url_strip s = s"
  using assms by (simp add: url_strip_def dropWhile_id hd_rev)

section \<open>Segments\<close>

definition url_path_part :: "str \<Rightarrow> str" where
  "url_path_part s = takeWhile (\<lambda>c. c \<noteq> CHR ''?'' \<and> c \<noteq> CHR ''#'') s"

text \<open>In a special URL a backslash is a slash.\<close>

definition special_slashes :: "str \<Rightarrow> str" where
  "special_slashes s = map (\<lambda>c. if c = CHR 92 then slash else c) s"

definition is_single_dot :: "str \<Rightarrow> bool" where
  "is_single_dot seg \<longleftrightarrow> lower seg \<in> {''.'', ''%2e''}"

definition is_double_dot :: "str \<Rightarrow> bool" where
  "is_double_dot seg \<longleftrightarrow> lower seg \<in> {''..'', ''.%2e'', ''%2e.'', ''%2e%2e''}"

text \<open>
  The path state of the parser: \<open>acc\<close> is the path so far, latest segment first. A dot
  segment at the end leaves an empty last segment.
\<close>

fun resolve_segments :: "str list \<Rightarrow> str list \<Rightarrow> str list" where
  "resolve_segments acc [] = rev acc"
| "resolve_segments acc [seg] =
     (if is_double_dot seg then rev ([] # tl acc)
      else if is_single_dot seg then rev ([] # acc)
      else rev (percent_encode_path seg # acc))"
| "resolve_segments acc (seg # seg' # segs) =
     (if is_double_dot seg then resolve_segments (tl acc) (seg' # segs)
      else if is_single_dot seg then resolve_segments acc (seg' # segs)
      else resolve_segments (percent_encode_path seg # acc) (seg' # segs))"

definition serialize_path :: "str list \<Rightarrow> str" where
  "serialize_path segs = concat (map (\<lambda>seg. slash # seg) segs)"

definition url_pathname :: "str \<Rightarrow> str" where
  "url_pathname input =
     (let path = special_slashes (url_path_part (url_strip input))
      in serialize_path (resolve_segments [] (split_on slash (drop 1 path))))"

lemma serialize_path_Nil [simp]: "serialize_path [] = []"
  by (simp add: serialize_path_def)

lemma serialize_path_Cons [simp]: "serialize_path (s # ss) = slash # s @ serialize_path ss"
  by (simp add: serialize_path_def)

lemma serialize_path_append [simp]: "serialize_path (a @ b) = serialize_path a @ serialize_path b"
  by (simp add: serialize_path_def)

lemma serialize_path_join: "ss \<noteq> [] \<Longrightarrow> serialize_path ss = slash # join [slash] ss"
  by (induction "[slash]" ss rule: join.induct) auto

section \<open>Resolving before encoding\<close>

text \<open>
  Encoding commutes with resolving: the resolved path is the encoding of the resolved raw
  segments, so facts about dot segments need not look at the encoding.
\<close>

fun resolve_raw :: "str list \<Rightarrow> str list \<Rightarrow> str list" where
  "resolve_raw acc [] = rev acc"
| "resolve_raw acc [seg] =
     (if is_double_dot seg then rev ([] # tl acc)
      else if is_single_dot seg then rev ([] # acc)
      else rev (seg # acc))"
| "resolve_raw acc (seg # seg' # segs) =
     (if is_double_dot seg then resolve_raw (tl acc) (seg' # segs)
      else if is_single_dot seg then resolve_raw acc (seg' # segs)
      else resolve_raw (seg # acc) (seg' # segs))"

lemma resolve_segments_raw:
  "resolve_segments (map percent_encode_path acc) segs =
   map percent_encode_path (resolve_raw acc segs)"
proof (induction acc segs rule: resolve_raw.induct)
  case (3 acc seg seg' segs)
  then show ?case by (auto simp flip: map_tl list.map(2))
qed (auto simp: rev_map simp flip: map_tl)

definition dot_segment :: "str \<Rightarrow> bool" where
  "dot_segment seg \<longleftrightarrow> is_single_dot seg \<or> is_double_dot seg"

lemma not_dot_segment_Nil [simp]: "\<not> dot_segment []"
  by (simp add: dot_segment_def is_single_dot_def is_double_dot_def)

lemma in_set_tl: "x \<in> set (tl xs) \<Longrightarrow> x \<in> set xs"
  by (cases xs) auto

lemma resolve_raw_no_dots:
  "\<forall>a \<in> set acc. \<not> dot_segment a \<Longrightarrow> x \<in> set (resolve_raw acc segs) \<Longrightarrow> \<not> dot_segment x"
proof (induction acc segs rule: resolve_raw.induct)
  case (1 acc)
  then show ?case by simp
next
  case (2 acc seg)
  then have "x \<in> set acc \<or> x = [] \<or> x = seg \<and> \<not> is_double_dot seg \<and> \<not> is_single_dot seg"
    by (auto split: if_splits dest: in_set_tl)
  then show ?case using 2 unfolding dot_segment_def by (metis dot_segment_def not_dot_segment_Nil)
next
  case (3 acc seg seg' segs)
  then show ?case by (simp add: dot_segment_def split: if_splits) (metis in_set_tl)+
qed

lemma resolve_raw_set:
  "x \<in> set (resolve_raw acc segs) \<Longrightarrow> x = [] \<or> x \<in> set acc \<or> x \<in> set segs"
  by (induction acc segs rule: resolve_raw.induct) (auto split: if_splits dest: in_set_tl)

lemma resolve_raw_not_Nil: "segs \<noteq> [] \<Longrightarrow> resolve_raw acc segs \<noteq> []"
  by (induction acc segs rule: resolve_raw.induct) auto

lemma resolve_raw_last:
  "segs \<noteq> [] \<Longrightarrow> last (resolve_raw acc segs) = [] \<or> last (resolve_raw acc segs) = last segs"
  by (induction acc segs rule: resolve_raw.induct) auto

lemma resolve_raw_id:
  "\<forall>s \<in> set segs. \<not> dot_segment s \<Longrightarrow> resolve_raw acc segs = rev acc @ segs"
  by (induction acc segs rule: resolve_raw.induct) (auto simp: dot_segment_def)

section \<open>Slashes and encoding\<close>

lemma slash_not_encoded [simp]: "\<not> path_encoded slash"
  by (simp add: path_encoded_def byte_def)

lemma upper_hex_not_slash [simp]: "n < 16 \<Longrightarrow> upper_hex n \<noteq> slash"
proof
  assume n: "n < 16" and "upper_hex n = slash"
  then have "hex_value slash = Some n" by (metis hex_value_upper_hex)
  then show False by (simp add: hex_value_def byte_def)
qed

lemma byte_div_16 [simp]: "byte c div 16 < 16"
  using byte_less [of c] by (simp add: less_mult_imp_div_less del: byte_less)

lemma percent_encode_char_no_slash: "slash \<notin> set (percent_encode_char c)"
  using upper_hex_not_slash [of "byte c div 16"] upper_hex_not_slash [of "byte c mod 16"]
  by (auto simp: percent_encode_char_def dest: sym)

lemma collapse_slashes_append:
  "slash \<notin> set a \<Longrightarrow> collapse_slashes (a @ s) = a @ collapse_slashes s"
proof (induction a)
  case (Cons c a)
  then have "a @ s \<noteq> [] \<Longrightarrow> collapse_slashes (c # (a @ s)) = c # collapse_slashes (a @ s)"
    by (cases "a @ s") auto
  with Cons show ?case by (cases "a @ s") auto
qed simp

lemma collapse_slashes_Cons:
  "collapse_slashes (c # s) =
     (if c = slash \<and> s \<noteq> [] \<and> hd s = slash then collapse_slashes s else c # collapse_slashes s)"
  by (cases s) auto

lemma percent_encode_path_hd: "percent_encode_path s \<noteq> [] \<and> hd (percent_encode_path s) = slash \<longleftrightarrow>
   s \<noteq> [] \<and> hd s = slash"
  by (cases s) (auto simp: percent_encode_char_def)

lemma percent_encode_path_collapse:
  "percent_encode_path (collapse_slashes s) = collapse_slashes (percent_encode_path s)"
proof (induction s)
  case (Cons c s)
  show ?case
  proof (cases "path_encoded c")
    case True
    then have "c \<noteq> slash" by auto
    with True Cons show ?thesis
      by (simp add: collapse_slashes_Cons [of c] collapse_slashes_append percent_encode_char_no_slash)
  next
    case False
    with Cons show ?thesis
      using percent_encode_path_hd [of s] by (auto simp: collapse_slashes_Cons)
  qed
qed simp

lemma serialize_path_encode:
  "serialize_path (map percent_encode_path ss) = percent_encode_path (serialize_path ss)"
  by (induction ss) auto

lemma percent_encode_path_no_slash: "slash \<notin> set s \<Longrightarrow> slash \<notin> set (percent_encode_path s)"
  using percent_encode_char_no_slash by (auto simp: percent_encode_path_def split: if_splits)

section \<open>Segments of a collapsed path\<close>

lemma hd_split_on_collapse: "hd (split_on slash (collapse_slashes s)) = hd (split_on slash s)"
proof (induction s rule: collapse_slashes.induct)
  case (3 x y zs)
  obtain u us v vs where "split_on slash (collapse_slashes (y # zs)) = u # us"
    "split_on slash (y # zs) = v # vs"
    by (metis neq_Nil_conv split_on_not_Nil)
  with 3 show ?case by (auto split: list.splits)
qed auto

lemma tl_split_on_collapse_subset:
  "set (tl (split_on slash (collapse_slashes s))) \<subseteq> set (tl (split_on slash s))"
proof (induction s rule: collapse_slashes.induct)
  case (3 x y zs)
  obtain u us vs where uv: "split_on slash (collapse_slashes (y # zs)) = u # us"
    "split_on slash (y # zs) = u # vs"
    by (metis hd_split_on_collapse list.collapse split_on_not_Nil)
  have step: "split_on slash (x # t) = (if x = slash then [] # split_on slash t
     else case split_on slash t of [] \<Rightarrow> [[x]] | w # ws \<Rightarrow> (x # w) # ws)" for t by simp
  show ?case
  proof (cases "x = slash \<and> y = slash")
    case True
    then have "collapse_slashes (x # y # zs) = collapse_slashes (y # zs)" by simp
    with 3(1) True show ?thesis
      unfolding step [of "y # zs"] using list.set_sel(2) [of "split_on slash (y # zs)"] by fastforce
  next
    case False
    then have IH: "set us \<subseteq> set vs" using 3(2) uv by auto
    have eq: "collapse_slashes (x # y # zs) = x # collapse_slashes (y # zs)" using False by simp
    show ?thesis
      unfolding eq step [of "collapse_slashes (y # zs)"] step [of "y # zs"] uv
      using IH by auto
  qed
qed auto

lemma split_on_collapse_subset:
  "set (split_on slash (collapse_slashes s)) \<subseteq> set (split_on slash s)"
  using tl_split_on_collapse_subset [of s] hd_split_on_collapse [of s]
  by (cases "split_on slash (collapse_slashes s)"; cases "split_on slash s") auto

lemma last_split_on_collapse: "last (split_on slash (collapse_slashes s)) = last (split_on slash s)"
proof (induction s rule: collapse_slashes.induct)
  case (3 x y zs)
  obtain u us vs where uv: "split_on slash (collapse_slashes (y # zs)) = u # us"
    "split_on slash (y # zs) = u # vs"
    by (metis hd_split_on_collapse list.collapse split_on_not_Nil)
  have step: "split_on slash (x # t) = (if x = slash then [] # split_on slash t
     else case split_on slash t of [] \<Rightarrow> [[x]] | w # ws \<Rightarrow> (x # w) # ws)" for t by simp
  show ?case
  proof (cases "x = slash \<and> y = slash")
    case True
    with 3(1) show ?thesis unfolding step [of "y # zs"] by simp
  next
    case False
    then have IH: "last (u # us) = last (u # vs)" using 3(2) uv by auto
    have eq: "collapse_slashes (x # y # zs) = x # collapse_slashes (y # zs)" using False by simp
    have ne: "us = [] \<longleftrightarrow> vs = []"
    proof -
      have "slash \<in> set (collapse_slashes (y # zs)) \<longleftrightarrow> slash \<in> set (y # zs)" by (simp only: set_collapse)
      moreover have "us = [] \<longleftrightarrow> slash \<notin> set (collapse_slashes (y # zs))"
        using uv(1) split_on_eq_single [of slash "collapse_slashes (y # zs)" u]
          split_on_single [of slash "collapse_slashes (y # zs)"] by auto
      moreover have "vs = [] \<longleftrightarrow> slash \<notin> set (y # zs)"
        using uv(2) split_on_eq_single [of slash "y # zs" u]
          split_on_single [of slash "y # zs"] by auto
      ultimately show ?thesis by blast
    qed
    show ?thesis
      unfolding eq step [of "collapse_slashes (y # zs)"] step [of "y # zs"] uv
      using IH ne by (auto split: if_splits)
  qed
qed auto

end
