(* ===== verification/ProxyPath.thy ===== *)
theory ProxyPath
  imports Url
begin

text \<open>
  How the API reads the path of a proxied request (\<open>api/src/proxy.ts\<close>,
  \<open>api/src/feature-guards.ts\<close>): \<open>proxyRest\<close> takes the part after the session,
  \<open>canonicalPath\<close> is the reading the guards match against, \<open>isPlainPath\<close> is what a
  writing request must satisfy. The lemmas show that a canonical path is canonical again (a
  further decode and parse by a later hop reads it the same way) and that a plain path is read as
  itself.
\<close>

definition proxyRest :: "str \<Rightarrow> str \<Rightarrow> str" where
  "proxyRest path sessionId =
     (let rest = collapse_slashes (js_drop (js_length (''/proxy/'' @ sessionId)) path)
      in if startsWith rest ''/'' then rest else ''/'' @ rest)"

section \<open>canonicalPath\<close>

text \<open>
  The first test, \<open>/%(2f|5c|3f|23|3b|2e|25|[01][0-9a-f]|7f)/i\<close>, anywhere in the path.
\<close>

definition structural_escape :: "char \<Rightarrow> char \<Rightarrow> bool" where
  "structural_escape a b \<longleftrightarrow>
     [lower_char a, lower_char b] \<in> {''2f'', ''5c'', ''3f'', ''23'', ''3b'', ''2e'', ''25'', ''7f''} \<or>
     (a = CHR ''0'' \<or> a = CHR ''1'') \<and> hex_value b \<noteq> None"

fun has_structural_escape :: "str \<Rightarrow> bool" where
  "has_structural_escape [] = False"
| "has_structural_escape (c # cs) =
     ((case cs of a # b # _ \<Rightarrow> c = percent \<and> structural_escape a b | _ \<Rightarrow> False) \<or>
      has_structural_escape cs)"

text \<open>\<open>/[?#;\\\x00-\x1f\x7f]/\<close>.\<close>

definition splitting_char :: "char \<Rightarrow> bool" where
  "splitting_char c \<longleftrightarrow>
     c \<in> {CHR ''?'', CHR ''#'', CHR '';'', CHR 92} \<or> byte c < 32 \<or> byte c = 127"

lemma splitting_char_byte:
  "splitting_char c \<longleftrightarrow> byte c \<in> {63, 35, 59, 92, 127} \<or> byte c < 32"
  unfolding splitting_char_def insert_iff empty_iff byte_inject [symmetric]
  by (auto simp add: byte_lit)

text \<open>\<open>seg !== seg.trim() && /^\.+$/.test(seg.trim())\<close>.\<close>

definition spaced_dots :: "str \<Rightarrow> bool" where
  "spaced_dots seg \<longleftrightarrow>
     seg \<noteq> trim seg \<and> trim seg \<noteq> [] \<and> list_all (\<lambda>c. c = dot) (trim seg)"

definition canonicalPath :: "str \<Rightarrow> str option" where
  "canonicalPath path =
     (if has_structural_escape path then None
      else case decodeURIComponent path of
        None \<Rightarrow> None
      | Some p \<Rightarrow>
          if list_ex splitting_char p then None
          else if ends_space p \<or> list_ex spaced_dots (split_on slash p) then None
          else
            let p' = collapse_slashes (''/'' @ p)
            in Some (lower (collapse_slashes (url_pathname p'))))"

section \<open>Plain paths\<close>

text \<open>\<open>PLAIN_PATH = /^[A-Za-z0-9/_.~-]*$/\<close>.\<close>

definition plain_char :: "char \<Rightarrow> bool" where
  "plain_char c \<longleftrightarrow>
     (65 \<le> byte c \<and> byte c \<le> 90) \<or> (97 \<le> byte c \<and> byte c \<le> 122) \<or>
     (48 \<le> byte c \<and> byte c \<le> 57) \<or>
     c \<in> {CHR ''/'', CHR ''_'', CHR ''.'', CHR ''~'', CHR ''-''}"

definition isPlainPath :: "str \<Rightarrow> bool" where
  "isPlainPath path \<longleftrightarrow>
     list_all plain_char path \<and>
     \<not> list_ex (\<lambda>seg. seg = ''.'' \<or> seg = ''..'') (split_on slash path)"

section \<open>White space and lower-casing\<close>

text \<open>Bytes no letter lower-cases to or from: the encodings of white space, dots.\<close>

definition caseless :: "char \<Rightarrow> bool" where
  "caseless c \<longleftrightarrow> (byte c < 65 \<or> 90 < byte c) \<and> (byte c < 97 \<or> 122 < byte c)"

lemma caseless_lower: "caseless c \<Longrightarrow> lower_char d = c \<longleftrightarrow> d = c"
  by (rule lower_char_eq_iff) (auto simp: caseless_def)

lemma lower_eq_caseless: "\<forall>c \<in> set w. caseless c \<Longrightarrow> lower s = w \<longleftrightarrow> s = w"
proof (induction w arbitrary: s)
  case (Cons c w)
  then show ?case by (cases s) (auto simp: caseless_lower)
qed auto

lemma startsWith_lower:
  "\<forall>c \<in> set w. caseless c \<Longrightarrow> startsWith (lower s) w \<longleftrightarrow> startsWith s w"
proof (induction w arbitrary: s)
  case (Cons c w)
  then show ?case by (cases s) (auto simp: caseless_lower)
qed simp

lemma js_space_caseless: "w \<in> set js_space \<Longrightarrow> c \<in> set w \<Longrightarrow> caseless c"
  by (auto simp: js_space_def caseless_def)

lemma js_space_no_slash: "w \<in> set js_space \<Longrightarrow> slash \<notin> set w"
  by (auto simp: js_space_def dest!: arg_cong [where f = byte]) (auto simp: byte_def)

lemma rev_lower: "rev (lower s) = lower (rev s)"
  by (simp add: lower_def rev_map)

lemma drop_lower: "drop n (lower s) = lower (drop n s)"
  by (simp add: lower_def drop_map)

lemma space_prefix_lower:
  "\<forall>w \<in> set ws. \<forall>c \<in> set w. caseless c \<Longrightarrow> space_prefix ws (lower s) = space_prefix ws s"
  by (induction ws) (auto simp: space_prefix_def startsWith_lower)

lemma drop_spaces_lower:
  "\<forall>w \<in> set ws. \<forall>c \<in> set w. caseless c \<Longrightarrow> drop_spaces ws (lower s) = lower (drop_spaces ws s)"
proof (induction ws s rule: drop_spaces.induct)
  case (1 ws s)
  show ?case
    by (subst (1 2) drop_spaces.simps)
      (use 1 in \<open>auto simp: Let_def space_prefix_lower drop_lower\<close>)
qed

lemma trim_lower: "trim (lower s) = lower (trim s)"
  using js_space_caseless
  by (simp add: trim_def trim_start_def trim_end_def drop_spaces_lower rev_lower)

lemma ends_space_lower: "ends_space (lower s) = ends_space s"
proof -
  have "endsWith (lower s) w \<longleftrightarrow> endsWith s w" if "w \<in> set js_space" for w
    using that js_space_caseless startsWith_lower [of "rev w" "rev s"]
    by (simp add: rev_lower startsWith_rev flip: rev_lower)
  then show ?thesis by (simp add: ends_space_def list_ex_iff)
qed

lemma spaced_dots_lower: "spaced_dots (lower s) = spaced_dots s"
proof -
  have "list_all (\<lambda>c. c = dot) (lower t) = list_all (\<lambda>c. c = dot) t" for t
    by (induction t) (auto simp: caseless_lower caseless_def byte_def)
  moreover have "lower s = lower (trim s) \<longleftrightarrow> s = trim s"
    using trim_shorter [of s] by (metis length_lower)
  ultimately show ?thesis by (simp add: spaced_dots_def trim_lower)
qed

section \<open>What the escapes decode to\<close>

lemma structural_escape_value:
  assumes "structural_escape a b" "hex_value a = Some x" "hex_value b = Some y"
  shows "splitting_char (char_of (16 * x + y)) \<or> char_of (16 * x + y) \<in> {slash, dot, percent}"
proof -
  have l: "hex_value (lower_char a) = Some x" "hex_value (lower_char b) = Some y"
    using assms by simp_all
  from assms(1) consider
      "lower_char a = CHR ''2'' \<and> lower_char b = CHR ''f''"
    | "lower_char a = CHR ''5'' \<and> lower_char b = CHR ''c''"
    | "lower_char a = CHR ''3'' \<and> lower_char b = CHR ''f''"
    | "lower_char a = CHR ''2'' \<and> lower_char b = CHR ''3''"
    | "lower_char a = CHR ''3'' \<and> lower_char b = CHR ''b''"
    | "lower_char a = CHR ''2'' \<and> lower_char b = CHR ''e''"
    | "lower_char a = CHR ''2'' \<and> lower_char b = CHR ''5''"
    | "lower_char a = CHR ''7'' \<and> lower_char b = CHR ''f''"
    | "a = CHR ''0'' \<or> a = CHR ''1''"
    by (auto simp: structural_escape_def)
  then show ?thesis
  proof cases
    case 9
    then have "x < 2" using assms(2) by (auto simp: hex_value_def byte_def)
    moreover have "y < 16" using assms(3) by (auto simp: hex_value_def split: if_splits)
    ultimately show ?thesis by (simp add: splitting_char_def)
  qed (use l in \<open>auto simp: hex_value_def byte_def splitting_char_def char_of_eq_byte\<close>)
qed

lemma has_structural_escape_append: "has_structural_escape s \<Longrightarrow> has_structural_escape (a @ s)"
  by (induction a) auto

lemma structural_percent:
  assumes "hex_value a = Some x" "hex_value b = Some y" "char_of (16 * x + y) = percent"
  shows "structural_escape a b"
proof -
  have xy: "x < 16" "y < 16" using assms(1,2) by (auto simp: hex_value_def split: if_splits)
  have "byte (char_of (16 * x + y)) = 37" using assms(3) by (simp add: byte_percent)
  with xy have "16 * x + y = 37" by simp
  with xy have "x = 2 \<and> y = 5" by presburger
  then have "x = 2" "y = 5" by auto
  with assms(1,2) have "byte a = 50" "byte b = 53" by (auto simp: hex_value_def split: if_splits)
  then have "a = char_of (50::nat)" "b = char_of (53::nat)" by (metis char_of_byte)+
  then show ?thesis by (simp add: structural_escape_def lower_char_def char_of_eq_byte byte_def)
qed

lemma take_escape_not_percent:
  assumes "take_escape s = Some (b, r)" "\<not> has_structural_escape s"
  shows "b \<noteq> percent \<and> \<not> has_structural_escape r"
  using assms structural_percent
  by (cases s rule: take_escape.cases) (auto split: if_splits option.splits)

lemma take_escapes_suffix: "take_escapes n s = Some (bs, r) \<Longrightarrow> \<exists>a. s = a @ r"
proof (induction n arbitrary: s bs)
  case (Suc n)
  then obtain b r1 bs1 where 1: "take_escape s = Some (b, r1)" "take_escapes n r1 = Some (bs1, r)"
    by (auto split: option.splits)
  then obtain a where "r1 = a @ r" using Suc.IH by blast
  moreover from 1(1) obtain a' where "s = a' @ r1"
    by (cases s rule: take_escape.cases) (auto split: if_splits option.splits)
  ultimately show ?case by (metis append_assoc)
qed simp

text \<open>With the structural escapes ruled out, no percent sign is left after the decode.\<close>

lemma decode_no_percent:
  "decodeURIComponent s = Some t \<Longrightarrow> \<not> has_structural_escape s \<Longrightarrow> percent \<notin> set t"
proof (induction s arbitrary: t rule: decodeURIComponent.induct)
  case (2 c cs)
  show ?case
  proof (cases "c = percent")
    case False
    with 2 show ?thesis by (auto)
  next
    case True
    with "2.prems"(1) obtain b r n bs r' u where
      d: "take_escape (c # cs) = Some (b, r)" "utf8_extra b = Some n"
        "take_escapes n r = Some (bs, r')" "utf8_tail_ok b bs"
        "decodeURIComponent r' = Some u" "t = b # bs @ u"
      by (auto simp: decodeURIComponent.simps split: option.splits if_splits)
    have nb: "b \<noteq> percent" "\<not> has_structural_escape r"
      using take_escape_not_percent [OF d(1) "2.prems"(2)] by auto
    then have "\<not> has_structural_escape r'"
      using take_escapes_suffix [OF d(3)] has_structural_escape_append by blast
    then have "percent \<notin> set u" using 2(2) True d by auto
    moreover have "percent \<notin> set bs"
      using utf8_tail_ok_high [OF d(4)] by (fastforce simp: byte_def)
    ultimately show ?thesis using d(6) nb(1) by auto
  qed
qed simp

section \<open>The path before encoding\<close>

text \<open>A decoded path that passes the checks of canonicalPath.\<close>

definition clean_path :: "str \<Rightarrow> bool" where
  "clean_path p \<longleftrightarrow> \<not> list_ex splitting_char p \<and> \<not> ends_space p \<and>
     \<not> list_ex spaced_dots (split_on slash p)"

definition raw_path :: "str \<Rightarrow> str" where
  "raw_path p = collapse_slashes
     (serialize_path (resolve_raw [] (split_on slash (drop 1 (collapse_slashes (slash # p))))))"

lemma canonicalPath_alt:
  "canonicalPath r = Some q \<longleftrightarrow>
     \<not> has_structural_escape r \<and>
     (\<exists>p. decodeURIComponent r = Some p \<and> clean_path p \<and>
       q = lower (collapse_slashes (url_pathname (collapse_slashes (slash # p)))))"
  by (auto simp: canonicalPath_def clean_path_def Let_def split: option.splits if_splits)

lemma clean_path_last:
  assumes "clean_path p" and "p \<noteq> []"
  shows "\<not> c0_or_space (last p)"
proof
  assume c: "c0_or_space (last p)"
  from assms have "\<not> splitting_char (last p)" by (auto simp: clean_path_def list_ex_iff)
  with c have "byte (last p) = 32" by (auto simp: c0_or_space_def splitting_char_def)
  then have "last p = char_of (32::nat)" by (metis char_of_byte)
  with assms(2) have "endsWith p [char_of (32::nat)]" by (simp add: endsWith_single)
  then have "ends_space p" by (simp add: ends_space_def js_space_def)
  with assms(1) show False by (simp add: clean_path_def)
qed

lemma url_pathname_clean:
  assumes "clean_path p"
  shows "collapse_slashes (url_pathname (collapse_slashes (slash # p))) = percent_encode_path (raw_path p)"
proof -
  let ?q = "collapse_slashes (slash # p)"
  have q: "?q \<noteq> []" "hd ?q = slash" "last ?q = last (slash # p)"
    by (simp_all del: collapse_slashes.simps)
  have chars: "c = slash \<or> \<not> splitting_char c" if "c \<in> set ?q" for c
    using that assms by (auto simp: clean_path_def list_ex_iff simp del: collapse_slashes.simps)
  have "\<not> c0_or_space (last (slash # p))"
    using clean_path_last [OF assms] by (auto simp: c0_or_space_def byte_def)
  moreover have "\<forall>c \<in> set ?q. \<not> tab_or_newline c"
    using chars by (fastforce simp: splitting_char_def tab_or_newline_def byte_def)
  ultimately have "url_strip ?q = ?q"
    using q by (intro url_strip_id) (auto simp: c0_or_space_def byte_def)
  moreover have "url_path_part ?q = ?q"
    unfolding url_path_part_def takeWhile_eq_all_conv
    using chars by (fastforce simp: splitting_char_def)
  moreover have "special_slashes ?q = ?q"
    unfolding special_slashes_def
    using chars by (intro map_idI) (fastforce simp: splitting_char_def)
  ultimately have "url_pathname ?q = serialize_path (resolve_segments [] (split_on slash (drop 1 ?q)))"
    by (simp add: url_pathname_def Let_def)
  also have "\<dots> = percent_encode_path (serialize_path (resolve_raw [] (split_on slash (drop 1 ?q))))"
    using resolve_segments_raw [of "[]"] by (simp add: serialize_path_encode)
  finally show ?thesis by (simp add: raw_path_def percent_encode_path_collapse)
qed

lemma canonicalPath_raw:
  "canonicalPath r = Some q \<longleftrightarrow>
     \<not> has_structural_escape r \<and>
     (\<exists>p. decodeURIComponent r = Some p \<and> clean_path p \<and> q = lower (percent_encode_path (raw_path p)))"
  using url_pathname_clean by (auto simp: canonicalPath_alt)

section \<open>The canonical path is stable\<close>

lemma split_on_last: "\<exists>a. s = a @ slash # last (split_on slash s) \<or> s = last (split_on slash s)"
proof -
  let ?ss = "split_on slash s"
  have ss: "?ss = butlast ?ss @ [last ?ss]" by simp
  show ?thesis
  proof (cases "butlast ?ss = []")
    case True
    then have "join [slash] ?ss = last ?ss" using ss by (metis append_Nil join.simps(2))
    then show ?thesis by (simp add: join_split_on)
  next
    case False
    then have "join [slash] ?ss = join [slash] (butlast ?ss) @ slash # last ?ss"
      using ss join_snoc [of "butlast ?ss"] by metis
    then show ?thesis by (auto simp: join_split_on)
  qed
qed

lemma endsWith_slash_append: "slash \<notin> set w \<Longrightarrow> endsWith (a @ slash # l) w \<longleftrightarrow> endsWith l w"
  by (auto simp: endsWith_iff append_eq_append_conv2 append_eq_Cons_conv Cons_eq_append_conv)

lemma ends_space_last_segment: "ends_space s = ends_space (last (split_on slash s))"
proof -
  obtain a where "s = a @ slash # last (split_on slash s) \<or> s = last (split_on slash s)"
    using split_on_last by blast
  moreover have "endsWith (a @ slash # l) w \<longleftrightarrow> endsWith l w" if "w \<in> set js_space" for l w
    using that js_space_no_slash endsWith_slash_append by blast
  ultimately show ?thesis by (metis (no_types, lifting) ends_space_def list_ex_iff)
qed

lemma not_ends_space_Nil [simp]: "\<not> ends_space []"
  using js_space_nonempty by (auto simp: ends_space_def list_ex_iff endsWith_iff)

lemma not_spaced_dots_Nil [simp]: "\<not> spaced_dots []"
  using trim_shorter [of "[]"] by (auto simp: spaced_dots_def)

lemma split_on_serialize:
  "\<forall>x \<in> set ss. slash \<notin> set x \<Longrightarrow> ss \<noteq> [] \<Longrightarrow> split_on slash (serialize_path ss) = [] # ss"
  by (simp add: serialize_path_join split_on_join)

text \<open>The segments of the decoded path, and those of its raw path.\<close>

lemma collapse_slash_Cons: "\<exists>t. collapse_slashes (slash # p) = slash # t"
proof -
  have "collapse_slashes (slash # p) \<noteq> []" "hd (collapse_slashes (slash # p)) = slash"
    by (simp_all del: collapse_slashes.simps)
  then show ?thesis by (metis list.collapse)
qed

lemma raw_path_props:
  defines "segs p \<equiv> resolve_raw [] (split_on slash (drop 1 (collapse_slashes (slash # p))))"
  shows "x \<in> set (segs p) \<Longrightarrow> x = [] \<or> x \<in> set (split_on slash p)"
    and "x \<in> set (segs p) \<Longrightarrow> \<not> dot_segment x"
    and "last (segs p) = [] \<or> last (segs p) = last (split_on slash p)"
    and "segs p \<noteq> []"
    and "x \<in> set (segs p) \<Longrightarrow> slash \<notin> set x"
proof -
  obtain t where t: "collapse_slashes (slash # p) = slash # t" using collapse_slash_Cons by blast
  have sub: "set (split_on slash t) \<subseteq> {[]} \<union> set (split_on slash p)"
    using split_on_collapse_subset [of "slash # p"] by (auto simp: t)
  have lst: "last (split_on slash t) = last (split_on slash p)"
    using last_split_on_collapse [of "slash # p"] by (simp add: t)
  have seg: "segs p = resolve_raw [] (split_on slash t)" by (simp add: segs_def t)
  show 1: "x = [] \<or> x \<in> set (split_on slash p)" if "x \<in> set (segs p)"
    using resolve_raw_set [of x "[]" "split_on slash t"] that sub by (auto simp: seg)
  show "\<not> dot_segment x" if "x \<in> set (segs p)"
    using resolve_raw_no_dots [of "[]" x] that by (auto simp: seg)
  show "last (segs p) = [] \<or> last (segs p) = last (split_on slash p)"
    using resolve_raw_last [of "split_on slash t" "[]"] lst by (simp add: seg)
  show "segs p \<noteq> []" by (simp add: seg resolve_raw_not_Nil)
  show "slash \<notin> set x" if "x \<in> set (segs p)" using 1 [OF that] split_on_set by fastforce
qed

lemma raw_path_segments:
  assumes "x \<in> set (split_on slash (raw_path p))"
  shows "(x = [] \<or> x \<in> set (split_on slash p)) \<and> \<not> dot_segment x"
proof -
  have "x \<in> set (split_on slash (serialize_path
      (resolve_raw [] (split_on slash (drop 1 (collapse_slashes (slash # p)))))))"
    using assms split_on_collapse_subset unfolding raw_path_def by blast
  then have "x \<in> set ([] # resolve_raw [] (split_on slash (drop 1 (collapse_slashes (slash # p)))))"
    using raw_path_props(4) [of p] raw_path_props(5) [of _ p] by (subst (asm) split_on_serialize) auto
  then show ?thesis using raw_path_props(1,2) [of x p] by auto
qed

lemma raw_path_last: "last (split_on slash (raw_path p)) = [] \<or>
    last (split_on slash (raw_path p)) = last (split_on slash p)"
proof -
  have "split_on slash (serialize_path
      (resolve_raw [] (split_on slash (drop 1 (collapse_slashes (slash # p)))))) =
    [] # resolve_raw [] (split_on slash (drop 1 (collapse_slashes (slash # p))))"
    using raw_path_props(4) [of p] raw_path_props(5) [of _ p] by (intro split_on_serialize) auto
  then show ?thesis
    using raw_path_props(3,4) [of p] unfolding raw_path_def last_split_on_collapse by simp
qed

lemma raw_path_shape: "\<exists>t. raw_path p = slash # t" "single_slashes (raw_path p)"
proof -
  let ?ss = "resolve_raw [] (split_on slash (drop 1 (collapse_slashes (slash # p))))"
  obtain x xs where "?ss = x # xs" by (metis raw_path_props(4) list.exhaust)
  then show "\<exists>t. raw_path p = slash # t"
    unfolding raw_path_def using collapse_slash_Cons by (metis serialize_path_Cons)
  show "single_slashes (raw_path p)" by (simp add: raw_path_def)
qed

lemma set_raw_path: "set (raw_path p) \<subseteq> insert slash (set p)"
proof
  fix c
  assume "c \<in> set (raw_path p)"
  then consider "c = slash" | x where "c \<in> set x" "x \<in> set (split_on slash (raw_path p))"
    by (metis (no_types, lifting) UnE join_split_on join_set_cases)
  then show "c \<in> insert slash (set p)"
  proof cases
    case 2
    then have "x \<in> set (split_on slash p)" using raw_path_segments [of x p] by auto
    with 2 split_on_set show ?thesis by blast
  qed simp
qed

lemma utf8_valid_segments:
  "utf8_valid s \<longleftrightarrow> (\<forall>x \<in> set (split_on slash s). utf8_valid x)"
proof (induction s rule: measure_induct_rule [where f = length])
  case (less s)
  obtain a where "s = a @ slash # drop (Suc (length a)) s \<and> slash \<notin> set a \<or> slash \<notin> set s"
    using split_list_first [of slash s] by fastforce
  then show ?case
  proof
    assume a: "s = a @ slash # drop (Suc (length a)) s \<and> slash \<notin> set a"
    let ?d = "drop (Suc (length a)) s"
    have "length ?d < length s" using a by (metis add_Suc_right length_append length_drop
        less_add_Suc1 diff_less length_Cons zero_less_Suc)
    then have "utf8_valid ?d \<longleftrightarrow> (\<forall>x \<in> set (split_on slash ?d). utf8_valid x)" by (rule less)
    moreover have "utf8_valid s \<longleftrightarrow> utf8_valid a \<and> utf8_valid ?d"
      using a utf8_valid_split [of slash a ?d] by (simp add: byte_def)
    moreover have "split_on slash s = a # split_on slash ?d"
      using a split_on_append [of slash a ?d] by simp
    ultimately show ?thesis by simp
  qed (simp add: split_on_single)
qed

lemma utf8_valid_raw_path: "utf8_valid p \<Longrightarrow> utf8_valid (raw_path p)"
  using raw_path_segments [of _ p] utf8_valid_segments [of p] utf8_valid_segments [of "raw_path p"]
  by fastforce

lemma percent_encode_path_lower: "lower (percent_encode_path (lower s)) = lower (percent_encode_path s)"
  by (induction s) (auto simp: path_encoded_lower_id)

text \<open>A collapsed path without dot segments is its own raw path.\<close>

lemma raw_path_id:
  assumes "single_slashes (slash # t)" "\<forall>x \<in> set (split_on slash t). \<not> dot_segment x"
  shows "raw_path (slash # t) = slash # t"
proof -
  have "collapse_slashes (slash # slash # t) = slash # t"
    using assms(1) by (simp add: collapse_slashes_id)
  then show ?thesis
    using assms by (simp add: raw_path_def resolve_raw_id serialize_path_join join_split_on collapse_slashes_id)
qed

lemma split_on_slash_lower: "split_on slash (lower s) = map lower (split_on slash s)"
  by (induction s) (auto split: list.splits)

lemma splitting_char_lower [simp]: "splitting_char (lower_char c) = splitting_char c"
  by (auto simp: splitting_char_byte byte_lower_char)

lemma dot_segment_lower [simp]: "dot_segment (lower s) = dot_segment s"
  by (simp add: dot_segment_def is_single_dot_def is_double_dot_def)

lemma clean_path_lower: "clean_path (lower s) = clean_path s"
proof -
  have "list_ex splitting_char (lower s) = list_ex splitting_char s" by (induction s) auto
  moreover have "list_ex spaced_dots (map lower ss) = list_ex spaced_dots ss" for ss
    by (induction ss) (auto simp: spaced_dots_lower)
  ultimately show ?thesis
    by (simp add: clean_path_def ends_space_lower split_on_slash_lower)
qed

lemma clean_raw_path:
  assumes "clean_path p"
  shows "clean_path (raw_path p)"
proof -
  have "\<not> list_ex splitting_char (raw_path p)"
    using assms set_raw_path [of p] by (fastforce simp: clean_path_def list_ex_iff splitting_char_def byte_def)
  moreover have "\<not> ends_space (raw_path p)"
    using assms raw_path_last [of p] ends_space_last_segment [of p] ends_space_last_segment [of "raw_path p"]
    by (auto simp: clean_path_def)
  moreover have "\<not> list_ex spaced_dots (split_on slash (raw_path p))"
    using assms raw_path_segments [of _ p] by (fastforce simp: clean_path_def list_ex_iff)
  ultimately show ?thesis by (simp add: clean_path_def)
qed

lemma raw_path_lower:
  assumes "clean_path p"
  shows "raw_path (lower (raw_path p)) = lower (raw_path p)"
proof -
  obtain t where t: "raw_path p = slash # t" using raw_path_shape by blast
  have low: "lower (raw_path p) = slash # lower t" by (simp add: t lower_char_def byte_def)
  have "single_slashes (slash # lower t)"
    using raw_path_shape(2) [of p] by (metis low single_slashes_lower)
  moreover have "\<not> dot_segment x" if "x \<in> set (split_on slash (lower t))" for x
    using that raw_path_segments [of _ p] by (auto simp: split_on_slash_lower t)
  ultimately show ?thesis using raw_path_id [of "lower t"] low by simp
qed

text \<open>The escapes of an encoded path are none that the first test refuses.\<close>

lemma encoded_not_structural:
  assumes "path_encoded c" "\<not> splitting_char c"
  shows "\<not> structural_escape (lower_char (upper_hex (byte c div 16))) (lower_char (upper_hex (byte c mod 16)))"
proof
  let ?a = "lower_char (upper_hex (byte c div 16))" and ?b = "lower_char (upper_hex (byte c mod 16))"
  assume "structural_escape ?a ?b"
  moreover have "char_of (16 * (byte c div 16) + byte c mod 16) = c" by simp
  ultimately have "splitting_char c \<or> c \<in> {slash, dot, percent}"
    using structural_escape_value [of ?a ?b "byte c div 16" "byte c mod 16"] by simp
  with assms show False by (auto simp: path_encoded_def byte_def)
qed

lemma upper_hex_not_percent: "n < 16 \<Longrightarrow> upper_hex n \<noteq> percent"
  using hex_value_upper_hex [of n] by (auto simp: hex_value_def byte_def)

lemma encoded_no_structural_escape:
  "percent \<notin> set s \<Longrightarrow> \<not> list_ex splitting_char s \<Longrightarrow>
   \<not> has_structural_escape (lower (percent_encode_path s))"
proof (induction s)
  case (Cons c s)
  then have IH: "\<not> has_structural_escape (lower (percent_encode_path s))" by simp
  show ?case
  proof (cases "path_encoded c")
    case False
    with IH Cons.prems show ?thesis by (auto split: list.splits)
  next
    case True
    let ?a = "lower_char (upper_hex (byte c div 16))" and ?b = "lower_char (upper_hex (byte c mod 16))"
    have "?a \<noteq> percent" "?b \<noteq> percent" by (simp_all add: upper_hex_not_percent)
    moreover have "\<not> structural_escape ?a ?b"
      using encoded_not_structural [OF True] Cons.prems by simp
    ultimately show ?thesis
      using IH True by (auto simp: percent_encode_char_def split: list.splits)
  qed
qed simp

text \<open>
  A canonical path is its own canonical path: whatever another hop decodes and resolves once
  more, it gets the path the guards matched.
\<close>

lemma canonicalPath_idem:
  assumes "utf8_valid r" "canonicalPath r = Some q"
  shows "canonicalPath q = Some q"
proof -
  from assms(2) obtain p where p: "\<not> has_structural_escape r" "decodeURIComponent r = Some p"
    "clean_path p" "q = lower (percent_encode_path (raw_path p))"
    by (auto simp: canonicalPath_raw)
  let ?x = "raw_path p"
  have x: "clean_path ?x" using p(3) by (rule clean_raw_path)
  have pct: "percent \<notin> set ?x"
    using decode_no_percent [OF p(2,1)] set_raw_path [of p] by auto
  have "utf8_valid p" using decodeURIComponent_utf8 [OF assms(1) p(2)] .
  then have valid: "utf8_valid ?x" by (rule utf8_valid_raw_path)
  have "\<not> has_structural_escape q"
    using encoded_no_structural_escape [OF pct] x p(4) by (simp add: clean_path_def)
  moreover have "decodeURIComponent q = Some (lower ?x)"
    using decode_lower_encode [OF valid pct] p(4) by simp
  moreover have "clean_path (lower ?x)" using x by (simp add: clean_path_lower)
  moreover have "lower (percent_encode_path (raw_path (lower ?x))) = q"
    using raw_path_lower [OF p(3)] p(4) by (simp add: percent_encode_path_lower)
  ultimately show ?thesis unfolding canonicalPath_raw by blast
qed

section \<open>The shape of a canonical path\<close>

definition canonical_char :: "char \<Rightarrow> bool" where
  "canonical_char c \<longleftrightarrow> 33 \<le> byte c \<and> byte c \<le> 126 \<and> \<not> splitting_char c \<and> \<not> (65 \<le> byte c \<and> byte c \<le> 90)"

lemma encoded_chars:
  assumes "c \<in> set (lower (percent_encode_path s))" "\<not> list_ex splitting_char s"
  shows "canonical_char c"
proof -
  have hex: "canonical_char (lower_char (upper_hex n))" if "n < 16" for n
    using that by (auto simp: canonical_char_def splitting_char_byte byte_lower_char upper_hex_def)
  have pct: "canonical_char (lower_char percent)"
    by (simp add: canonical_char_def splitting_char_byte byte_lower_char byte_percent)
  have plain: "canonical_char (lower_char d)" if "\<not> path_encoded d" "\<not> splitting_char d" for d
    using that by (auto simp: canonical_char_def splitting_char_byte path_encoded_byte byte_lower_char)
  show ?thesis
    using assms hex [of "byte _ div 16"] hex [of "byte _ mod 16"] pct plain
  proof (induction s)
    case (Cons d s)
    then consider "c \<in> set (lower (if path_encoded d then percent_encode_char d else [d]))"
      | "c \<in> set (lower (percent_encode_path s))" by auto
    then show ?case
    proof cases
      case 1
      have "byte d div 16 < 16" "byte d mod 16 < 16" by simp_all
      then show ?thesis
        using 1 Cons.prems(2) hex pct plain [of d]
        by (auto simp: percent_encode_char_def split: if_splits)
    next
      case 2
      with Cons show ?thesis by simp
    qed
  qed simp
qed

lemma canonicalPath_shape:
  assumes "canonicalPath r = Some q"
  shows "q \<noteq> [] \<and> hd q = slash \<and> single_slashes q \<and> list_all canonical_char q"
proof -
  from assms obtain p where p: "clean_path p" "q = lower (percent_encode_path (raw_path p))"
    by (auto simp: canonicalPath_raw)
  obtain t where t: "raw_path p = slash # t" using raw_path_shape by blast
  have "percent_encode_path (collapse_slashes (raw_path p)) = percent_encode_path (raw_path p)"
    using raw_path_shape(2) [of p] by (simp add: collapse_slashes_id)
  then have "single_slashes (percent_encode_path (raw_path p))"
    by (metis percent_encode_path_collapse single_slashes_collapse)
  then have "single_slashes q" using p(2) by simp
  moreover have "list_all canonical_char q"
    using encoded_chars [of _ "raw_path p"] clean_raw_path [OF p(1)] p(2)
    by (auto simp: list_all_iff clean_path_def)
  moreover have "q \<noteq> [] \<and> hd q = slash" using p(2) t by (simp add: lower_char_def byte_def)
  ultimately show ?thesis by blast
qed

section \<open>Plain paths are read as they are\<close>

lemma plain_char_byte:
  "plain_char c \<longleftrightarrow> (65 \<le> byte c \<and> byte c \<le> 90) \<or> (97 \<le> byte c \<and> byte c \<le> 122) \<or>
     (48 \<le> byte c \<and> byte c \<le> 57) \<or> byte c \<in> {47, 95, 46, 126, 45}"
  unfolding plain_char_def insert_iff empty_iff byte_inject [symmetric]
  by (simp add: byte_lit)

lemma plain_not_encoded: "plain_char c \<Longrightarrow> \<not> path_encoded c"
  by (auto simp: path_encoded_byte plain_char_byte)

lemma js_space_not_plain: "w \<in> set js_space \<Longrightarrow> c \<in> set w \<Longrightarrow> \<not> plain_char c"
  by (auto simp: js_space_def plain_char_byte)

lemma plain_no_space:
  assumes "list_all plain_char s"
  shows "\<not> ends_space s" "trim s = s"
proof -
  have "\<not> endsWith s w \<and> \<not> startsWith s w" if w: "w \<in> set js_space" for w
  proof -
    obtain c w' where "w = c # w'" using js_space_nonempty [OF w] by (cases w) auto
    then have "c \<in> set w" "\<not> plain_char c" using js_space_not_plain [OF w] by auto
    then show ?thesis using assms by (auto simp: endsWith_iff startsWith_iff list_all_iff)
  qed
  then show "\<not> ends_space s" and "trim s = s"
    by (auto intro!: trim_id simp: ends_space_def starts_space_def list_ex_iff)
qed

lemma plain_dot_segment:
  assumes "list_all plain_char seg"
  shows "dot_segment seg \<longleftrightarrow> seg = ''.'' \<or> seg = ''..''"
proof -
  have pct: "percent \<notin> set (lower seg)"
  proof
    assume "percent \<in> set (lower seg)"
    then have "percent \<in> set seg" by (auto simp: lower_def dest: sym)
    with assms have "plain_char percent" by (simp add: list_all_iff)
    then show False by (simp add: plain_char_byte byte_percent)
  qed
  have "lower seg = ''.'' \<longleftrightarrow> seg = ''.''" "lower seg = ''..'' \<longleftrightarrow> seg = ''..''"
    by (rule lower_eq_caseless; simp add: caseless_def byte_def)+
  then show ?thesis using pct by (auto simp: dot_segment_def is_single_dot_def is_double_dot_def)
qed

lemma split_on_plain: "list_all plain_char s \<Longrightarrow> x \<in> set (split_on slash s) \<Longrightarrow> list_all plain_char x"
  using split_on_set [of x slash s] by (auto simp: list_all_iff)

lemma plain_clean:
  assumes "list_all plain_char p"
  shows "clean_path p"
proof -
  have "\<not> list_ex splitting_char p"
    using assms by (auto simp: list_ex_iff list_all_iff splitting_char_byte plain_char_byte)
  moreover have "\<not> spaced_dots x" if "x \<in> set (split_on slash p)" for x
    using plain_no_space(2) [OF split_on_plain [OF assms that]] by (simp add: spaced_dots_def)
  ultimately show ?thesis using plain_no_space(1) [OF assms] by (auto simp: clean_path_def list_ex_iff)
qed

lemma plain_no_escape: "list_all plain_char p \<Longrightarrow> percent \<notin> set p \<and> \<not> has_structural_escape p"
proof (induction p)
  case (Cons c p)
  have "c \<noteq> percent" using Cons.prems by (auto simp: plain_char_byte byte_percent)
  with Cons show ?case by (auto split: list.splits)
qed simp

text \<open>
  A plain path is read as it is, lower-cased and with single slashes: the guards check exactly
  the path that is forwarded.
\<close>

lemma canonicalPath_plain:
  assumes "isPlainPath r"
  shows "canonicalPath r = Some (lower (collapse_slashes (''/'' @ r)))"
proof -
  have pl: "list_all plain_char r" using assms by (simp add: isPlainPath_def)
  obtain t where t: "collapse_slashes (slash # r) = slash # t" using collapse_slash_Cons by blast
  have seg: "\<not> dot_segment x" if x: "x \<in> set (split_on slash t)" for x
  proof -
    have "x \<in> set (split_on slash (collapse_slashes (slash # r)))" using x by (simp add: t)
    then have "x = [] \<or> x \<in> set (split_on slash r)"
      using split_on_collapse_subset [of "slash # r"] by auto
    then show ?thesis
    proof
      assume r: "x \<in> set (split_on slash r)"
      then have "x \<noteq> ''.'' \<and> x \<noteq> ''..''" using assms unfolding isPlainPath_def list_ex_iff by blast
      then show ?thesis using plain_dot_segment [OF split_on_plain [OF pl r]] by blast
    qed simp
  qed
  have "single_slashes (slash # t)" using single_slashes_collapse [of "slash # r"] t by simp
  then have "raw_path r = slash # t"
    using seg raw_path_id [of t] by (simp add: raw_path_def t collapse_slashes_id)
  moreover have "percent_encode_path (slash # t) = slash # t"
  proof (rule percent_encode_path_plain)
    have "set (slash # t) = insert slash (set r)" by (metis t set_collapse list.simps(15))
    then show "\<forall>c \<in> set (slash # t). \<not> path_encoded c"
      using pl plain_not_encoded by (auto simp: list_all_iff)
  qed
  moreover have "decodeURIComponent r = Some r" "\<not> has_structural_escape r"
    using plain_no_escape [OF pl] decodeURIComponent_no_percent by auto
  ultimately show ?thesis
    using plain_clean [OF pl] t by (auto simp: canonicalPath_raw)
qed

text \<open>The rest of a proxied path is what follows the session.\<close>

lemma proxyRest_after_session:
  assumes "utf8_valid t"
  shows "proxyRest (''/proxy/'' @ sessionId @ slash # t) sessionId = collapse_slashes (slash # t)"
proof -
  have "js_drop (js_length (''/proxy/'' @ sessionId) + 0) ((''/proxy/'' @ sessionId) @ slash # t) =
      js_drop 0 (slash # t)"
    by (rule js_drop_append)
  also have "\<dots> = slash # t" using assms by (intro js_drop_0) (simp add: byte_def)
  finally have "js_drop (js_length (''/proxy/'' @ sessionId)) (''/proxy/'' @ sessionId @ slash # t) = slash # t"
    by simp
  moreover obtain u where "collapse_slashes (slash # t) = slash # u" using collapse_slash_Cons by blast
  ultimately show ?thesis by (simp only: proxyRest_def Let_def) simp
qed

lemma isPlainPath_collapse: "isPlainPath r \<Longrightarrow> isPlainPath (collapse_slashes r)"
proof -
  assume p: "isPlainPath r"
  have "x = [] \<or> x \<in> set (split_on slash r)" if "x \<in> set (split_on slash (collapse_slashes r))" for x
    using that split_on_collapse_subset [of r] by auto
  with p show ?thesis by (auto simp: isPlainPath_def list_all_iff list_ex_iff)
qed

lemma canonicalPath_plain_collapsed:
  assumes "isPlainPath (slash # r)"
  shows "canonicalPath (collapse_slashes (slash # r)) = Some (lower (collapse_slashes (slash # r)))"
proof -
  obtain t where t: "collapse_slashes (slash # r) = slash # t" using collapse_slash_Cons by blast
  have "single_slashes (slash # t)" using single_slashes_collapse [of "slash # r"] t by simp
  then have "collapse_slashes (''/'' @ collapse_slashes (slash # r)) = collapse_slashes (slash # r)"
    by (simp add: t collapse_slashes_id)
  then show ?thesis using canonicalPath_plain [OF isPlainPath_collapse [OF assms]] by simp
qed

section \<open>Properties\<close>

text \<open>C4. Reading a path again changes nothing: the reading the guards match against is a fixed
  point, so a later hop that decodes, splits and resolves the forwarded path once more gets the
  reading the guards decided on. It starts with a slash, has no empty inner segment and only
  characters of a canonical path.\<close>

theorem canonicalPath_fixed_point:
  assumes "utf8_valid r" "canonicalPath r = Some q"
  shows "canonicalPath q = Some q \<and> startsWith q ''/'' \<and> single_slashes q \<and> list_all canonical_char q"
  using canonicalPath_idem [OF assms] canonicalPath_shape [OF assms(2)] by (cases q) auto

theorem canonicalPath_fixed_point_witness: "canonicalPath ''/session/a%20b'' = Some ''/session/a%20b''"
proof -
  have "utf8_valid ''/session//./A%20b''" "canonicalPath ''/session//./A%20b'' = Some ''/session/a%20b''"
    by code_simp+
  then show ?thesis using canonicalPath_fixed_point by blast
qed

text \<open>A plain path, the only kind a writing request may have, is read as itself up to case and
  repeated slashes: what the guards check is what the proxy forwards.\<close>

theorem plain_path_read_as_is:
  assumes "utf8_valid r" "isPlainPath (slash # r)"
  shows "canonicalPath (proxyRest (''/proxy/'' @ sid @ slash # r) sid) =
    Some (lower (proxyRest (''/proxy/'' @ sid @ slash # r) sid))"
  using canonicalPath_plain_collapsed [OF assms(2)] proxyRest_after_session [OF assms(1)]
  by simp

theorem plain_path_read_as_is_witness:
  "canonicalPath (proxyRest ''/proxy/s1//Session/X'' ''s1'') = Some ''/session/x''"
proof -
  have "utf8_valid ''/Session/X''" "isPlainPath ''//Session/X''" by code_simp+
  moreover have "lower (proxyRest ''/proxy/s1//Session/X'' ''s1'') = ''/session/x''" by code_simp
  ultimately show ?thesis using plain_path_read_as_is [of "''/Session/X''" "''s1''"] by simp
qed

end
