(* ===== verification/Routes.thy ===== *)
theory Routes
  imports Schema ProxyPath
begin

text \<open>
  The route tables of the API (\<open>api/src/route-template.ts\<close>,
  \<open>api/src/v1-routes.ts\<close>, \<open>api/src/v2-routes.ts\<close>) and what a template
  matches: \<open>templateRegex_iff\<close> states it segment by segment. In a regular expression
  \<open>.\<close> is every byte but a line feed and a carriage return, which is exact on canonical
  paths (they are ASCII).
\<close>

definition not_newline :: "char \<Rightarrow> bool" where
  "not_newline c \<longleftrightarrow> byte c \<noteq> 10 \<and> byte c \<noteq> 13"

definition segment_rx :: "str \<Rightarrow> rx" where
  "segment_rx seg =
     (if seg = ''*'' then rx_plus (RSet not_newline)
      else if startsWith seg '':'' then rx_plus (RSet (\<lambda>c. c \<noteq> slash))
      else rx_lit seg)"

fun join_rx :: "rx list \<Rightarrow> rx" where
  "join_rx [] = REmpty"
| "join_rx [r] = r"
| "join_rx (r # r' # rs) = RSeq r (RSeq (rchar slash) (join_rx (r' # rs)))"

definition templateRegex :: "str \<Rightarrow> rx" where
  "templateRegex template = join_rx (map segment_rx (split_on slash (lower template)))"

section \<open>The tables\<close>

datatype V2Rule = Allow | Never | Feature FeatureNameV2

definition V1_API_ROUTES :: "(str \<times> str) list" where
  "V1_API_ROUTES = [
     (''GET'', ''/api/agent''),
     (''GET'', ''/api/command''),
     (''DELETE'', ''/api/credential/:credentialID''),
     (''PATCH'', ''/api/credential/:credentialID''),
     (''GET'', ''/api/event''),
     (''GET'', ''/api/fs/find''),
     (''GET'', ''/api/fs/list''),
     (''GET'', ''/api/fs/read/*''),
     (''GET'', ''/api/health''),
     (''GET'', ''/api/integration''),
     (''GET'', ''/api/integration/:integrationID''),
     (''POST'', ''/api/integration/:integrationID/connect/key''),
     (''POST'', ''/api/integration/:integrationID/connect/oauth''),
     (''DELETE'', ''/api/integration/attempt/:attemptID''),
     (''GET'', ''/api/integration/attempt/:attemptID''),
     (''POST'', ''/api/integration/attempt/:attemptID/complete''),
     (''GET'', ''/api/location''),
     (''GET'', ''/api/model''),
     (''GET'', ''/api/permission/request''),
     (''GET'', ''/api/permission/saved''),
     (''DELETE'', ''/api/permission/saved/:id''),
     (''GET'', ''/api/provider''),
     (''GET'', ''/api/provider/:providerID''),
     (''GET'', ''/api/pty''),
     (''POST'', ''/api/pty''),
     (''DELETE'', ''/api/pty/:ptyID''),
     (''GET'', ''/api/pty/:ptyID''),
     (''PUT'', ''/api/pty/:ptyID''),
     (''GET'', ''/api/pty/:ptyID/connect''),
     (''POST'', ''/api/pty/:ptyID/connect-token''),
     (''GET'', ''/api/question/request''),
     (''GET'', ''/api/reference''),
     (''GET'', ''/api/session''),
     (''POST'', ''/api/session''),
     (''GET'', ''/api/session/:sessionID''),
     (''POST'', ''/api/session/:sessionID/agent''),
     (''POST'', ''/api/session/:sessionID/compact''),
     (''GET'', ''/api/session/:sessionID/context''),
     (''GET'', ''/api/session/:sessionID/event''),
     (''GET'', ''/api/session/:sessionID/history''),
     (''POST'', ''/api/session/:sessionID/interrupt''),
     (''GET'', ''/api/session/:sessionID/message''),
     (''GET'', ''/api/session/:sessionID/message/:messageID''),
     (''POST'', ''/api/session/:sessionID/model''),
     (''GET'', ''/api/session/:sessionID/permission''),
     (''POST'', ''/api/session/:sessionID/permission''),
     (''GET'', ''/api/session/:sessionID/permission/:requestID''),
     (''POST'', ''/api/session/:sessionID/permission/:requestID/reply''),
     (''POST'', ''/api/session/:sessionID/prompt''),
     (''GET'', ''/api/session/:sessionID/question''),
     (''POST'', ''/api/session/:sessionID/question/:requestID/reject''),
     (''POST'', ''/api/session/:sessionID/question/:requestID/reply''),
     (''POST'', ''/api/session/:sessionID/revert/clear''),
     (''POST'', ''/api/session/:sessionID/revert/commit''),
     (''POST'', ''/api/session/:sessionID/revert/stage''),
     (''POST'', ''/api/session/:sessionID/wait''),
     (''GET'', ''/api/session/active''),
     (''GET'', ''/api/skill'')]"

definition V2_ROUTES :: "(str \<times> str \<times> V2Rule) list" where
  "V2_ROUTES = [
     (''GET'', ''/api/agent'', Allow),
     (''GET'', ''/api/agent/:agentID'', Allow),
     (''GET'', ''/api/command'', Allow),
     (''GET'', ''/api/config'', Allow),
     (''GET'', ''/api/config/shell'', Allow),
     (''GET'', ''/api/credential'', Never),
     (''POST'', ''/api/credential'', Never),
     (''DELETE'', ''/api/credential/:credentialID'', Allow),
     (''PATCH'', ''/api/credential/:credentialID'', Never),
     (''POST'', ''/api/credential/:credentialID/activate'', Allow),
     (''DELETE'', ''/api/debug/location'', Never),
     (''GET'', ''/api/debug/location'', Never),
     (''GET'', ''/api/event'', Allow),
     (''PATCH'', ''/api/experimental/config'', Never),
     (''POST'', ''/api/experimental/fs/write'', Feature Uploads2),
     (''POST'', ''/api/experimental/generate'', Never),
     (''POST'', ''/api/experimental/integration/wellknown'', Never),
     (''DELETE'', ''/api/experimental/mcp/:server'', Never),
     (''PUT'', ''/api/experimental/mcp/:server'', Never),
     (''POST'', ''/api/experimental/mcp/:server/connect'', Feature Mcp2),
     (''POST'', ''/api/experimental/mcp/:server/disconnect'', Feature Mcp2),
     (''GET'', ''/api/experimental/migration/v1'', Allow),
     (''DELETE'', ''/api/experimental/persistent-pty/:ptyID'', Never),
     (''GET'', ''/api/experimental/persistent-pty/:ptyID'', Never),
     (''PUT'', ''/api/experimental/persistent-pty/:ptyID'', Never),
     (''GET'', ''/api/experimental/persistent-pty/:ptyID/connect'', Never),
     (''POST'', ''/api/experimental/persistent-pty/:ptyID/connect-token'', Never),
     (''GET'', ''/api/experimental/persistent-pty/:ptyID/snapshot'', Never),
     (''POST'', ''/api/experimental/persistent-pty/handoff'', Never),
     (''POST'', ''/api/experimental/persistent-pty/shutdown'', Never),
     (''GET'', ''/api/experimental/session/:sessionID/export'', Feature Export2),
     (''GET'', ''/api/experimental/session/:sessionID/instructions/entries'', Allow),
     (''DELETE'', ''/api/experimental/session/:sessionID/instructions/entries/:key'', Never),
     (''PUT'', ''/api/experimental/session/:sessionID/instructions/entries/:key'', Never),
     (''GET'', ''/api/experimental/session/:sessionID/log'', Allow),
     (''POST'', ''/api/experimental/session/:sessionID/skill'', Never),
     (''GET'', ''/api/experimental/session/:sessionID/terminal'', Never),
     (''POST'', ''/api/experimental/session/:sessionID/terminal'', Never),
     (''GET'', ''/api/experimental/session/:sessionID/terminal/read'', Never),
     (''POST'', ''/api/experimental/session/:sessionID/wait'', Allow),
     (''POST'', ''/api/experimental/session/import'', Feature Uploads2),
     (''GET'', ''/api/experimental/session/stats'', Allow),
     (''GET'', ''/api/form'', Allow),
     (''GET'', ''/api/fs/find'', Allow),
     (''GET'', ''/api/fs/list'', Allow),
     (''GET'', ''/api/fs/read/*'', Feature Downloads2),
     (''GET'', ''/api/info'', Allow),
     (''GET'', ''/api/integration'', Allow),
     (''GET'', ''/api/integration/:integrationID'', Allow),
     (''POST'', ''/api/integration/:integrationID/connect/command'', Never),
     (''DELETE'', ''/api/integration/:integrationID/connect/command/:attemptID'', Never),
     (''GET'', ''/api/integration/:integrationID/connect/command/:attemptID'', Never),
     (''POST'', ''/api/integration/:integrationID/connect/external'', Never),
     (''POST'', ''/api/integration/:integrationID/connect/key'', Allow),
     (''POST'', ''/api/integration/:integrationID/connect/oauth'', Allow),
     (''DELETE'', ''/api/integration/:integrationID/connect/oauth/:attemptID'', Allow),
     (''GET'', ''/api/integration/:integrationID/connect/oauth/:attemptID'', Allow),
     (''POST'', ''/api/integration/:integrationID/connect/oauth/:attemptID/complete'', Allow),
     (''GET'', ''/api/location'', Allow),
     (''POST'', ''/api/location/reload'', Never),
     (''GET'', ''/api/mcp'', Allow),
     (''GET'', ''/api/mcp/resource'', Allow),
     (''GET'', ''/api/model'', Allow),
     (''GET'', ''/api/model/default'', Allow),
     (''POST'', ''/api/pair'', Never),
     (''GET'', ''/api/permission/request'', Allow),
     (''GET'', ''/api/permission/saved'', Allow),
     (''DELETE'', ''/api/permission/saved/:id'', Allow),
     (''GET'', ''/api/plugin'', Allow),
     (''POST'', ''/api/plugin/check'', Never),
     (''POST'', ''/api/plugin/update'', Never),
     (''GET'', ''/api/project'', Allow),
     (''PATCH'', ''/api/project/:projectID'', Allow),
     (''GET'', ''/api/provider'', Allow),
     (''GET'', ''/api/provider/:providerID'', Allow),
     (''GET'', ''/api/pty'', Feature Terminal2),
     (''POST'', ''/api/pty'', Feature Terminal2),
     (''DELETE'', ''/api/pty/:ptyID'', Feature Terminal2),
     (''GET'', ''/api/pty/:ptyID'', Feature Terminal2),
     (''PUT'', ''/api/pty/:ptyID'', Feature Terminal2),
     (''GET'', ''/api/pty/:ptyID/connect'', Feature Terminal2),
     (''POST'', ''/api/pty/:ptyID/connect-token'', Feature Terminal2),
     (''GET'', ''/api/reference'', Allow),
     (''POST'', ''/api/rpc/:rpcID/:method'', Never),
     (''GET'', ''/api/session'', Allow),
     (''POST'', ''/api/session'', Allow),
     (''DELETE'', ''/api/session/:sessionID'', Allow),
     (''GET'', ''/api/session/:sessionID'', Allow),
     (''PATCH'', ''/api/session/:sessionID'', Allow),
     (''POST'', ''/api/session/:sessionID/agent'', Allow),
     (''POST'', ''/api/session/:sessionID/background'', Allow),
     (''POST'', ''/api/session/:sessionID/command'', Allow),
     (''POST'', ''/api/session/:sessionID/compact'', Allow),
     (''GET'', ''/api/session/:sessionID/context'', Allow),
     (''GET'', ''/api/session/:sessionID/diff'', Allow),
     (''PUT'', ''/api/session/:sessionID/environment'', Never),
     (''POST'', ''/api/session/:sessionID/fork'', Allow),
     (''GET'', ''/api/session/:sessionID/form'', Allow),
     (''POST'', ''/api/session/:sessionID/form'', Never),
     (''DELETE'', ''/api/session/:sessionID/form/:formID'', Allow),
     (''GET'', ''/api/session/:sessionID/form/:formID'', Allow),
     (''POST'', ''/api/session/:sessionID/form/:formID/reply'', Allow),
     (''POST'', ''/api/session/:sessionID/generate'', Never),
     (''GET'', ''/api/session/:sessionID/inbox'', Allow),
     (''DELETE'', ''/api/session/:sessionID/inbox/:inboxID'', Allow),
     (''PATCH'', ''/api/session/:sessionID/inbox/:inboxID'', Allow),
     (''POST'', ''/api/session/:sessionID/interrupt'', Allow),
     (''GET'', ''/api/session/:sessionID/message'', Allow),
     (''GET'', ''/api/session/:sessionID/message/:messageID'', Allow),
     (''POST'', ''/api/session/:sessionID/model'', Allow),
     (''POST'', ''/api/session/:sessionID/move'', Allow),
     (''GET'', ''/api/session/:sessionID/permission'', Allow),
     (''POST'', ''/api/session/:sessionID/permission'', Never),
     (''GET'', ''/api/session/:sessionID/permission/:requestID'', Allow),
     (''POST'', ''/api/session/:sessionID/permission/:requestID/reply'', Allow),
     (''POST'', ''/api/session/:sessionID/prompt'', Allow),
     (''DELETE'', ''/api/session/:sessionID/revert'', Allow),
     (''POST'', ''/api/session/:sessionID/revert/commit'', Allow),
     (''POST'', ''/api/session/:sessionID/revert/stage'', Allow),
     (''POST'', ''/api/session/:sessionID/shell'', Feature Shell2),
     (''POST'', ''/api/session/:sessionID/synthetic'', Never),
     (''POST'', ''/api/session/:sessionID/view'', Never),
     (''GET'', ''/api/session/active'', Allow),
     (''GET'', ''/api/shell'', Allow),
     (''POST'', ''/api/shell'', Never),
     (''DELETE'', ''/api/shell/:id'', Allow),
     (''GET'', ''/api/shell/:id'', Allow),
     (''GET'', ''/api/shell/:id/output'', Allow),
     (''GET'', ''/api/skill'', Allow),
     (''GET'', ''/api/vcs'', Allow),
     (''GET'', ''/api/vcs/base'', Allow),
     (''GET'', ''/api/vcs/branch'', Allow),
     (''GET'', ''/api/vcs/diff'', Allow),
     (''POST'', ''/api/vcs/init'', Never),
     (''GET'', ''/api/vcs/status'', Allow),
     (''POST'', ''/api/websearch'', Never),
     (''GET'', ''/api/websearch/provider'', Allow),
     (''DELETE'', ''/api/worktree'', Allow),
     (''GET'', ''/api/worktree'', Allow),
     (''POST'', ''/api/worktree'', Allow),
     (''POST'', ''/api/worktree/refresh'', Allow),
     (''GET'', ''/auth/connect/:code'', Never)]"

section \<open>What a template matches\<close>

text \<open>
  One segment: a parameter takes any non-empty segment, another segment only itself. A last
  \<open>*\<close> takes what is left of the path, slashes included, but not nothing.
\<close>

definition segment_matches :: "str \<Rightarrow> str \<Rightarrow> bool" where
  "segment_matches t p = (if startsWith t '':'' then p \<noteq> [] else p = t)"

fun template_matches :: "str list \<Rightarrow> str list \<Rightarrow> bool" where
  "template_matches [] ps = False"
| "template_matches [t] ps =
     (if t = ''*'' then ps \<noteq> [] \<and> ps \<noteq> [[]] else \<exists>p. ps = [p] \<and> segment_matches t p)"
| "template_matches (t # t' # ts) ps =
     (case ps of [] \<Rightarrow> False | p # ps' \<Rightarrow> segment_matches t p \<and> template_matches (t' # ts) ps')"

text \<open>A template whose only \<open>*\<close> is its last segment.\<close>

definition plain_template :: "str \<Rightarrow> bool" where
  "plain_template t \<longleftrightarrow> ''*'' \<notin> set (butlast (split_on slash (lower t)))"

lemma in_lang_segment:
  assumes "slash \<notin> set t" "t \<noteq> ''*''"
  shows "in_lang (segment_rx t) s \<longleftrightarrow> slash \<notin> set s \<and> segment_matches t s"
  using assms
  by (auto simp: segment_rx_def segment_matches_def in_lang_plus_set list_all_iff)

lemma join_split_Cons: "join [slash] (p # ps) = (if ps = [] then p else p @ slash # join [slash] ps)"
  by (cases ps) auto

lemma segment_split:
  assumes "slash \<notin> set a"
  shows "s = a @ slash # b \<longleftrightarrow> split_on slash s = a # split_on slash b"
proof
  assume "split_on slash s = a # split_on slash b"
  then have "join [slash] (split_on slash s) = join [slash] (a # split_on slash b)" by simp
  then show "s = a @ slash # b" by (simp add: join_split_on join_split_Cons)
qed (simp add: split_on_append assms)

lemma in_lang_join:
  assumes "ts \<noteq> []" "\<forall>t \<in> set ts. slash \<notin> set t" "''*'' \<notin> set (butlast ts)" "list_all not_newline s"
  shows "in_lang (join_rx (map segment_rx ts)) s \<longleftrightarrow> template_matches ts (split_on slash s)"
  using assms
proof (induction ts arbitrary: s rule: induct_list012)
  case (2 t)
  show ?case
  proof (cases "t = ''*''")
    case True
    have "split_on slash s \<noteq> [[]] \<longleftrightarrow> s \<noteq> []" using split_on_eq_single [of slash s "[]"] by auto
    with True 2 show ?thesis by (simp add: segment_rx_def in_lang_plus_set)
  next
    case False
    then show ?thesis
      using in_lang_segment [of t s] 2 by (auto simp: split_on_eq_single)
  qed
next
  case (3 t t' ts)
  have t: "slash \<notin> set t" "t \<noteq> ''*''" using 3 by auto
  have IH: "in_lang (join_rx (map segment_rx (t' # ts))) b \<longleftrightarrow> template_matches (t' # ts) (split_on slash b)"
    if "s = a @ slash # b" for a b
    using 3 that by (intro "3.IH"(2)) auto
  have "in_lang (join_rx (map segment_rx (t # t' # ts))) s \<longleftrightarrow>
      (\<exists>a b. s = a @ slash # b \<and> in_lang (segment_rx t) a \<and> in_lang (join_rx (map segment_rx (t' # ts))) b)"
    by (auto simp: in_lang_Seq)
  also have "\<dots> \<longleftrightarrow> (\<exists>a b. s = a @ slash # b \<and> slash \<notin> set a \<and> segment_matches t a \<and>
      template_matches (t' # ts) (split_on slash b))"
    using IH in_lang_segment [OF t] by blast
  also have "\<dots> \<longleftrightarrow> template_matches (t # t' # ts) (split_on slash s)"
  proof
    assume "\<exists>a b. s = a @ slash # b \<and> slash \<notin> set a \<and> segment_matches t a \<and>
      template_matches (t' # ts) (split_on slash b)"
    then show "template_matches (t # t' # ts) (split_on slash s)" by (auto simp: split_on_append)
  next
    assume m: "template_matches (t # t' # ts) (split_on slash s)"
    obtain p ps where s: "split_on slash s = p # ps" by (cases "split_on slash s") auto
    with m have m': "segment_matches t p" "template_matches (t' # ts) ps" by auto
    then have ne: "ps \<noteq> []" by (cases ts) (auto split: if_splits)
    have p: "slash \<notin> set p" "\<forall>x \<in> set ps. slash \<notin> set x"
      using split_on_set [of _ slash s] s by auto
    have "s = p @ slash # join [slash] ps"
      using join_split_on [of slash s] ne s by (simp add: join_split_Cons)
    moreover have "split_on slash (join [slash] ps) = ps" using split_on_join [of ps slash] ne p by simp
    ultimately show "\<exists>a b. s = a @ slash # b \<and> slash \<notin> set a \<and> segment_matches t a \<and>
      template_matches (t' # ts) (split_on slash b)"
      using m' p by metis
  qed
  finally show ?case .
qed simp

lemma templateRegex_matches:
  assumes "plain_template t" "list_all not_newline path"
  shows "rx_test (templateRegex t) path \<longleftrightarrow> template_matches (split_on slash (lower t)) (split_on slash path)"
  unfolding rx_test_iff templateRegex_def
  using assms in_lang_join [of "split_on slash (lower t)" path] split_on_set [of _ slash "lower t"]
  by (auto simp: plain_template_def)

section \<open>Overlapping templates\<close>

text \<open>Two templates that may match the same path; decided segment by segment.\<close>

definition segments_overlap :: "str \<Rightarrow> str \<Rightarrow> bool" where
  "segments_overlap t u =
     (if startsWith t '':'' then startsWith u '':'' \<or> u \<noteq> []
      else if startsWith u '':'' then t \<noteq> [] else t = u)"

fun may_overlap :: "str list \<Rightarrow> str list \<Rightarrow> bool" where
  "may_overlap (t # ts) (u # us) =
     (t = ''*'' \<and> ts = [] \<or> u = ''*'' \<and> us = [] \<or>
      segments_overlap t u \<and> (if ts = [] \<or> us = [] then ts = us else may_overlap ts us))"
| "may_overlap _ _ = False"

lemma segments_overlapI: "segment_matches t p \<Longrightarrow> segment_matches u p \<Longrightarrow> segments_overlap t u"
  by (auto simp: segment_matches_def segments_overlap_def split: if_splits)

lemma template_matches_Cons:
  "template_matches (t # ts) ps \<Longrightarrow> \<not> (t = ''*'' \<and> ts = []) \<Longrightarrow>
    \<exists>p ps'. ps = p # ps' \<and> segment_matches t p \<and> (if ts = [] then ps' = [] else template_matches ts ps')"
  by (cases ts) (auto split: list.splits)

lemma template_matches_not_Nil: "template_matches ts ps \<Longrightarrow> ps \<noteq> []"
  by (induction ts ps rule: template_matches.induct) (auto split: if_splits)

lemma may_overlapI: "template_matches ts ps \<Longrightarrow> template_matches us ps \<Longrightarrow> may_overlap ts us"
proof (induction ts us arbitrary: ps rule: may_overlap.induct)
  case (1 t ts u us)
  show ?case
  proof (cases "t = ''*'' \<and> ts = [] \<or> u = ''*'' \<and> us = []")
    case False
    then obtain p ps' where p: "ps = p # ps'" "segment_matches t p"
      "if ts = [] then ps' = [] else template_matches ts ps'"
      using template_matches_Cons [OF "1.prems"(1)] by blast
    from False obtain q qs' where q: "ps = q # qs'" "segment_matches u q"
      "if us = [] then qs' = [] else template_matches us qs'"
      using template_matches_Cons [OF "1.prems"(2)] by blast
    have "segments_overlap t u" using p q segments_overlapI by auto
    moreover have "ts = us" if "ts = [] \<or> us = []"
      using that p q template_matches_not_Nil by (auto split: if_splits)
    moreover have "may_overlap ts us" if "\<not> (ts = [] \<or> us = [])"
      using that p q False by (intro "1.IH") (auto split: if_splits)
    ultimately show ?thesis by auto
  qed auto
qed (auto dest: template_matches_not_Nil)

definition template_segments :: "str \<Rightarrow> str list" where
  "template_segments t = split_on slash (lower t)"

text \<open>Routes of one method that may match the same path have the same rule.\<close>

fun rules_agree :: "(str list \<times> V2Rule) list \<Rightarrow> bool" where
  "rules_agree [] = True"
| "rules_agree ((t, r) # rs) = (list_all (\<lambda>(t', r'). r = r' \<or> \<not> may_overlap t t') rs \<and> rules_agree rs)"

definition method_routes :: "str \<Rightarrow> (str list \<times> V2Rule) list" where
  "method_routes m = map (\<lambda>(_, t, r). (template_segments t, r)) (filter (\<lambda>(m', _). m' = m) V2_ROUTES)"

lemma may_overlap_sym: "may_overlap ts us = may_overlap us ts"
  by (induction ts us rule: may_overlap.induct) (auto simp: segments_overlap_def)

lemma rules_agreeD:
  "rules_agree rs \<Longrightarrow> (t, r) \<in> set rs \<Longrightarrow> (t', r') \<in> set rs \<Longrightarrow> may_overlap t t' \<Longrightarrow> r = r'"
  by (induction rs rule: rules_agree.induct)
    (auto simp: list_all_iff dest: may_overlap_sym [THEN iffD1])

lemma GET_rules_agree: "rules_agree (method_routes ''GET'')"
  by code_simp

lemma POST_rules_agree: "rules_agree (method_routes ''POST'')"
  by code_simp

lemma write_rules_agree:
  "rules_agree (method_routes ''PUT'')" "rules_agree (method_routes ''PATCH'')"
  "rules_agree (method_routes ''DELETE'')"
  by code_simp+

lemma V2_ROUTES_shape:
  "list_all (\<lambda>(m, t, r). m \<in> {''GET'', ''POST'', ''PUT'', ''PATCH'', ''DELETE''} \<and> plain_template t) V2_ROUTES"
  by code_simp

lemma V1_API_ROUTES_plain: "list_all (\<lambda>(m, t). plain_template t) V1_API_ROUTES"
  by code_simp

lemma V2_rules_agree:
  assumes "(m, t, r) \<in> set V2_ROUTES" "(m, t', r') \<in> set V2_ROUTES"
    "may_overlap (template_segments t) (template_segments t')"
  shows "r = r'"
proof -
  have "m \<in> {''GET'', ''POST'', ''PUT'', ''PATCH'', ''DELETE''}"
    using V2_ROUTES_shape assms(1) unfolding list_all_iff by fast
  then have "rules_agree (method_routes m)"
    using GET_rules_agree POST_rules_agree write_rules_agree by blast
  moreover have "(template_segments t, r) \<in> set (method_routes m)" "(template_segments t', r') \<in> set (method_routes m)"
    using assms(1,2) by (force simp: method_routes_def)+
  ultimately show ?thesis using assms(3) by (rule rules_agreeD)
qed

text \<open>The routes a method and path match.\<close>

definition v2_matches :: "str \<Rightarrow> str \<Rightarrow> str \<times> str \<times> V2Rule \<Rightarrow> bool" where
  "v2_matches method path r = (case r of (m, t, _) \<Rightarrow> m = method \<and> rx_test (templateRegex t) path)"

lemma v2_matches_rule:
  assumes "(m, t, r) \<in> set V2_ROUTES" "(m', t', r') \<in> set V2_ROUTES" "list_all not_newline path"
    "v2_matches method path (m, t, r)" "v2_matches method path (m', t', r')"
  shows "r = r'"
proof (rule V2_rules_agree)
  have m: "m' = m" using assms(4,5) by (simp add: v2_matches_def)
  show "(m, t, r) \<in> set V2_ROUTES" "(m, t', r') \<in> set V2_ROUTES" using assms(1,2) m by simp_all
  have "plain_template t" "plain_template t'"
    using V2_ROUTES_shape assms(1,2) unfolding list_all_iff by fast+
  then show "may_overlap (template_segments t) (template_segments t')"
    using assms templateRegex_matches [of _ path]
    by (intro may_overlapI) (auto simp: v2_matches_def template_segments_def)
qed

lemma canonical_not_newline:
  assumes "canonicalPath r = Some q"
  shows "list_all not_newline q"
  using canonicalPath_shape [OF assms]
  by (auto simp: list_all_iff canonical_char_def not_newline_def)

end
