(* ===== verification/Middleware.thy ===== *)
theory Middleware
  imports Routes
begin

text \<open>
  A request on its way through the API's middleware. A guard either replies (\<open>Inl\<close>) or
  calls \<open>next\<close> with the context it leaves behind (\<open>Inr\<close>). The context has the parts
  of the request the guards read, the unread body stream and the variables they set:
  \<open>cv_body\<close> are the bytes kept by \<open>jsonBody\<close> (\<open>api/src/request-body.ts\<close>) and
  \<open>cv_rewriteJson\<close> the rewrite of the response. Log lines are not modelled.

  \<open>same_request\<close> is what every guard keeps: the method, the urls and the body bytes that
  will be forwarded. The locale \<open>request_guard\<close> names that contract, the locale
  \<open>hono_every\<close> what \<open>every\<close> of \<open>hono/combine\<close> documents: it runs its
  handlers in order and stops at the first reply.
\<close>

datatype response = TextReply nat str | JsonReply nat json

text \<open>\<open>SessionMeta\<close>, \<open>api/src/store.ts\<close>.\<close>

record SessionMeta =
  sm_id :: str
  sm_userId :: str
  sm_directory :: str
  sm_gatewayAddr :: str
  sm_createdAt :: str
  sm_opencodeVersion :: "str option"

record ctx =
  rq_method :: str
  rq_url :: str
  rq_path :: str
  rq_sessionId :: str
  rq_content_length :: "nat option"
  rq_stream :: "str list option"
  cv_userId :: str
  cv_token :: str
  cv_session :: SessionMeta
  cv_body :: "str option"
  cv_rewriteJson :: "(json \<Rightarrow> json) option"

type_synonym guard = "ctx \<Rightarrow> response + ctx"

section \<open>Decoding the bytes of a body\<close>

text \<open>
  \<open>new TextDecoder().decode\<close>: a byte order mark at the start is dropped, each maximal part
  of an ill-formed sequence becomes U+FFFD.
\<close>

definition replacement :: str where
  "replacement = map char_of [239, 191, 189 :: nat]"

definition utf8_run :: "nat \<Rightarrow> char \<Rightarrow> str \<Rightarrow> nat" where
  "utf8_run n c cs =
     (case take n cs of
        [] \<Rightarrow> 0
      | d # ds \<Rightarrow> if cont_byte d \<and> utf8_second_ok c d then Suc (length (takeWhile cont_byte ds)) else 0)"

function utf8_replace :: "str \<Rightarrow> str" where
  "utf8_replace [] = []"
| "utf8_replace (c # cs) =
     (case utf8_extra c of
        None \<Rightarrow> replacement @ utf8_replace cs
      | Some n \<Rightarrow>
          let k = utf8_run n c cs
          in if k = n then c # take n cs @ utf8_replace (drop n cs)
             else replacement @ utf8_replace (drop k cs))"
  by pat_completeness auto
termination
  by (relation "measure length") auto

declare utf8_replace.simps(2) [simp del]

definition bom :: str where
  "bom = map char_of [239, 187, 191 :: nat]"

definition textDecode :: "str \<Rightarrow> str" where
  "textDecode bytes = utf8_replace (if startsWith bytes bom then drop 3 bytes else bytes)"

lemma utf8_run_tail:
  assumes "utf8_tail_ok c ds"
  shows "utf8_run (length ds) c (ds @ cs) = length ds"
proof (cases ds)
  case (Cons d es)
  with assms have "cont_byte d" "utf8_second_ok c d" "list_all cont_byte es"
    by (auto simp: utf8_tail_ok_def)
  moreover from this(3) have "length (takeWhile cont_byte es) = length es"
    by (metis list_all_iff takeWhile_eq_all_conv)
  ultimately show ?thesis by (simp add: utf8_run_def Cons)
qed (simp add: utf8_run_def)

text \<open>Well-formed bytes decode to themselves.\<close>

lemma utf8_replace_valid: "utf8_valid s \<Longrightarrow> utf8_replace s = s"
proof (induction s rule: utf8_valid_induct)
  case (Seq c ds cs)
  then have "utf8_extra c = Some (length ds)" by (simp add: utf8_tail_ok_def)
  with Seq utf8_run_tail [OF Seq(1), of cs] show ?case by (simp add: utf8_replace.simps)
qed simp

lemma textDecode_valid: "utf8_valid s \<Longrightarrow> \<not> startsWith s bom \<Longrightarrow> textDecode s = s"
  by (simp add: textDecode_def utf8_replace_valid)

section \<open>Reading the body\<close>

definition MAX_BODY_BYTES :: nat where
  "MAX_BODY_BYTES = 32 * 1024 * 1024"

datatype JsonBody = JsonOf "json option" | NotJson | TooLarge

text \<open>
  The read loop: \<open>n\<close> bytes so far (\<open>total\<close>). The server hands the handler a Content-Length that is
  a decimal number or none.
\<close>

fun read_chunks :: "nat \<Rightarrow> str list \<Rightarrow> str list option" where
  "read_chunks n [] = Some []"
| "read_chunks n (chunk # chunks) =
     (if n + length chunk > MAX_BODY_BYTES then None
      else map_option ((#) chunk) (read_chunks (n + length chunk) chunks))"

definition declared_too_large :: "ctx \<Rightarrow> bool" where
  "declared_too_large c = (case rq_content_length c of None \<Rightarrow> False | Some n \<Rightarrow> n > MAX_BODY_BYTES)"

definition readCapped :: "ctx \<Rightarrow> str option" where
  "readCapped c =
     (if declared_too_large c then None
      else case rq_stream c of
        None \<Rightarrow> Some []
      | Some chunks \<Rightarrow> map_option concat (read_chunks 0 chunks))"

definition parse_body :: "str \<Rightarrow> JsonBody" where
  "parse_body bytes =
     (let text = textDecode bytes
      in if trim text = [] then JsonOf None
         else case jparse text of None \<Rightarrow> NotJson | Some j \<Rightarrow> JsonOf (Some j))"

definition jsonBody :: "ctx \<Rightarrow> JsonBody \<times> ctx" where
  "jsonBody c =
     (case cv_body c of
        Some b \<Rightarrow> (parse_body b, c)
      | None \<Rightarrow>
          (case readCapped c of
             None \<Rightarrow> (TooLarge, c)
           | Some b \<Rightarrow> (parse_body b, c\<lparr>cv_body := Some b, rq_stream := map_option (\<lambda>_. []) (rq_stream c)\<rparr>)))"

fun bodyError :: "JsonBody \<Rightarrow> response" where
  "bodyError TooLarge = TextReply 413 ''request body is too large''"
| "bodyError _ = TextReply 400 ''request body is not JSON''"

section \<open>What a guard keeps\<close>

text \<open>The bytes the proxy forwards: those a guard kept, else what is left of the stream.\<close>

definition forwarded_body :: "ctx \<Rightarrow> str" where
  "forwarded_body c =
     (case cv_body c of Some b \<Rightarrow> b | None \<Rightarrow> (case rq_stream c of None \<Rightarrow> [] | Some cs \<Rightarrow> concat cs))"

definition same_request :: "ctx \<Rightarrow> ctx \<Rightarrow> bool" where
  "same_request c c' \<longleftrightarrow>
     rq_method c' = rq_method c \<and> rq_url c' = rq_url c \<and> rq_path c' = rq_path c \<and>
     rq_sessionId c' = rq_sessionId c \<and> cv_userId c' = cv_userId c \<and> cv_token c' = cv_token c \<and>
     cv_session c' = cv_session c \<and> forwarded_body c' = forwarded_body c"

lemma same_request_refl [simp]: "same_request c c"
  by (simp add: same_request_def)

lemma same_request_trans: "same_request a b \<Longrightarrow> same_request b c \<Longrightarrow> same_request a c"
  by (simp add: same_request_def)

lemma read_chunks_Some: "read_chunks n cs = Some ds \<Longrightarrow> ds = cs \<and> n + length (concat cs) \<le> max n MAX_BODY_BYTES"
  by (induction n cs arbitrary: ds rule: read_chunks.induct) (fastforce split: if_splits)+

lemma read_chunks_None: "read_chunks n cs = None \<Longrightarrow> MAX_BODY_BYTES < n + length (concat cs)"
  by (induction n cs rule: read_chunks.induct) (fastforce split: if_splits)+

lemma readCapped_Some:
  assumes "readCapped c = Some b"
  shows "b = (case rq_stream c of None \<Rightarrow> [] | Some cs \<Rightarrow> concat cs) \<and> length b \<le> MAX_BODY_BYTES"
  using assms read_chunks_Some [of 0]
  by (fastforce simp: readCapped_def split: if_splits option.splits)

lemma readCapped_None:
  assumes "readCapped c = None"
  shows "declared_too_large c \<or> (\<exists>cs. rq_stream c = Some cs \<and> MAX_BODY_BYTES < length (concat cs))"
  using assms read_chunks_None [of 0]
  by (auto simp: readCapped_def split: if_splits option.splits)

lemma parse_body_not_large [simp]: "parse_body b \<noteq> TooLarge"
  by (auto simp: parse_body_def Let_def split: option.splits)

lemma jsonBody_same_request: "jsonBody c = (r, c') \<Longrightarrow> same_request c c'"
  by (auto simp: jsonBody_def same_request_def forwarded_body_def dest: readCapped_Some split: option.splits)

text \<open>What is checked is what is forwarded.\<close>

lemma jsonBody_forwarded:
  "jsonBody c = (r, c') \<Longrightarrow> r \<noteq> TooLarge \<Longrightarrow> r = parse_body (forwarded_body c') \<and> cv_body c' = Some (forwarded_body c')"
  by (auto simp: jsonBody_def forwarded_body_def split: option.splits)

lemma jsonBody_again:
  "jsonBody c = (r, c') \<Longrightarrow> r \<noteq> TooLarge \<Longrightarrow> jsonBody c' = (r, c')"
  by (auto simp: jsonBody_def split: option.splits)

lemma jsonBody_rewrite: "jsonBody c = (r, c') \<Longrightarrow> cv_rewriteJson c' = cv_rewriteJson c"
  by (auto simp: jsonBody_def split: option.splits)

locale request_guard =
  fixes g :: guard
  assumes keeps: "g c = Inr c' \<Longrightarrow> same_request c c'"

section \<open>Composition\<close>

locale hono_every =
  fixes ev :: "guard list \<Rightarrow> guard"
  assumes every_Nil: "ev [] c = Inr c"
    and every_Cons: "ev (g # gs) c = andThen (g c) (ev gs)"
begin

lemma every_append: "ev (gs @ hs) c = andThen (ev gs c) (ev hs)"
  by (induction gs arbitrary: c) (auto simp: every_Nil every_Cons andThen_def split: sum.splits)

lemma every_keeps:
  assumes "\<forall>g \<in> set gs. \<forall>c c'. g c = Inr c' \<longrightarrow> same_request c c'" "ev gs c = Inr c'"
  shows "same_request c c'"
  using assms
proof (induction gs arbitrary: c)
  case (Cons g gs)
  then obtain d where d: "g c = Inr d" "ev gs d = Inr c'" by (auto simp: every_Cons andThen_eq_Inr)
  have "same_request c d" using Cons.prems(1) d(1) by simp
  moreover have "same_request d c'" using Cons.IH [OF _ d(2)] Cons.prems(1) by simp
  ultimately show ?case by (rule same_request_trans)
qed (simp add: every_Nil)

lemma every_invariant:
  assumes inv: "\<forall>g \<in> set gs. \<forall>c c'. P c \<longrightarrow> g c = Inr c' \<longrightarrow> P c'" and "P c" "ev gs c = Inr c'"
  shows "P c'"
  using assms
proof (induction gs arbitrary: c)
  case (Cons g gs)
  from Cons.prems(3) obtain d where d: "g c = Inr d" "ev gs d = Inr c'"
    by (auto simp: every_Cons andThen_eq_Inr)
  have "P d" using Cons.prems(1,2) d(1) by (meson list.set_intros(1))
  moreover have "\<forall>g \<in> set gs. \<forall>c c'. P c \<longrightarrow> g c = Inr c' \<longrightarrow> P c'"
    using Cons.prems(1) by (meson list.set_intros(2))
  ultimately show ?case using Cons.IH d(2) by blast
qed (simp add: every_Nil)

text \<open>A request that gets through has passed each guard, on the same request.\<close>

lemma every_passed:
  assumes "\<forall>g \<in> set gs. \<forall>c c'. g c = Inr c' \<longrightarrow> same_request c c'" "ev gs c = Inr c'" "g \<in> set gs"
  shows "\<exists>d d'. same_request c d \<and> g d = Inr d' \<and> same_request d' c'"
  using assms
proof (induction gs arbitrary: c)
  case (Cons h gs)
  then obtain d where d: "h c = Inr d" "ev gs d = Inr c'" by (auto simp: every_Cons andThen_eq_Inr)
  show ?case
  proof (cases "g = h")
    case True
    have "same_request d c'" using every_keeps [OF _ d(2)] Cons.prems(1) by simp
    with True d show ?thesis using same_request_refl by blast
  next
    case False
    then have "g \<in> set gs" using Cons.prems(3) by simp
    then obtain e e' where e: "same_request d e" "g e = Inr e'" "same_request e' c'"
      using Cons.IH [OF _ d(2)] Cons.prems(1) by auto
    have "same_request c d" using Cons.prems(1) d(1) by simp
    then show ?thesis using e same_request_trans by blast
  qed
qed simp

end

text \<open>The composition the library describes.\<close>

fun run_every :: "guard list \<Rightarrow> guard" where
  "run_every [] c = Inr c"
| "run_every (g # gs) c = andThen (g c) (run_every gs)"

interpretation run: hono_every run_every
  by unfold_locales simp_all

end
