(* ===== verification/BodyGuard.thy ===== *)
theory BodyGuard
  imports Middleware
begin

text \<open>
  The guards that match a route and a JSON body: \<open>api/src/block-guard.ts\<close>,
  \<open>api/src/body-guard.ts\<close>, and the check of the path of a writing request
  (\<open>rawPath\<close>, \<open>plainPathGuard\<close> of \<open>api/src/feature-guards.ts\<close>).
  \<open>bodyRuleGuard_passes\<close> says what a request that gets through satisfies, on the bytes that
  will be forwarded.
\<close>

section \<open>Routes\<close>

text \<open>A method and a path, without a trailing slash and ignoring case; \<open>seg\<close> is \<open>[^/]+\<close>.\<close>

type_synonym BlockedRoute = "str \<times> rx"

type_synonym json_object = "(str \<times> json) list"

type_synonym BodyRule = "str \<times> rx \<times> (json_object \<Rightarrow> bool)"

definition seg :: rx where
  "seg = rx_plus (RSet (\<lambda>c. c \<noteq> slash))"

definition route_rest :: "ctx \<Rightarrow> str" where
  "route_rest c = strip_trailing_slashes (proxyRest (rq_path c) (rq_sessionId c))"

definition blocked_route :: "BlockedRoute list \<Rightarrow> ctx \<Rightarrow> bool" where
  "blocked_route routes c =
     list_ex (\<lambda>(m, p). m = rq_method c \<and> rx_test (rx_nocase p) (route_rest c)) routes"

definition blockGuard :: "str \<Rightarrow> BlockedRoute list \<Rightarrow> guard" where
  "blockGuard message routes c =
     (if blocked_route routes c then Inl (TextReply 403 message) else Inr c)"

section \<open>Bodies\<close>

definition matched_rules :: "BodyRule list \<Rightarrow> ctx \<Rightarrow> BodyRule list" where
  "matched_rules rules c =
     filter (\<lambda>(m, p, _). m = rq_method c \<and> rx_test (rx_nocase p) (route_rest c)) rules"

definition bodyRuleGuard :: "str \<Rightarrow> BodyRule list \<Rightarrow> BlockedRoute list \<Rightarrow> guard" where
  "bodyRuleGuard message rules blocked c =
     (let deny = Inl (TextReply 403 message)
      in if blocked_route blocked c then deny
         else
           let matched = matched_rules rules c
           in if matched = [] then Inr c
              else case jsonBody c of
                (JsonOf json, c') \<Rightarrow>
                  (case json of
                     Some (JObj body) \<Rightarrow>
                       if list_ex (\<lambda>(_, _, denies). denies body) matched then deny else Inr c'
                   | _ \<Rightarrow> Inr c')
              | (error, _) \<Rightarrow> Inl (bodyError error))"

lemma route_rest_same: "same_request c c' \<Longrightarrow> route_rest c' = route_rest c"
  by (simp add: same_request_def route_rest_def)

lemma blocked_route_same: "same_request c c' \<Longrightarrow> blocked_route rs c' = blocked_route rs c"
  by (simp add: blocked_route_def route_rest_same) (simp add: same_request_def)

lemma matched_rules_same: "same_request c c' \<Longrightarrow> matched_rules rs c' = matched_rules rs c"
  by (simp add: matched_rules_def route_rest_same) (simp add: same_request_def)

lemma bodyRuleGuard_keeps: "bodyRuleGuard message rules blocked c = Inr c' \<Longrightarrow> same_request c c'"
  by (auto simp: bodyRuleGuard_def Let_def dest: jsonBody_same_request
      split: if_splits prod.splits JsonBody.splits option.splits json.splits)

text \<open>The rules a request breaks, read off its route and body.\<close>

definition breaks_rule :: "BodyRule list \<Rightarrow> ctx \<Rightarrow> bool" where
  "breaks_rule rules c =
     (case parse_body (forwarded_body c) of
        JsonOf (Some (JObj body)) \<Rightarrow> list_ex (\<lambda>(_, _, denies). denies body) (matched_rules rules c)
      | _ \<Rightarrow> False)"

lemma bodyRuleGuard_passes:
  assumes "bodyRuleGuard message rules blocked c = Inr c'"
  shows "\<not> blocked_route blocked c' \<and> \<not> breaks_rule rules c'"
proof -
  have same: "same_request c c'" using assms by (rule bodyRuleGuard_keeps)
  have nb: "\<not> blocked_route blocked c'"
    using assms blocked_route_same [OF same] by (auto simp: bodyRuleGuard_def Let_def split: if_splits)
  show ?thesis
  proof (cases "matched_rules rules c = []")
    case True
    then have "matched_rules rules c' = []" using matched_rules_same [OF same] by simp
    then show ?thesis using nb by (auto simp: breaks_rule_def split: JsonBody.splits option.splits json.splits)
  next
    case False
    obtain r d where j: "jsonBody c = (r, d)" by (cases "jsonBody c")
    then have d: "d = c'" "r \<noteq> TooLarge" and body: "\<forall>b. r = JsonOf (Some (JObj b)) \<longrightarrow>
        \<not> list_ex (\<lambda>(_, _, denies). denies b) (matched_rules rules c)"
      using assms False
      by (auto simp: bodyRuleGuard_def Let_def split: if_splits JsonBody.splits option.splits json.splits)
    have "r = parse_body (forwarded_body c')" using jsonBody_forwarded [OF j] d by simp
    with body nb show ?thesis
      by (auto simp: breaks_rule_def matched_rules_same [OF same] split: JsonBody.splits option.splits json.splits)
  qed
qed

lemma blockGuard_keeps: "blockGuard message routes c = Inr c' \<Longrightarrow> same_request c c'"
  by (simp add: blockGuard_def split: if_splits)

interpretation body_rule: request_guard "bodyRuleGuard message rules blocked" for message rules blocked
  by unfold_locales (rule bodyRuleGuard_keeps)

interpretation block: request_guard "blockGuard message routes" for message routes
  by unfold_locales (rule blockGuard_keeps)

section \<open>Plain paths\<close>

text \<open>
  The part of \<open>new URL\<close> that is not modelled: whether it accepts the authority of an http
  URL, and the host of a file URL.
\<close>

record HostParser =
  authority_ok :: "str \<Rightarrow> bool"
  file_host_ok :: "str \<Rightarrow> bool"

definition ends_authority :: "char \<Rightarrow> bool" where
  "ends_authority c \<longleftrightarrow> c \<in> {slash, CHR 92, CHR ''?'', CHR ''#''}"

text \<open>\<open>rawPath\<close>: the url of a request is absolute (http or https), else it cannot be parsed.\<close>

definition rawPath :: "HostParser \<Rightarrow> str \<Rightarrow> str option" where
  "rawPath hp url =
     (let t = url_strip url;
          n = (if startsWith (lower t) ''http:'' then 5 else if startsWith (lower t) ''https:'' then 6 else 0);
          r = dropWhile (\<lambda>c. c = slash \<or> c = CHR 92) (drop n t);
          authority = takeWhile (\<lambda>c. \<not> ends_authority c) r
      in if n = 0 \<or> authority = [] \<or> \<not> authority_ok hp authority then None
         else Some (url_pathname (drop (length authority) r)))"

definition plainPathGuard :: "HostParser \<Rightarrow> response \<Rightarrow> guard" where
  "plainPathGuard hp rejection c =
     (if rq_method c \<noteq> ''GET'' \<and> rq_method c \<noteq> ''HEAD'' then
        (case rawPath hp (rq_url c) of
           None \<Rightarrow> Inl rejection
         | Some path \<Rightarrow> if isPlainPath path then Inr c else Inl rejection)
      else Inr c)"

definition plainPath :: "HostParser \<Rightarrow> guard" where
  "plainPath hp = plainPathGuard hp (TextReply 400 ''unsupported characters in path'')"

lemma plainPathGuard_passes:
  assumes "plainPathGuard hp rejection c = Inr c'"
  shows "c' = c \<and> (rq_method c = ''GET'' \<or> rq_method c = ''HEAD'' \<or>
    (\<exists>p. rawPath hp (rq_url c) = Some p \<and> isPlainPath p))"
  using assms by (auto simp: plainPathGuard_def split: if_splits option.splits)

interpretation plain: request_guard "plainPathGuard hp rejection" for hp rejection
  by unfold_locales (use plainPathGuard_passes in fastforce)

text \<open>\<open>new URL(value).protocol === "file:"\<close>.\<close>

definition windows_drive :: "str \<Rightarrow> bool" where
  "windows_drive h \<longleftrightarrow>
     length h = 2 \<and> (h ! 1 = CHR '':'' \<or> h ! 1 = CHR 124) \<and>
     97 \<le> byte (lower_char (h ! 0)) \<and> byte (lower_char (h ! 0)) \<le> 122"

definition is_file_url :: "HostParser \<Rightarrow> str \<Rightarrow> bool" where
  "is_file_url hp value =
     (let t = url_strip value;
          r = drop 5 t
      in startsWith (lower t) ''file:'' \<and>
         (case r of
            a # b # h \<Rightarrow>
              if (a = slash \<or> a = CHR 92) \<and> (b = slash \<or> b = CHR 92) then
                (let host = takeWhile (\<lambda>c. \<not> ends_authority c) h
                 in host = [] \<or> windows_drive host \<or> file_host_ok hp host)
              else True
          | _ \<Rightarrow> True))"

end
