(* ===== verification/Arguments.thy ===== *)
theory Arguments
  imports Json
begin

text \<open>
  What the API reads in the text a user sends with a command or prompt:
  \<open>api/src/command-arguments.ts\<close> (the tokens that fill \<open>$1..$n\<close>),
  \<open>mayRunShell\<close> of \<open>api/src/shell-guard.ts\<close> and the file references of
  \<open>api/src/download-guard.ts\<close>. The theorems state the rules without the scanners: a text
  that is let through cannot complete a shell interpolation whatever template text surrounds it,
  and a text refers to a file exactly when an \<open>@\<close> that does not follow a word character
  is followed by a path character.
\<close>

section \<open>Tokens\<close>

definition backtick :: char where "backtick = CHR 96"
definition dquote :: char where "dquote = CHR 34"
definition squote :: char where "squote = CHR 39"

text \<open>The length of the longest prefix without white space and without a \<open>stop\<close> character.\<close>

fun run_length :: "(char \<Rightarrow> bool) \<Rightarrow> str \<Rightarrow> nat" where
  "run_length stop [] = 0"
| "run_length stop (c # cs) =
     (if starts_space (c # cs) \<or> stop c then 0 else Suc (run_length stop cs))"

text \<open>\<open>\[Image\s+\d+\]\<close> ignoring case, at the start: its length.\<close>

definition image_length :: "str \<Rightarrow> nat option" where
  "image_length s =
     (if \<not> startsWith (lower s) ''[image'' then None
      else
        let a = drop 6 s;
            b = drop_spaces js_space a;
            c = dropWhile is_digit b
        in if starts_space a \<and> b \<noteq> [] \<and> is_digit (hd b) \<and> startsWith c '']''
           then Some (length s - length c + 1) else None)"

text \<open>A quoted part with its closing quote.\<close>

definition quoted_length :: "char \<Rightarrow> str \<Rightarrow> nat option" where
  "quoted_length q s =
     (if startsWith s [q] \<and> q \<in> set (tl s) then Some (length (takeWhile (\<lambda>c. c \<noteq> q) (tl s)) + 2) else None)"

definition is_quote :: "char \<Rightarrow> bool" where
  "is_quote c \<longleftrightarrow> c = dquote \<or> c = squote"

text \<open>\<open>ARGS_REGEX\<close> at one position: the alternatives in order; 0 when none matches.\<close>

definition token_length :: "str \<Rightarrow> nat" where
  "token_length s =
     (case image_length s of
        Some n \<Rightarrow> n
      | None \<Rightarrow>
          (case quoted_length dquote s of
             Some n \<Rightarrow> n
           | None \<Rightarrow>
               (case quoted_length squote s of
                  Some n \<Rightarrow> n
                | None \<Rightarrow> run_length is_quote s)))"

function match_tokens :: "str \<Rightarrow> str list" where
  "match_tokens [] = []"
| "match_tokens (c # cs) =
     (let n = token_length (c # cs)
      in if n = 0 then match_tokens cs
         else take n (c # cs) # match_tokens (drop n (c # cs)))"
  by pat_completeness auto
termination
  by (relation "measure length") auto

declare match_tokens.simps(2) [simp del]

text \<open>\<open>arg.replace(/^["']|["']$/g, "")\<close>.\<close>

definition quote_trim :: "str \<Rightarrow> str" where
  "quote_trim arg =
     (let a = (if arg \<noteq> [] \<and> is_quote (hd arg) then tl arg else arg)
      in if a \<noteq> [] \<and> is_quote (last a) then butlast a else a)"

definition argumentTokens :: "str \<Rightarrow> str list" where
  "argumentTokens text = map quote_trim (match_tokens text)"

text \<open>Every token is a part of the text.\<close>

lemma match_tokens_part: "t \<in> set (match_tokens s) \<Longrightarrow> \<exists>a b. s = a @ t @ b"
proof (induction s rule: match_tokens.induct)
  case (2 c cs)
  define n where "n = token_length (c # cs)"
  show ?case
  proof (cases "n = 0")
    case True
    with 2 have "\<exists>a b. cs = a @ t @ b" by (simp add: match_tokens.simps n_def Let_def)
    then show ?thesis by (metis append_Cons)
  next
    case False
    with "2.prems" consider "t = take n (c # cs)" | "t \<in> set (match_tokens (drop n (c # cs)))"
      by (auto simp: match_tokens.simps n_def Let_def)
    then show ?thesis
    proof cases
      case 1
      then show ?thesis by (metis append_Nil append_take_drop_id)
    next
      case 2
      with "2.IH"(2) False obtain a b where "drop n (c # cs) = a @ t @ b" by (auto simp: n_def)
      then have "c # cs = (take n (c # cs) @ a) @ t @ b" by (metis append.assoc append_take_drop_id)
      then show ?thesis by blast
    qed
  qed
qed simp

lemma quote_trim_part: "\<exists>a b. arg = a @ quote_trim arg @ b"
proof -
  define x where "x = (if arg \<noteq> [] \<and> is_quote (hd arg) then tl arg else arg)"
  have "arg = (if arg \<noteq> [] \<and> is_quote (hd arg) then [hd arg] else []) @ x"
    by (simp add: x_def)
  moreover have "x = quote_trim arg @ (if x \<noteq> [] \<and> is_quote (last x) then [last x] else [])"
    by (simp add: quote_trim_def x_def [symmetric] Let_def)
  ultimately show ?thesis by metis
qed

lemma argumentTokens_part:
  assumes "t \<in> set (argumentTokens s)"
  shows "\<exists>a b. s = a @ t @ b"
proof -
  from assms obtain m where "m \<in> set (match_tokens s)" "t = quote_trim m" by (auto simp: argumentTokens_def)
  moreover from this obtain a b where "s = a @ m @ b" using match_tokens_part by blast
  moreover obtain c d where "m = c @ quote_trim m @ d" using quote_trim_part by blast
  ultimately have "s = (a @ c) @ t @ (d @ b)" by simp
  then show ?thesis by blast
qed

section \<open>Shell interpolation\<close>

definition bang_tick :: str where
  "bang_tick = [CHR ''!'', backtick]"

definition mayRunShell :: "json option \<Rightarrow> bool" where
  "mayRunShell text =
     (case text of
        Some (JStr t) \<Rightarrow>
          includes_str t bang_tick \<or> endsWith t ''!'' \<or>
          list_ex (\<lambda>token. endsWith token ''!'') (argumentTokens t)
      | _ \<Rightarrow> False)"

lemma includes_part: "includes_str t p \<Longrightarrow> includes_str (a @ t @ b) p"
  by (metis append.assoc includes_str_iff)

text \<open>Two characters straddle a boundary only when one ends the left part.\<close>

lemma includes_append2:
  assumes "includes_str (a @ b) [x, y]" "\<not> endsWith a [x]"
  shows "includes_str a [x, y] \<or> includes_str b [x, y]"
proof -
  from assms(1) obtain u v where uv: "a @ b = u @ [x, y] @ v" by (auto simp: includes_str_iff)
  then consider w where "a = u @ [x, y] @ w" | "a = u @ [x]" | w where "u = a @ w" "b = w @ [x, y] @ v"
    by (auto simp: append_eq_append_conv2 append_eq_Cons_conv)
  then show ?thesis
  proof cases
    case (1 w)
    then show ?thesis by (auto simp: includes_str_iff)
  next
    case 2
    then show ?thesis using assms(2) by (auto simp: endsWith_iff)
  next
    case (3 w)
    then show ?thesis by (auto simp: includes_str_iff)
  qed
qed

lemma includes_concat2:
  assumes "\<forall>a \<in> set xs. \<not> includes_str a [x, y] \<and> \<not> endsWith a [x]"
  shows "\<not> includes_str (concat xs) [x, y]"
  using assms
proof (induction xs)
  case (Cons a xs)
  then show ?case using includes_append2 [of a "concat xs" x y] by auto
qed simp

lemma token_no_bang_tick:
  assumes "\<not> mayRunShell (Some (JStr t))" "x = t \<or> x \<in> set (argumentTokens t)"
  shows "\<not> includes_str x bang_tick \<and> \<not> endsWith x ''!''"
proof -
  have "\<exists>a b. t = a @ x @ b" using assms(2) argumentTokens_part by (metis append_Nil append_Nil2)
  with assms show ?thesis using includes_part by (auto simp: mayRunShell_def list_ex_iff)
qed

lemma pieces_no_bang_tick:
  assumes "\<not> mayRunShell (Some (JStr t))"
    and "\<forall>x \<in> set pieces. x = t \<or> x \<in> set (argumentTokens t) \<or>
      \<not> includes_str x bang_tick \<and> \<not> endsWith x ''!''"
  shows "\<not> includes_str (concat pieces) bang_tick"
  using assms(2) token_no_bang_tick [OF assms(1)] includes_concat2 [of pieces "CHR ''!''" backtick]
  by (auto simp: bang_tick_def)

section \<open>File references\<close>

definition word_or_tick :: "char \<Rightarrow> bool" where
  "word_or_tick c \<longleftrightarrow>
     (48 \<le> byte c \<and> byte c \<le> 57) \<or> (65 \<le> byte c \<and> byte c \<le> 90) \<or> (97 \<le> byte c \<and> byte c \<le> 122) \<or>
     c = CHR ''_'' \<or> c = backtick"

definition ends_name :: "char \<Rightarrow> bool" where
  "ends_name c \<longleftrightarrow> c = backtick \<or> c = CHR '','' \<or> c = dot"

text \<open>\<open>(\.?[^\s`,.]*(?:\.[^\s`,.]+)*)\<close> at the start of a string: the length of the group.\<close>

function dotted_length :: "str \<Rightarrow> nat" where
  "dotted_length s =
     (if startsWith s ''.'' \<and> run_length ends_name (tl s) > 0
      then let n = Suc (run_length ends_name (tl s)) in n + dotted_length (drop n s)
      else 0)"
  by pat_completeness auto
termination
  by (relation "measure length") (auto dest!: startsWith_nonempty)

declare dotted_length.simps [simp del]

definition group_length :: "str \<Rightarrow> nat" where
  "group_length s =
     (let d = (if startsWith s ''.'' then 1 else 0);
          n = run_length ends_name (drop d s)
      in d + n + dotted_length (drop (d + n) s))"

text \<open>\<open>(?<![\w`])\<close>: the character before the position.\<close>

definition may_start :: "char option \<Rightarrow> bool" where
  "may_start prev = (case prev of None \<Rightarrow> True | Some p \<Rightarrow> \<not> word_or_tick p)"

text \<open>
  \<open>Array.from(text.matchAll(FILE_REGEX))\<close>: the groups. \<open>prev\<close> is the character before
  the position, for the lookbehind.
\<close>

function match_files :: "char option \<Rightarrow> str \<Rightarrow> str list" where
  "match_files prev [] = []"
| "match_files prev (c # cs) =
     (if c = CHR ''@'' \<and> may_start prev then
        (let g = take (group_length cs) cs
         in g # match_files (Some (last (c # g))) (drop (group_length cs) cs))
      else match_files (Some c) cs)"
  by pat_completeness auto
termination
  by (relation "measure (\<lambda>(p, s). length s)") auto

declare match_files.simps(2) [simp del]

definition hasFileReference :: "json option \<Rightarrow> bool" where
  "hasFileReference text =
     (case text of
        Some (JStr t) \<Rightarrow> list_ex (\<lambda>g. g \<noteq> []) (match_files None t)
      | _ \<Rightarrow> False)"

definition mayReferenceFile :: "json option \<Rightarrow> bool" where
  "mayReferenceFile text =
     (case text of
        Some (JStr t) \<Rightarrow>
          hasFileReference text \<or> endsWith t ''@'' \<or>
          list_ex (\<lambda>token. endsWith token ''@'') (argumentTokens t)
      | _ \<Rightarrow> False)"

text \<open>A character that can start a path: not white space, a backtick or a comma.\<close>

definition starts_path :: "str \<Rightarrow> bool" where
  "starts_path s \<longleftrightarrow> s \<noteq> [] \<and> \<not> starts_space s \<and> hd s \<noteq> backtick \<and> hd s \<noteq> CHR '',''"

lemma js_space_no_dot: "list_all (\<lambda>w. w \<noteq> [] \<and> hd w \<noteq> dot) js_space"
  by code_simp

lemma dot_not_space: "\<not> starts_space (dot # s)"
proof
  assume "starts_space (dot # s)"
  then obtain w where "w \<in> set js_space" "startsWith (dot # s) w" by (auto simp: starts_space_def list_ex_iff)
  with js_space_no_dot show False by (cases w) (auto simp: list_all_iff)
qed

lemma group_length_pos: "group_length s > 0 \<longleftrightarrow> starts_path s"
proof (cases s)
  case (Cons c cs)
  show ?thesis
  proof (cases "c = dot")
    case True
    then have "starts_path s" using Cons dot_not_space by (simp add: starts_path_def backtick_def)
    moreover have "group_length s > 0" using True Cons by (simp add: group_length_def Let_def)
    ultimately show ?thesis by simp
  next
    case False
    have "dotted_length s = 0" using False Cons by (subst dotted_length.simps) simp
    with False Cons show ?thesis
      by (auto simp: group_length_def starts_path_def ends_name_def Let_def)
  qed
next
  case Nil
  then show ?thesis by (subst group_length_def, subst dotted_length.simps) (simp add: starts_path_def)
qed

definition reference_at :: "char option \<Rightarrow> str \<Rightarrow> bool" where
  "reference_at prev s \<longleftrightarrow>
     (\<exists>p r. s = p @ CHR ''@'' # r \<and> starts_path r \<and> may_start (if p = [] then prev else Some (last p)))"

lemma reference_at_Cons:
  "reference_at prev (c # cs) \<longleftrightarrow> (c = CHR ''@'' \<and> starts_path cs \<and> may_start prev) \<or> reference_at (Some c) cs"
    (is "_ \<longleftrightarrow> ?first \<or> _")
proof
  assume "reference_at prev (c # cs)"
  then obtain p r where p: "c # cs = p @ CHR ''@'' # r" "starts_path r"
    "may_start (if p = [] then prev else Some (last p))"
    unfolding reference_at_def by blast
  show "?first \<or> reference_at (Some c) cs"
  proof (cases p)
    case (Cons d p')
    then have "cs = p' @ CHR ''@'' # r" "may_start (if p' = [] then Some c else Some (last p'))"
      using p by (auto split: if_splits)
    then show ?thesis using p(2) unfolding reference_at_def by blast
  qed (use p in auto)
next
  assume "?first \<or> reference_at (Some c) cs"
  then show "reference_at prev (c # cs)"
  proof
    assume ?first
    then show ?thesis unfolding reference_at_def by (intro exI [of _ "[]"] exI [of _ cs]) simp
  next
    assume "reference_at (Some c) cs"
    then obtain p r where "cs = p @ CHR ''@'' # r" "starts_path r"
      "may_start (if p = [] then Some c else Some (last p))"
      unfolding reference_at_def by blast
    then show ?thesis
      unfolding reference_at_def by (intro exI [of _ "c # p"] exI [of _ r]) (auto split: if_splits)
  qed
qed

lemma match_files_reference: "list_ex (\<lambda>g. g \<noteq> []) (match_files prev s) \<longleftrightarrow> reference_at prev s"
proof (induction prev s rule: match_files.induct)
  case (1 prev)
  show ?case by (simp add: reference_at_def)
next
  case (2 prev c cs)
  show ?case
  proof (cases "c = CHR ''@'' \<and> may_start prev")
    case True
    show ?thesis
    proof (cases "starts_path cs")
      case sp: True
      then have "group_length cs > 0" "cs \<noteq> []" using group_length_pos by (auto simp: starts_path_def)
      with True sp show ?thesis by (auto simp: match_files.simps reference_at_Cons Let_def)
    next
      case sp: False
      then have g: "group_length cs = 0" using group_length_pos by blast
      have "match_files prev (c # cs) = [] # match_files (Some c) cs"
        using True by (simp add: match_files.simps g)
      with sp 2(1) True show ?thesis by (simp add: g reference_at_Cons)
    qed
  next
    case False
    have "match_files prev (c # cs) = match_files (Some c) cs"
      using False by (subst match_files.simps(2)) (rule if_not_P)
    moreover have "reference_at prev (c # cs) = reference_at (Some c) cs"
      using False by (auto simp: reference_at_Cons)
    ultimately show ?thesis using 2(2) [OF False] by simp
  qed
qed

section \<open>Properties\<close>

text \<open>A text refers to a file exactly when it has an \<open>@\<close> that does not follow a word
  character or a backtick and that a path character follows.\<close>

theorem hasFileReference_iff:
  "hasFileReference (Some (JStr t)) \<longleftrightarrow>
     (\<exists>p r. t = p @ CHR ''@'' # r \<and> starts_path r \<and> may_start (if p = [] then None else Some (last p)))"
  by (simp add: hasFileReference_def match_files_reference reference_at_def)

end
