(* ===== verification/V1Guards.thy ===== *)
theory V1Guards
  imports ProviderSecrets Arguments
begin

text \<open>
  The guards of opencode 1.x sessions, one group per file of \<open>api/src\<close>:
  \<open>permission-rules.ts\<close>, \<open>config-guard.ts\<close>, \<open>upload-guard.ts\<close>,
  \<open>shell-guard.ts\<close>, \<open>download-guard.ts\<close>, \<open>terminal-guard.ts\<close>,
  \<open>v1-never.ts\<close>, \<open>v1-routes.ts\<close> and the table and composition of
  \<open>feature-guards.ts\<close>. The lemmas of the second part say, per feature, what a request
  that gets through \<open>v1Guards\<close> while the feature is disabled cannot be.
\<close>

section \<open>permission-rules.ts\<close>

definition CONFIG_PATH :: rx where
  "CONFIG_PATH = rx_seq [rx_lit ''/'', rx_opt (rx_lit ''global/''), rx_lit ''config'']"

definition has_any :: "str list \<Rightarrow> json_object \<Rightarrow> bool" where
  "has_any keys body = list_ex (has_key body) keys"

definition session_path :: "str list \<Rightarrow> rx" where
  "session_path actions = rx_seq [rx_lit ''/session/'', seg, rx_lit ''/'', rx_alts (map rx_lit actions)]"

definition PERMISSION_RULES :: "BodyRule list" where
  "PERMISSION_RULES =
     [(''PATCH'', CONFIG_PATH, has_any [''permission'', ''agent'', ''mode'', ''tools'']),
      (''POST'', rx_lit ''/session'', has_any [''permission'']),
      (''PATCH'', rx_seq [rx_lit ''/session/'', seg], has_any [''permission'']),
      (''POST'', session_path [''message'', ''prompt_async''], has_any [''tools''])]"

section \<open>config-guard.ts\<close>

definition CONFIG_BLOCKED :: "BlockedRoute list" where
  "CONFIG_BLOCKED = [(''PATCH'', CONFIG_PATH), (''POST'', rx_lit ''/mcp'')]"

definition PROJECT_PATH :: rx where
  "PROJECT_PATH = rx_seq [rx_lit ''/project/'', seg]"

definition CONFIG_RULES :: "BodyRule list" where
  "CONFIG_RULES =
     [(''PATCH'', PROJECT_PATH, has_any [''commands'']),
      (''PUT'', rx_seq [rx_lit ''/auth/'', seg],
         \<lambda>body. get_prop body ''type'' = Some (JStr ''wellknown''))]"

definition configGuard :: guard where
  "configGuard = bodyRuleGuard ''config changes are disabled'' CONFIG_RULES CONFIG_BLOCKED"

section \<open>upload-guard.ts\<close>

definition isFileUri :: "json option \<Rightarrow> bool" where
  "isFileUri value = (case value of Some (JStr s) \<Rightarrow> startsWith (lower s) ''file:'' | _ \<Rightarrow> False)"

definition isResource :: "json option \<Rightarrow> bool" where
  "isResource source =
     (case source of Some (JObj s) \<Rightarrow> get_prop s ''type'' = Some (JStr ''resource'') | _ \<Rightarrow> False)"

definition isUploadPart :: "json \<Rightarrow> bool" where
  "isUploadPart part =
     (case part of
        JObj p \<Rightarrow>
          if get_prop p ''type'' \<noteq> Some (JStr ''file'') then False
          else if isResource (get_prop p ''source'') then False
          else \<not> isFileUri (get_prop p ''url'')
      | _ \<Rightarrow> False)"

text \<open>\<open>Array.isArray(v) && v.some(P)\<close>.\<close>

definition array_some :: "(json \<Rightarrow> bool) \<Rightarrow> json option \<Rightarrow> bool" where
  "array_some P v = (case v of Some (JArr js) \<Rightarrow> list_ex P js | _ \<Rightarrow> False)"

text \<open>\<open>[body.files, isObject(body.prompt) ? body.prompt.files : undefined]\<close>.\<close>

definition file_lists :: "json_object \<Rightarrow> json option list" where
  "file_lists body =
     [get_prop body ''files'',
      (case get_prop body ''prompt'' of Some (JObj p) \<Rightarrow> get_prop p ''files'' | _ \<Rightarrow> None)]"

definition file_not_uri :: "json \<Rightarrow> bool" where
  "file_not_uri file = (case file of JObj f \<Rightarrow> \<not> isFileUri (get_prop f ''uri'') | _ \<Rightarrow> True)"

definition data_icon :: "json_object \<Rightarrow> bool" where
  "data_icon body =
     (case get_prop body ''icon'' of
        Some (JObj icon) \<Rightarrow>
          (case get_prop icon ''override'' of Some (JStr s) \<Rightarrow> startsWith (lower s) ''data:'' | _ \<Rightarrow> False)
      | _ \<Rightarrow> False)"

definition API_PROMPT_PATH :: rx where
  "API_PROMPT_PATH = rx_seq [rx_lit ''/api/session/'', seg, rx_lit ''/prompt'']"

definition UPLOAD_RULES :: "BodyRule list" where
  "UPLOAD_RULES =
     [(''POST'', session_path [''message'', ''prompt_async'', ''command''],
         \<lambda>body. array_some isUploadPart (get_prop body ''parts'')),
      (''POST'', API_PROMPT_PATH, \<lambda>body. list_ex (array_some file_not_uri) (file_lists body)),
      (''PATCH'', PROJECT_PATH, data_icon)]"

definition RAW_PART_ROUTES :: "BlockedRoute list" where
  "RAW_PART_ROUTES =
     [(''POST'', rx_lit ''/sync/replay''),
      (''PATCH'', rx_seq [rx_lit ''/session/'', seg, rx_lit ''/message/'', seg, rx_lit ''/part/'', seg])]"

definition uploadGuard :: guard where
  "uploadGuard = bodyRuleGuard ''uploads are disabled'' UPLOAD_RULES RAW_PART_ROUTES"

section \<open>shell-guard.ts\<close>

definition nonBlank :: "json option \<Rightarrow> bool" where
  "nonBlank value = (case value of Some (JStr s) \<Rightarrow> trim s \<noteq> [] | _ \<Rightarrow> False)"

definition SHELL_CONFIG_KEYS :: "str list" where
  "SHELL_CONFIG_KEYS = [''command'', ''mcp'', ''shell'', ''plugin'', ''formatter'', ''lsp'']"

definition SHELL_RULES :: "BodyRule list" where
  "SHELL_RULES =
     [(''POST'', session_path [''command''], \<lambda>body. mayRunShell (get_prop body ''arguments'')),
      (''POST'', rx_lit ''/experimental/worktree'', \<lambda>body. nonBlank (get_prop body ''startCommand'')),
      (''PATCH'', PROJECT_PATH,
         \<lambda>body. case get_prop body ''commands'' of Some (JObj cs) \<Rightarrow> nonBlank (get_prop cs ''start'') | _ \<Rightarrow> False),
      (''PATCH'', CONFIG_PATH, has_any SHELL_CONFIG_KEYS)] @ PERMISSION_RULES"

definition SHELL_BLOCKED :: "BlockedRoute list" where
  "SHELL_BLOCKED = [(''POST'', session_path [''shell'']), (''POST'', rx_lit ''/mcp'')]"

definition shellGuard :: guard where
  "shellGuard = bodyRuleGuard ''shell commands are disabled'' SHELL_RULES SHELL_BLOCKED"

section \<open>download-guard.ts\<close>

definition isDownloadPath :: "str \<Rightarrow> bool" where
  "isDownloadPath rest =
     (case canonicalPath rest of
        None \<Rightarrow> True
      | Some path \<Rightarrow>
          let trimmed = strip_trailing_slashes path
          in trimmed = ''/file/content'' \<or> trimmed = ''/find'' \<or> startsWith path ''/api/fs/read/'')"

definition isFileUrl :: "HostParser \<Rightarrow> json option \<Rightarrow> bool" where
  "isFileUrl hp value = (case value of Some (JStr s) \<Rightarrow> is_file_url hp s | _ \<Rightarrow> False)"

fun hasFileToken :: "json \<Rightarrow> bool" where
  "hasFileToken (JStr s) = includes_str (lower s) ''{file:''"
| "hasFileToken (JArr js) = list_ex hasFileToken js"
| "hasFileToken (JObj ps) = list_ex (\<lambda>(key, item). includes_str (lower key) ''{file:'' \<or> hasFileToken item) ps"
| "hasFileToken _ = False"

definition isFileReadPart :: "HostParser \<Rightarrow> json \<Rightarrow> bool" where
  "isFileReadPart hp part =
     (case part of
        JObj p \<Rightarrow>
          if get_prop p ''type'' = Some (JStr ''subtask'') then hasFileReference (get_prop p ''prompt'')
          else if get_prop p ''type'' \<noteq> Some (JStr ''file'') then False
          else if isResource (get_prop p ''source'') then False
          else isFileUrl hp (get_prop p ''url'')
      | _ \<Rightarrow> False)"

definition hasFileReadPart :: "HostParser \<Rightarrow> json_object \<Rightarrow> bool" where
  "hasFileReadPart hp body = array_some (isFileReadPart hp) (get_prop body ''parts'')"

definition file_by_url :: "HostParser \<Rightarrow> json \<Rightarrow> bool" where
  "file_by_url hp file = (case file of JObj f \<Rightarrow> isFileUrl hp (get_prop f ''uri'') | _ \<Rightarrow> False)"

definition DOWNLOAD_RULES :: "HostParser \<Rightarrow> BodyRule list" where
  "DOWNLOAD_RULES hp =
     [(''POST'', session_path [''message'', ''prompt_async''], hasFileReadPart hp),
      (''POST'', session_path [''command''],
         \<lambda>body. hasFileReadPart hp body \<or> mayReferenceFile (get_prop body ''arguments'')),
      (''POST'', API_PROMPT_PATH, \<lambda>body. list_ex (array_some (file_by_url hp)) (file_lists body)),
      (''PATCH'', CONFIG_PATH, \<lambda>body. has_key body ''instructions'' \<or> hasFileToken (JObj body))] @
     PERMISSION_RULES"

definition downloadGuard :: "HostParser \<Rightarrow> guard" where
  "downloadGuard hp c =
     (if rq_method c \<noteq> ''GET'' \<and> rq_method c \<noteq> ''HEAD''
      then bodyRuleGuard ''file downloads are disabled'' (DOWNLOAD_RULES hp) RAW_PART_ROUTES c
      else if isDownloadPath (proxyRest (rq_path c) (rq_sessionId c))
      then Inl (TextReply 403 ''file downloads are disabled'')
      else Inr c)"

section \<open>terminal-guard.ts\<close>

text \<open>\<open>/^\/(api\/)?pty(\/|$)/\<close>: the path ends there or goes on with a slash.\<close>

definition TERMINAL_PATH :: rx where
  "TERMINAL_PATH = rx_seq [rx_lit ''/'', rx_opt (rx_lit ''api/''), rx_lit ''pty'',
     rx_opt (RSeq (rchar slash) (RStar (RSet (\<lambda>_. True))))]"

definition isTerminalPath :: "str \<Rightarrow> bool" where
  "isTerminalPath rest =
     (case canonicalPath rest of None \<Rightarrow> True | Some path \<Rightarrow> rx_test TERMINAL_PATH path)"

definition terminalGuard :: guard where
  "terminalGuard c =
     (if isTerminalPath (proxyRest (rq_path c) (rq_sessionId c))
      then Inl (TextReply 403 ''the terminal is disabled'') else Inr c)"

section \<open>v1-never.ts\<close>

text \<open>\<open>(\/.*)?\<close>.\<close>

definition and_below :: rx where
  "and_below = rx_opt (RSeq (rchar slash) (RStar (RSet not_newline)))"

definition NEVER :: "(str option \<times> rx) list" where
  "NEVER =
     [(Some ''POST'', rx_lit ''/vcs/apply''),
      (Some ''POST'', rx_lit ''/global/upgrade''),
      (None, rx_seq [rx_lit ''/tui'', and_below]),
      (Some ''POST'', rx_lit ''/log''),
      (Some ''POST'', rx_seq [rx_lit ''/sync/'', rx_alts [rx_lit ''start'', rx_lit ''steal'', rx_lit ''history'']]),
      (Some ''POST'', rx_lit ''/experimental/console/switch''),
      (Some ''POST'', rx_seq [rx_lit ''/experimental/workspace'', and_below]),
      (Some ''DELETE'', rx_seq [rx_lit ''/experimental/workspace'', and_below]),
      (Some ''POST'', rx_lit ''/experimental/control-plane/move-session'')]"

definition read_method :: "str \<Rightarrow> str" where
  "read_method m = (if m = ''HEAD'' then ''GET'' else m)"

definition not_available :: response where
  "not_available = TextReply 403 ''this opencode route is not available through opencode-rc''"

definition v1NeverGuard :: guard where
  "v1NeverGuard c =
     (case canonicalPath (proxyRest (rq_path c) (rq_sessionId c)) of
        None \<Rightarrow> Inl (TextReply 400 ''unsupported characters in path'')
      | Some path \<Rightarrow>
          let bare = strip_trailing_slashes path;
              method = read_method (rq_method c)
          in if list_ex (\<lambda>(m, p). (m = None \<or> m = Some method) \<and> rx_test p bare) NEVER
             then Inl not_available else Inr c)"

section \<open>v1-routes.ts\<close>

definition V1_API :: "(str \<times> rx) list" where
  "V1_API = map (\<lambda>(method, path). (method, templateRegex path)) V1_API_ROUTES"

definition V2_ONLY_NON_API :: "(str \<times> rx) list" where
  "V2_ONLY_NON_API =
     map (\<lambda>(method, path, _). (method, templateRegex path))
       (filter (\<lambda>(_, path, _). \<not> startsWith path ''/api/'') V2_ROUTES)"

definition v1ApiGuard :: guard where
  "v1ApiGuard c =
     (case canonicalPath (proxyRest (rq_path c) (rq_sessionId c)) of
        None \<Rightarrow> Inl (TextReply 400 ''unsupported characters in path'')
      | Some path \<Rightarrow>
          let method = read_method (rq_method c);
              bare = strip_trailing_slashes path
          in if path \<noteq> ''/api'' \<and> \<not> startsWith path ''/api/'' then
               (if \<not> list_ex (\<lambda>(m, re). m = method \<and> rx_test re bare) V2_ONLY_NON_API then Inr c
                else Inl not_available)
             else if method = ''OPTIONS'' \<or> list_ex (\<lambda>(m, re). m = method \<and> rx_test re bare) V1_API
             then Inr c else Inl not_available)"

section \<open>feature-guards.ts\<close>

definition SHARE_RULES :: "BodyRule list" where
  "SHARE_RULES = [(''PATCH'', CONFIG_PATH, has_any [''share'', ''autoshare'', ''enterprise''])]"

definition SHARE_BLOCKED :: "BlockedRoute list" where
  "SHARE_BLOCKED = [(''POST'', session_path [''share''])]"

definition MCP_BLOCKED :: "BlockedRoute list" where
  "MCP_BLOCKED =
     [(''POST'', rx_seq [rx_lit ''/mcp/'', seg, rx_lit ''/'', rx_alts [rx_lit ''connect'', rx_lit ''disconnect'']]),
      (''POST'', rx_seq [rx_lit ''/mcp/'', seg, rx_lit ''/auth'', rx_opt (rx_alts [rx_lit ''/callback'', rx_lit ''/authenticate''])]),
      (''DELETE'', rx_seq [rx_lit ''/mcp/'', seg, rx_lit ''/auth''])]"

fun FEATURE_GUARDS :: "HostParser \<Rightarrow> FeatureName \<Rightarrow> guard option" where
  "FEATURE_GUARDS hp Uploads = Some uploadGuard"
| "FEATURE_GUARDS hp Downloads = Some (downloadGuard hp)"
| "FEATURE_GUARDS hp Terminal = Some terminalGuard"
| "FEATURE_GUARDS hp Shell = Some shellGuard"
| "FEATURE_GUARDS hp Export = None"
| "FEATURE_GUARDS hp Share = Some (bodyRuleGuard ''sharing is disabled'' SHARE_RULES SHARE_BLOCKED)"
| "FEATURE_GUARDS hp Config = Some configGuard"
| "FEATURE_GUARDS hp Mcp = Some (blockGuard ''MCP changes are disabled'' MCP_BLOCKED)"

definition active_guards :: "(FeatureName \<Rightarrow> guard option) \<Rightarrow> RcConfig \<Rightarrow> guard list" where
  "active_guards guards config =
     List.map_filter guards (filter (\<lambda>name. \<not> features config name) FEATURES)"

definition v1Guards :: "(guard list \<Rightarrow> guard) \<Rightarrow> HostParser \<Rightarrow> (FeatureName \<Rightarrow> guard option) \<Rightarrow> RcConfig \<Rightarrow> guard" where
  "v1Guards ev hp guards config =
     ev ([plainPath hp, v1ApiGuard, v1NeverGuard, providerSecretsGuard] @ active_guards guards config)"

section \<open>Every guard keeps the request\<close>

lemma terminalGuard_passes:
  "terminalGuard c = Inr c' \<Longrightarrow> c' = c \<and> \<not> isTerminalPath (proxyRest (rq_path c) (rq_sessionId c))"
  by (simp add: terminalGuard_def split: if_splits)

lemma v1NeverGuard_passes:
  assumes "v1NeverGuard c = Inr c'"
  shows "c' = c \<and> (\<exists>path. canonicalPath (proxyRest (rq_path c) (rq_sessionId c)) = Some path \<and>
    \<not> list_ex (\<lambda>(m, p). (m = None \<or> m = Some (read_method (rq_method c))) \<and> rx_test p (strip_trailing_slashes path)) NEVER)"
  using assms by (auto simp: v1NeverGuard_def Let_def split: option.splits if_splits)

lemma v1ApiGuard_passes:
  assumes "v1ApiGuard c = Inr c'"
  shows "c' = c \<and> (\<exists>path. canonicalPath (proxyRest (rq_path c) (rq_sessionId c)) = Some path \<and>
    (if path = ''/api'' \<or> startsWith path ''/api/''
     then read_method (rq_method c) = ''OPTIONS'' \<or>
       list_ex (\<lambda>(m, re). m = read_method (rq_method c) \<and> rx_test re (strip_trailing_slashes path)) V1_API
     else \<not> list_ex (\<lambda>(m, re). m = read_method (rq_method c) \<and> rx_test re (strip_trailing_slashes path)) V2_ONLY_NON_API))"
  using assms by (auto simp: v1ApiGuard_def Let_def simp del: startsWith_Cons split: option.splits if_splits)

lemma downloadGuard_passes:
  assumes "downloadGuard hp c = Inr c'"
  shows "same_request c c' \<and>
    (if rq_method c = ''GET'' \<or> rq_method c = ''HEAD''
     then \<not> isDownloadPath (proxyRest (rq_path c) (rq_sessionId c))
     else \<not> blocked_route RAW_PART_ROUTES c' \<and> \<not> breaks_rule (DOWNLOAD_RULES hp) c')"
  using assms bodyRuleGuard_passes [of "''file downloads are disabled''" "DOWNLOAD_RULES hp" RAW_PART_ROUTES c c']
    bodyRuleGuard_keeps [of "''file downloads are disabled''" "DOWNLOAD_RULES hp" RAW_PART_ROUTES c c']
  by (auto simp: downloadGuard_def split: if_splits)

interpretation terminal: request_guard terminalGuard
  by unfold_locales (metis terminalGuard_passes same_request_refl)

interpretation never: request_guard v1NeverGuard
  by unfold_locales (metis v1NeverGuard_passes same_request_refl)

interpretation api: request_guard v1ApiGuard
  by unfold_locales (metis v1ApiGuard_passes same_request_refl)

interpretation download: request_guard "downloadGuard hp" for hp
  by unfold_locales (use downloadGuard_passes in blast)

lemma FEATURE_GUARDS_keep: "FEATURE_GUARDS hp f = Some g \<Longrightarrow> g c = Inr c' \<Longrightarrow> same_request c c'"
  by (cases f) (auto simp: uploadGuard_def shellGuard_def configGuard_def
      dest: body_rule.keeps block.keeps terminal.keeps download.keeps)

section \<open>What gets through\<close>

lemma set_active_guards:
  "g \<in> set (active_guards guards config) \<longleftrightarrow> (\<exists>f. \<not> features config f \<and> guards f = Some g)"
  using set_FEATURES by (auto simp: active_guards_def List.map_filter_def image_iff)

context hono_every
begin

text \<open>
  A request that the guards of a 1.x session let through is the request that came in, has a plain
  path when it may write, and has passed each of the guards that are on, on the same request.
\<close>

lemma v1Guards_keeps:
  assumes "v1Guards ev hp (FEATURE_GUARDS hp) config c = Inr c'"
  shows "same_request c c'"
proof (rule every_keeps)
  show "ev ([plainPath hp, v1ApiGuard, v1NeverGuard, providerSecretsGuard] @
      active_guards (FEATURE_GUARDS hp) config) c = Inr c'"
    using assms by (simp add: v1Guards_def)
  show "\<forall>g \<in> set ([plainPath hp, v1ApiGuard, v1NeverGuard, providerSecretsGuard] @
      active_guards (FEATURE_GUARDS hp) config). \<forall>c c'. g c = Inr c' \<longrightarrow> same_request c c'"
    using FEATURE_GUARDS_keep plain.keeps api.keeps never.keeps secrets.keeps
    by (auto simp: set_active_guards plainPath_def)
qed

lemma v1Guards_passed:
  assumes "v1Guards ev hp (FEATURE_GUARDS hp) config c = Inr c'"
    and "g \<in> {plainPath hp, v1ApiGuard, v1NeverGuard, providerSecretsGuard} \<or>
      (\<exists>f. \<not> features config f \<and> FEATURE_GUARDS hp f = Some g)"
  shows "\<exists>d d'. same_request c d \<and> g d = Inr d' \<and> same_request d' c'"
proof (rule every_passed)
  show "ev ([plainPath hp, v1ApiGuard, v1NeverGuard, providerSecretsGuard] @
      active_guards (FEATURE_GUARDS hp) config) c = Inr c'"
    using assms by (simp add: v1Guards_def)
  show "\<forall>g \<in> set ([plainPath hp, v1ApiGuard, v1NeverGuard, providerSecretsGuard] @
      active_guards (FEATURE_GUARDS hp) config). \<forall>c c'. g c = Inr c' \<longrightarrow> same_request c c'"
    using FEATURE_GUARDS_keep plain.keeps api.keeps never.keeps secrets.keeps
    by (auto simp: set_active_guards plainPath_def)
  show "g \<in> set ([plainPath hp, v1ApiGuard, v1NeverGuard, providerSecretsGuard] @
      active_guards (FEATURE_GUARDS hp) config)"
    using assms(2) by (auto simp: set_active_guards)
qed

end

text \<open>The same facts of the final request, per guard.\<close>

lemma breaks_rule_same: "same_request c c' \<Longrightarrow> breaks_rule rules c' = breaks_rule rules c"
proof -
  assume s: "same_request c c'"
  then have "forwarded_body c' = forwarded_body c" by (simp add: same_request_def)
  then show ?thesis unfolding breaks_rule_def matched_rules_same [OF s] by simp
qed

lemma proxied_same: "same_request c c' \<Longrightarrow>
    proxyRest (rq_path c') (rq_sessionId c') = proxyRest (rq_path c) (rq_sessionId c) \<and> rq_method c' = rq_method c"
  by (simp add: same_request_def)

definition body_guard_of :: "FeatureName \<Rightarrow> (BodyRule list \<times> BlockedRoute list) option" where
  "body_guard_of f =
     (case f of
        Uploads \<Rightarrow> Some (UPLOAD_RULES, RAW_PART_ROUTES)
      | Shell \<Rightarrow> Some (SHELL_RULES, SHELL_BLOCKED)
      | Share \<Rightarrow> Some (SHARE_RULES, SHARE_BLOCKED)
      | Config \<Rightarrow> Some (CONFIG_RULES, CONFIG_BLOCKED)
      | Mcp \<Rightarrow> Some ([], MCP_BLOCKED)
      | _ \<Rightarrow> None)"

lemma bodyRuleGuard_no_rules: "bodyRuleGuard message [] blocked = blockGuard message blocked"
  by (auto simp: fun_eq_iff bodyRuleGuard_def blockGuard_def matched_rules_def Let_def)

lemma body_guard_of_guard:
  "body_guard_of f = Some (rules, blocked) \<Longrightarrow>
     \<exists>message. FEATURE_GUARDS hp f = Some (bodyRuleGuard message rules blocked)"
  by (cases f) (auto simp: body_guard_of_def uploadGuard_def shellGuard_def configGuard_def bodyRuleGuard_no_rules)

lemma v1Guards_body_rules:
  assumes "hono_every ev" "v1Guards ev hp (FEATURE_GUARDS hp) config c = Inr c'"
    "\<not> features config f" "body_guard_of f = Some (rules, blocked)"
  shows "\<not> blocked_route blocked c' \<and> \<not> breaks_rule rules c'"
proof -
  obtain message where "FEATURE_GUARDS hp f = Some (bodyRuleGuard message rules blocked)"
    using body_guard_of_guard assms(4) by blast
  then obtain d d' where "bodyRuleGuard message rules blocked d = Inr d'" "same_request d' c'"
    using hono_every.v1Guards_passed [OF assms(1,2)] assms(3) by blast
  then show ?thesis
    using bodyRuleGuard_passes blocked_route_same breaks_rule_same by blast
qed

lemma v1Guards_downloads:
  assumes "hono_every ev" "v1Guards ev hp (FEATURE_GUARDS hp) config c = Inr c'" "\<not> features config Downloads"
  shows "if rq_method c' = ''GET'' \<or> rq_method c' = ''HEAD''
     then \<not> isDownloadPath (proxyRest (rq_path c') (rq_sessionId c'))
     else \<not> blocked_route RAW_PART_ROUTES c' \<and> \<not> breaks_rule (DOWNLOAD_RULES hp) c'"
proof -
  obtain d d' where d: "downloadGuard hp d = Inr d'" "same_request d' c'"
    using hono_every.v1Guards_passed [OF assms(1,2), of "downloadGuard hp"] assms(3)
    by (metis FEATURE_GUARDS.simps(2))
  have s: "same_request d d'" using d(1) by (rule download.keeps)
  show ?thesis
    using downloadGuard_passes [OF d(1)] proxied_same [OF s] proxied_same [OF d(2)]
      blocked_route_same [OF d(2)] breaks_rule_same [OF d(2)]
    by (simp split: if_splits)
qed

lemma v1Guards_terminal:
  assumes "hono_every ev" "v1Guards ev hp (FEATURE_GUARDS hp) config c = Inr c'" "\<not> features config Terminal"
  shows "\<not> isTerminalPath (proxyRest (rq_path c') (rq_sessionId c'))"
proof -
  obtain d d' where "terminalGuard d = Inr d'" "same_request d' c'"
    using hono_every.v1Guards_passed [OF assms(1,2), of terminalGuard] assms(3)
    by (metis FEATURE_GUARDS.simps(3))
  then show ?thesis using terminalGuard_passes proxied_same by metis
qed

lemma v1Guards_plain:
  assumes "hono_every ev" "v1Guards ev hp (FEATURE_GUARDS hp) config c = Inr c'"
    "rq_method c' \<noteq> ''GET''" "rq_method c' \<noteq> ''HEAD''"
  shows "\<exists>p. rawPath hp (rq_url c') = Some p \<and> isPlainPath p"
proof -
  obtain d d' where d: "plainPath hp d = Inr d'" "same_request d' c'"
    using hono_every.v1Guards_passed [OF assms(1,2), of "plainPath hp"] by blast
  have "rq_method c' = rq_method d'" "rq_url c' = rq_url d'" using d(2) by (simp_all add: same_request_def)
  then show ?thesis
    using plainPathGuard_passes [OF d(1) [unfolded plainPath_def]] assms(3,4) by auto
qed

section \<open>Reading the rules\<close>

lemma lower_rx_seg [simp]: "lower_rx seg"
proof -
  have "byte (upper_char c) = 47 \<longleftrightarrow> byte c = 47" "byte (lower_char c) = 47 \<longleftrightarrow> byte c = 47" for c
    by (auto simp: byte_upper_char byte_lower_char split: if_splits)
  then have "upper_char c = slash \<longleftrightarrow> lower_char c = slash" for c
    by (metis byte_inject byte_slash)
  then show ?thesis by (simp add: seg_def)
qed

lemma lower_rx_session_path: "list_all (\<lambda>a. lower_rx (rx_lit a)) actions \<Longrightarrow> lower_rx (session_path actions)"
  by (simp add: session_path_def lower_rx_lit byte_lit list_all_iff del: rx_lit.simps rx_seq.simps)

lemma in_session_path:
  assumes "sid \<noteq> []" "slash \<notin> set sid" "action \<in> set actions"
  shows "in_lang (session_path actions) (''/session/'' @ sid @ ''/'' @ action)"
proof -
  have "in_lang (rx_seq [seg, rx_lit ''/'', rx_alts (map rx_lit actions)]) (sid @ ''/'' @ action)"
    unfolding in_lang_seq_Cons [of seg] rx_lang in_lang_seg using assms
    by (intro exI [of _ sid] exI [of _ "''/'' @ action"]) auto
  then show ?thesis unfolding session_path_def rx_lang by simp
qed

text \<open>The route of a request and its JSON body, as the rules see them.\<close>

definition posts :: "ctx \<Rightarrow> str \<Rightarrow> json_object \<Rightarrow> bool" where
  "posts c action body \<longleftrightarrow>
     rq_method c = ''POST'' \<and> parse_body (forwarded_body c) = JsonOf (Some (JObj body)) \<and>
     (\<exists>sid. sid \<noteq> [] \<and> slash \<notin> set sid \<and> lower (route_rest c) = ''/session/'' @ sid @ ''/'' @ action)"

lemma posts_matches:
  assumes "posts c action body" "action \<in> set actions" "list_all (\<lambda>a. lower_rx (rx_lit a)) actions"
    "(''POST'', session_path actions, denies) \<in> set rules" "\<not> breaks_rule rules c"
  shows "\<not> denies body"
proof -
  from assms(1) obtain sid where sid: "sid \<noteq> []" "slash \<notin> set sid"
    "lower (route_rest c) = ''/session/'' @ sid @ ''/'' @ action" unfolding posts_def by blast
  have "rx_test (rx_nocase (session_path actions)) (route_rest c)"
    unfolding rx_test_nocase [OF lower_rx_session_path [OF assms(3)]] sid(3)
    unfolding rx_test_iff by (rule in_session_path [OF sid(1,2) assms(2)])
  then have "(''POST'', session_path actions, denies) \<in> set (matched_rules rules c)"
    using assms(1,4) by (simp add: matched_rules_def posts_def)
  then show ?thesis
    using assms(1,5) by (force simp: breaks_rule_def posts_def list_ex_iff)
qed

lemma lower_actions:
  "list_all (\<lambda>a. lower_rx (rx_lit a)) [''message'', ''prompt_async'', ''command'']"
  "list_all (\<lambda>a. lower_rx (rx_lit a)) [''message'', ''prompt_async'']"
  "list_all (\<lambda>a. lower_rx (rx_lit a)) [''command'']"
  "list_all (\<lambda>a. lower_rx (rx_lit a)) [''shell'']"
  by (simp_all add: lower_rx_lit byte_lit del: rx_lit.simps)

text \<open>The terminal paths, segment by segment.\<close>

lemma terminal_rx:
  "rx_test TERMINAL_PATH (slash # p) \<longleftrightarrow>
     (\<exists>rest. split_on slash p = ''pty'' # rest \<or> split_on slash p = ''api'' # ''pty'' # rest)"
proof -
  have tail: "in_lang (rx_opt (RSeq (rchar slash) (RStar (RSet (\<lambda>_. True))))) r \<longleftrightarrow> r = [] \<or> hd r = slash" for r
    by (cases r) (auto simp: in_lang_Seq in_lang_star_set list_all_iff)
  have pre: "(\<exists>r. p = w @ r \<and> (r = [] \<or> hd r = slash)) \<longleftrightarrow> (\<exists>rest. split_on slash p = w # rest)"
    if "slash \<notin> set w" for w p
  proof
    assume "\<exists>r. p = w @ r \<and> (r = [] \<or> hd r = slash)"
    then obtain r where r: "p = w @ r" "r = [] \<or> hd r = slash" by blast
    then show "\<exists>rest. split_on slash p = w # rest"
      using that by (cases r) (auto simp: split_on_single split_on_append)
  next
    assume "\<exists>rest. split_on slash p = w # rest"
    then obtain rest where "split_on slash p = w # rest" by blast
    then have "p = join [slash] (w # rest)" using join_split_on [of slash p] by simp
    then show "\<exists>r. p = w @ r \<and> (r = [] \<or> hd r = slash)"
      by (cases rest) auto
  qed
  have pty: "(\<exists>r. q = ''pty'' @ r \<and> (r = [] \<or> hd r = slash)) \<longleftrightarrow> (\<exists>rest. split_on slash q = ''pty'' # rest)" for q
    by (rule pre) simp
  have "rx_test TERMINAL_PATH (slash # p) \<longleftrightarrow>
      (\<exists>r. p = ''pty'' @ r \<and> (r = [] \<or> hd r = slash)) \<or>
      (\<exists>q. p = ''api/'' @ q \<and> (\<exists>r. q = ''pty'' @ r \<and> (r = [] \<or> hd r = slash)))"
    unfolding rx_test_iff TERMINAL_PATH_def rx_lang tail startsWith_iff
    by (auto simp: startsWith_iff)
  also have "\<dots> \<longleftrightarrow> (\<exists>rest. split_on slash p = ''pty'' # rest) \<or>
      (\<exists>q. p = ''api'' @ slash # q \<and> (\<exists>rest. split_on slash q = ''pty'' # rest))"
    unfolding pty by simp
  also have "(\<exists>q. p = ''api'' @ slash # q \<and> (\<exists>rest. split_on slash q = ''pty'' # rest)) \<longleftrightarrow>
      (\<exists>rest. split_on slash p = ''api'' # ''pty'' # rest)"
  proof
    assume "\<exists>q. p = ''api'' @ slash # q \<and> (\<exists>rest. split_on slash q = ''pty'' # rest)"
    then obtain q rest where q: "p = ''api'' @ slash # q" "split_on slash q = ''pty'' # rest" by blast
    have "split_on slash (''api'' @ slash # q) = ''api'' # split_on slash q" by (rule split_on_append) simp
    with q show "\<exists>rest. split_on slash p = ''api'' # ''pty'' # rest" by simp
  next
    assume "\<exists>rest. split_on slash p = ''api'' # ''pty'' # rest"
    then obtain rest where r: "split_on slash p = ''api'' # ''pty'' # rest" by blast
    then have "p = ''api'' @ slash # join [slash] (''pty'' # rest)"
      using join_split_on [of slash p] by simp
    moreover from this have "split_on slash p = ''api'' # split_on slash (join [slash] (''pty'' # rest))"
      using split_on_append [of slash "''api''" "join [slash] (''pty'' # rest)"] by simp
    ultimately show "\<exists>q. p = ''api'' @ slash # q \<and> (\<exists>rest. split_on slash q = ''pty'' # rest)"
      using r by (metis list.inject)
  qed
  finally show ?thesis by blast
qed

text \<open>A prefix that ends at a segment boundary.\<close>

lemma segment_prefix:
  assumes "slash \<notin> set w"
  shows "(\<exists>r. p = w @ r \<and> (r = [] \<or> hd r = slash)) \<longleftrightarrow> (\<exists>rest. split_on slash p = w # rest)"
proof
  assume "\<exists>r. p = w @ r \<and> (r = [] \<or> hd r = slash)"
  then obtain r where "p = w @ r" "r = [] \<or> hd r = slash" by blast
  then show "\<exists>rest. split_on slash p = w # rest"
    using assms by (cases r) (auto simp: split_on_single split_on_append)
next
  assume "\<exists>rest. split_on slash p = w # rest"
  then obtain rest where "split_on slash p = w # rest" by blast
  then have "p = join [slash] (w # rest)" using join_split_on [of slash p] by simp
  then show "\<exists>r. p = w @ r \<and> (r = [] \<or> hd r = slash)" by (cases rest) auto
qed

lemma in_and_below: "list_all not_newline r \<Longrightarrow> in_lang and_below r \<longleftrightarrow> r = [] \<or> hd r = slash"
  by (cases r) (auto simp: and_below_def in_lang_Seq in_lang_star_set)

lemma never_below:
  assumes "list_all not_newline p"
  shows "rx_test (rx_seq [rx_lit w, and_below]) p \<longleftrightarrow> (\<exists>r. p = w @ r \<and> (r = [] \<or> hd r = slash))"
proof -
  have "rx_test (rx_seq [rx_lit w, and_below]) p \<longleftrightarrow> (\<exists>r. p = w @ r \<and> in_lang and_below r)"
    unfolding rx_test_iff rx_lang startsWith_iff by auto
  also have "\<dots> \<longleftrightarrow> (\<exists>r. p = w @ r \<and> (r = [] \<or> hd r = slash))"
    using in_and_below assms by auto
  finally show ?thesis .
qed

section \<open>The rewrite of the response\<close>

lemma bodyRuleGuard_rewrite: "bodyRuleGuard message rules blocked c = Inr c' \<Longrightarrow> cv_rewriteJson c' = cv_rewriteJson c"
  by (auto simp: bodyRuleGuard_def Let_def dest: jsonBody_rewrite
      split: if_splits prod.splits JsonBody.splits option.splits json.splits)

lemma FEATURE_GUARDS_rewrite:
  "FEATURE_GUARDS hp f = Some g \<Longrightarrow> g c = Inr c' \<Longrightarrow> cv_rewriteJson c' = cv_rewriteJson c"
  by (cases f) (auto simp: uploadGuard_def shellGuard_def configGuard_def downloadGuard_def terminalGuard_def
      blockGuard_def dest: bodyRuleGuard_rewrite split: if_splits)

context hono_every
begin

lemma v1Guards_split:
  assumes "v1Guards ev hp (FEATURE_GUARDS hp) config c = Inr c'"
  obtains d e where "same_request c d" "providerSecretsGuard d = Inr e" "same_request e c'"
    "cv_rewriteJson c' = cv_rewriteJson e"
proof -
  let ?act = "active_guards (FEATURE_GUARDS hp) config"
  have "ev ([plainPath hp, v1ApiGuard, v1NeverGuard] @ providerSecretsGuard # ?act) c = Inr c'"
    using assms by (simp add: v1Guards_def)
  then obtain d e where d: "ev [plainPath hp, v1ApiGuard, v1NeverGuard] c = Inr d"
    "providerSecretsGuard d = Inr e" "ev ?act e = Inr c'"
    unfolding every_append every_Cons [of providerSecretsGuard] by (auto simp: andThen_eq_Inr)
  have "same_request c d"
    using d(1) plain.keeps api.keeps never.keeps
    by (intro every_keeps [OF _ d(1)]) (auto simp: plainPath_def)
  moreover have "same_request e c'"
    by (rule every_keeps [OF _ d(3)]) (use FEATURE_GUARDS_keep in \<open>auto simp: set_active_guards\<close>)
  moreover have "cv_rewriteJson c' = cv_rewriteJson e"
    by (rule every_invariant [OF _ refl d(3)])
      (use FEATURE_GUARDS_rewrite in \<open>auto simp: set_active_guards\<close>)
  ultimately show ?thesis using that d(2) by blast
qed

end

end
