(* ===== verification/Query.thy ===== *)
theory Query
  imports Middleware
begin

text \<open>
  The query of a request (\<open>URLSearchParams\<close>: the urlencoded parser and serializer of the
  URL standard) and \<open>upstreamUrl\<close> of \<open>api/src/proxy.ts\<close>. The main results are the
  round trip \<open>form_parse_serialize\<close> and that the access token of a WebSocket request is
  the one parameter that is not forwarded.
\<close>

section \<open>Percent-decoding\<close>

text \<open>A \<open>%\<close> that two hexadecimal digits do not follow stays.\<close>

function percent_decode :: "str \<Rightarrow> str" where
  "percent_decode [] = []"
| "percent_decode (c # cs) =
     (case take_escape (c # cs) of
        Some (d, r) \<Rightarrow> d # percent_decode r
      | None \<Rightarrow> c # percent_decode cs)"
  by pat_completeness auto
termination
  by (relation "measure length") (auto dest: take_escape_length)

declare percent_decode.simps(2) [simp del]

text \<open>The query percent-encode set of special URLs.\<close>

definition query_encoded :: "char \<Rightarrow> bool" where
  "query_encoded c \<longleftrightarrow> byte c \<le> 32 \<or> byte c \<in> {34, 35, 39, 60, 62} \<or> byte c > 126"

definition query_encode :: "str \<Rightarrow> str" where
  "query_encode s = concat (map (\<lambda>c. if query_encoded c then percent_encode_char c else [c]) s)"

text \<open>\<open>new URL(url).search\<close>: empty when there is no query or an empty one.\<close>

definition url_search_of :: "str \<Rightarrow> str" where
  "url_search_of url =
     (let t = takeWhile (\<lambda>c. c \<noteq> CHR ''#'') (url_strip url);
          q = tl (dropWhile (\<lambda>c. c \<noteq> CHR ''?'') t)
      in if q = [] then [] else CHR ''?'' # query_encode q)"

section \<open>Parsing and serializing\<close>

definition form_decode :: "str \<Rightarrow> str" where
  "form_decode s = utf8_replace (percent_decode (map (\<lambda>c. if c = CHR ''+'' then CHR '' '' else c) s))"

definition form_pair :: "str \<Rightarrow> str \<times> str" where
  "form_pair s =
     (form_decode (takeWhile (\<lambda>c. c \<noteq> CHR ''='') s), form_decode (tl (dropWhile (\<lambda>c. c \<noteq> CHR ''='') s)))"

definition form_parse :: "str \<Rightarrow> (str \<times> str) list" where
  "form_parse s = map form_pair (filter (\<lambda>p. p \<noteq> []) (split_on (CHR ''&'') s))"

text \<open>\<open>new URLSearchParams(search)\<close> drops a leading \<open>?\<close>.\<close>

definition search_params :: "str \<Rightarrow> (str \<times> str) list" where
  "search_params s = form_parse (if startsWith s ''?'' then tl s else s)"

definition form_plain :: "char \<Rightarrow> bool" where
  "form_plain c \<longleftrightarrow>
     (48 \<le> byte c \<and> byte c \<le> 57) \<or> (65 \<le> byte c \<and> byte c \<le> 90) \<or> (97 \<le> byte c \<and> byte c \<le> 122) \<or>
     byte c \<in> {42, 45, 46, 95}"

definition form_encode_char :: "char \<Rightarrow> str" where
  "form_encode_char c =
     (if byte c = 32 then ''+'' else if form_plain c then [c] else percent_encode_char c)"

definition form_encode :: "str \<Rightarrow> str" where
  "form_encode s = concat (map form_encode_char s)"

definition form_serialize :: "(str \<times> str) list \<Rightarrow> str" where
  "form_serialize ps = join ''&'' (map (\<lambda>(k, v). form_encode k @ CHR ''='' # form_encode v) ps)"

definition params_delete :: "str \<Rightarrow> (str \<times> str) list \<Rightarrow> (str \<times> str) list" where
  "params_delete name ps = filter (\<lambda>(k, _). k \<noteq> name) ps"

definition params_get :: "str \<Rightarrow> (str \<times> str) list \<Rightarrow> str option" where
  "params_get name ps = map_of ps name"

section \<open>The address a request is forwarded to\<close>

definition upstream_query :: "str \<Rightarrow> str" where
  "upstream_query search = form_serialize (params_delete ''access_token'' (search_params search))"

definition upstreamUrl :: "str \<Rightarrow> str \<Rightarrow> str \<Rightarrow> str \<Rightarrow> str \<Rightarrow> str" where
  "upstreamUrl scheme gatewayAddr sessionId rest search =
     (let qs = upstream_query search
      in scheme @ ''://'' @ gatewayAddr @ ''/proxy/'' @ sessionId @ rest @ (if qs \<noteq> [] then CHR ''?'' # qs else []))"

section \<open>Components\<close>

text \<open>\<open>encodeURIComponent\<close>.\<close>

definition component_plain :: "char \<Rightarrow> bool" where
  "component_plain c \<longleftrightarrow>
     48 \<le> byte c \<and> byte c \<le> 57 \<or> 65 \<le> byte c \<and> byte c \<le> 90 \<or> 97 \<le> byte c \<and> byte c \<le> 122 \<or>
     byte c \<in> {45, 95, 46, 33, 126, 42, 39, 40, 41}"

definition encodeURIComponent :: "str \<Rightarrow> str" where
  "encodeURIComponent s = concat (map (\<lambda>c. if component_plain c then [c] else percent_encode_char c) s)"

section \<open>Round trip\<close>

lemma percent_decode_encoded:
  "percent_decode (percent_encode_char c @ s) = c # percent_decode s"
proof -
  obtain a b where ab: "percent_encode_char c = [percent, a, b]"
    by (simp add: percent_encode_char_def)
  have "take_escape (percent # a # b # s) = Some (c, s)" using take_escape_encoded [of c s] ab by simp
  then show ?thesis by (simp add: ab percent_decode.simps(2) del: take_escape.simps)
qed

lemma percent_decode_plain: "c \<noteq> percent \<Longrightarrow> percent_decode (c # s) = c # percent_decode s"
  by (cases "c # s" rule: take_escape.cases) (auto simp: percent_decode.simps(2))

lemma form_plain_not: "form_plain c \<Longrightarrow> c \<noteq> percent \<and> c \<noteq> CHR ''+'' \<and> c \<noteq> CHR ''&'' \<and> c \<noteq> CHR ''=''"
  by (auto simp: form_plain_def byte_lit)

lemma hex_chars_plain: "n < 16 \<Longrightarrow> form_plain (upper_hex n)"
  by (auto simp: form_plain_def upper_hex_def)

lemma encode_char_set: "d \<in> set (form_encode_char c) \<Longrightarrow> form_plain d \<or> d = percent \<or> d = CHR ''+''"
  using hex_chars_plain [of "byte c div 16"] hex_chars_plain [of "byte c mod 16"]
  by (auto simp: form_encode_char_def percent_encode_char_def split: if_splits)

lemma form_encode_set: "d \<in> set (form_encode s) \<Longrightarrow> d \<noteq> CHR ''&'' \<and> d \<noteq> CHR ''=''"
  using encode_char_set form_plain_not by (fastforce simp: form_encode_def)

lemma percent_decode_form_encode:
  "percent_decode (map (\<lambda>c. if c = CHR ''+'' then CHR '' '' else c) (form_encode s)) = s"
proof (induction s)
  case (Cons c s)
  let ?sp = "\<lambda>c. if c = CHR ''+'' then CHR '' '' else c"
  have enc: "map ?sp (percent_encode_char c) = percent_encode_char c"
    using hex_chars_plain [of "byte c div 16"] hex_chars_plain [of "byte c mod 16"] form_plain_not
    by (auto simp: percent_encode_char_def)
  have sp: "byte c = 32 \<Longrightarrow> c = CHR '' ''" using byte_inject [of c "CHR '' ''"] by (simp add: byte_lit)
  show ?case
    using Cons enc sp form_plain_not [of c]
    by (auto simp: form_encode_def form_encode_char_def percent_decode_plain percent_decode_encoded)
qed (simp add: form_encode_def)

lemma form_decode_encode: "utf8_valid s \<Longrightarrow> form_decode (form_encode s) = s"
  by (simp add: form_decode_def percent_decode_form_encode utf8_replace_valid)

lemma component_plain_not: "component_plain c \<Longrightarrow> c \<noteq> percent \<and> c \<noteq> CHR ''+'' \<and> c \<noteq> CHR ''&'' \<and> c \<noteq> CHR ''='' \<and> c \<noteq> CHR ''#'' \<and> c \<noteq> slash"
  by (auto simp: component_plain_def byte_lit)

lemma encodeURIComponent_set: "d \<in> set (encodeURIComponent s) \<Longrightarrow> component_plain d \<or> d = percent"
proof -
  have hex: "n < 16 \<Longrightarrow> component_plain (upper_hex n)" for n by (auto simp: component_plain_def upper_hex_def)
  show "d \<in> set (encodeURIComponent s) \<Longrightarrow> component_plain d \<or> d = percent"
    using hex by (auto simp: encodeURIComponent_def percent_encode_char_def split: if_splits)
qed

lemma percent_decode_component: "percent_decode (encodeURIComponent s) = s"
proof (induction s)
  case (Cons c s)
  then show ?case using component_plain_not [of c]
    by (auto simp: encodeURIComponent_def percent_decode_plain percent_decode_encoded)
qed (simp add: encodeURIComponent_def)

lemma form_decode_component: "utf8_valid s \<Longrightarrow> form_decode (encodeURIComponent s) = s"
proof -
  assume v: "utf8_valid s"
  have "map (\<lambda>c. if c = CHR ''+'' then CHR '' '' else c) (encodeURIComponent s) = encodeURIComponent s"
    using encodeURIComponent_set component_plain_not by (fastforce intro: map_idI)
  then show ?thesis using v by (simp add: form_decode_def percent_decode_component utf8_replace_valid)
qed

lemma form_pair_encoded:
  assumes "utf8_valid k" "utf8_valid v"
  shows "form_pair (form_encode k @ CHR ''='' # form_encode v) = (k, v)"
proof -
  have "takeWhile (\<lambda>c. c \<noteq> CHR ''='') (form_encode k @ CHR ''='' # form_encode v) = form_encode k"
    "dropWhile (\<lambda>c. c \<noteq> CHR ''='') (form_encode k @ CHR ''='' # form_encode v) = CHR ''='' # form_encode v"
    using form_encode_set [of _ k] by (auto simp: takeWhile_append2 dropWhile_append2)
  then show ?thesis using assms by (simp add: form_pair_def form_decode_encode)
qed

lemma form_parse_serialize:
  assumes "list_all (\<lambda>(k, v). utf8_valid k \<and> utf8_valid v) ps"
  shows "form_parse (form_serialize ps) = ps"
proof (cases ps)
  case (Cons p ps')
  let ?e = "\<lambda>(k, v). form_encode k @ CHR ''='' # form_encode v"
  have "split_on (CHR ''&'') (form_serialize ps) = map ?e ps"
    unfolding form_serialize_def
    using form_encode_set by (intro split_on_join) (auto simp: Cons)
  moreover have "filter (\<lambda>p. p \<noteq> []) (map ?e ps) = map ?e ps"
    by (auto simp: filter_id_conv)
  moreover have "map form_pair (map ?e ps) = ps"
    using assms form_pair_encoded by (auto simp: list_all_iff intro!: map_idI)
  ultimately show ?thesis by (simp add: form_parse_def)
qed (simp add: form_parse_def form_serialize_def)

text \<open>What the lossy decoder returns is well-formed.\<close>

lemma utf8_run_le: "utf8_run n c cs \<le> length (take n cs)"
  by (cases "take n cs") (auto simp: utf8_run_def length_takeWhile_le simp del: length_take)

lemma utf8_run_full:
  assumes "utf8_run n c cs = n" "utf8_extra c = Some n"
  shows "utf8_tail_ok c (take n cs)"
proof -
  have len: "length (take n cs) = n" using utf8_run_le [of n c cs] assms(1) by simp
  show ?thesis
  proof (cases "take n cs")
    case (Cons d ds)
    then have "cont_byte d" "utf8_second_ok c d" and l: "length (takeWhile cont_byte ds) = length ds"
      using assms(1) len by (auto simp: utf8_run_def split: if_splits)
    moreover have "list_all cont_byte ds"
      using l by (metis list_all_iff set_takeWhileD takeWhile_eq_take take_all order_refl)
    ultimately show ?thesis using len assms(2) Cons by (simp add: utf8_tail_ok_def)
  next
    case Nil
    then show ?thesis using len assms(2) by (auto simp: utf8_tail_ok_def simp del: take_eq_Nil)
  qed
qed

lemma utf8_valid_replacement: "utf8_valid (replacement @ s) = utf8_valid s"
proof -
  have "utf8_valid replacement" by code_simp
  then show ?thesis by (rule utf8_valid_append)
qed

lemma utf8_valid_replace: "utf8_valid (utf8_replace s)"
proof (induction s rule: utf8_replace.induct)
  case (2 c cs)
  show ?case
  proof (cases "utf8_extra c")
    case None
    then show ?thesis using 2 by (simp add: utf8_replace.simps utf8_valid_replacement)
  next
    case (Some n)
    then show ?thesis
      using 2 utf8_run_full [OF _ Some] utf8_valid_seq [of c "take n cs"]
      by (auto simp: utf8_replace.simps utf8_valid_replacement Let_def)
  qed
qed simp

lemma form_parse_valid: "list_all (\<lambda>(k, v). utf8_valid k \<and> utf8_valid v) (form_parse s)"
  by (auto simp: form_parse_def form_pair_def form_decode_def utf8_valid_replace list_all_iff)

lemma upstream_query_params:
  "form_parse (upstream_query search) = params_delete ''access_token'' (search_params search)"
  unfolding upstream_query_def
  by (rule form_parse_serialize)
    (use form_parse_valid in \<open>auto simp: params_delete_def search_params_def list_all_iff\<close>)

section \<open>Properties\<close>

text \<open>A request is forwarded with the parameters it came with, in order, except the access
  token a WebSocket client sends in the query: reading the forwarded query gives the others and
  never the token.\<close>

theorem upstream_without_token:
  "\<exists>qs. upstreamUrl scheme gw sid rest search =
      scheme @ ''://'' @ gw @ ''/proxy/'' @ sid @ rest @ (if qs \<noteq> [] then CHR ''?'' # qs else []) \<and>
    form_parse qs = filter (\<lambda>(k, _). k \<noteq> ''access_token'') (search_params search) \<and>
    params_get ''access_token'' (form_parse qs) = None"
proof (intro exI conjI)
  show "upstreamUrl scheme gw sid rest search = scheme @ ''://'' @ gw @ ''/proxy/'' @ sid @ rest @
      (if upstream_query search \<noteq> [] then CHR ''?'' # upstream_query search else [])"
    by (simp add: upstreamUrl_def Let_def)
  show "form_parse (upstream_query search) = filter (\<lambda>(k, _). k \<noteq> ''access_token'') (search_params search)"
    by (simp add: upstream_query_params params_delete_def)
  show "params_get ''access_token'' (form_parse (upstream_query search)) = None"
    by (auto simp: upstream_query_params params_delete_def params_get_def map_of_eq_None_iff)
qed

end
