(* ===== verification/V2Guard.thy ===== *)
theory V2Guard
  imports V1Guards Query
begin

text \<open>
  The guard of opencode 2.x sessions (\<open>api/src/v2-guard.ts\<close>) and the choice between the
  two guard sets (\<open>api/src/guards.ts\<close>). Every 2.x route is in the table of
  \<open>v2-routes.ts\<close>; what the table does not have is refused. The answer of
  \<open>GET /api/info\<close> is an argument, \<open>None\<close> when the call fails.
\<close>

type_synonym Features2 = "FeatureNameV2 \<Rightarrow> bool"

type_synonym fetch_info = "ctx \<Rightarrow> json option"

fun MESSAGES :: "FeatureNameV2 \<Rightarrow> str" where
  "MESSAGES Uploads2 = ''uploads are disabled''"
| "MESSAGES Downloads2 = ''file downloads are disabled''"
| "MESSAGES Terminal2 = ''the terminal is disabled''"
| "MESSAGES Shell2 = ''shell commands are disabled''"
| "MESSAGES Export2 = ''export is disabled''"
| "MESSAGES Mcp2 = ''MCP changes are disabled''"

definition MCP_INTEGRATION :: rx where
  "MCP_INTEGRATION = rx_seq [rx_lit ''/api/integration/mcp_'', RStar (RSet (\<lambda>c. c \<noteq> slash)), rx_lit ''/connect/'']"

definition reject :: "str \<Rightarrow> response" where
  "reject message = JsonReply 400 (JObj [(''_tag'', JStr ''FeatureDisabled''), (''message'', JStr message)])"

text \<open>
  \<open>GET /api/info\<close> through the gateway: \<open>fetch url headers\<close> gives the status and the
  parsed body, or nothing when it throws.
\<close>

definition defaultFetchServerInfo ::
  "(str \<Rightarrow> (str \<times> str) list \<Rightarrow> (nat \<times> json option) option) \<Rightarrow> fetch_info" where
  "defaultFetchServerInfo fetch c =
     (let meta = cv_session c
      in case fetch (upstreamUrl ''http'' (sm_gatewayAddr meta) (sm_id meta) ''/api/info'' [])
               [(''Authorization'', ''Bearer '' @ cv_token c), (''X-Opencode-Directory'', sm_directory meta)] of
        None \<Rightarrow> None
      | Some (status, body) \<Rightarrow> if 200 \<le> status \<and> status \<le> 299 then body else None)"

definition readJson :: "ctx \<Rightarrow> (str + json_object) \<times> ctx" where
  "readJson c =
     (case jsonBody c of
        (TooLarge, c') \<Rightarrow> (Inl ''request body is too large'', c')
      | (NotJson, c') \<Rightarrow> (Inl ''request body is not JSON'', c')
      | (JsonOf None, c') \<Rightarrow> (Inr [], c')
      | (JsonOf (Some (JObj ps)), c') \<Rightarrow> (Inr ps, c')
      | (JsonOf (Some _), c') \<Rightarrow> (Inl ''request body is not a JSON object'', c'))"

section \<open>Checks of allowed routes\<close>

definition fs_denied :: str where
  "fs_denied = ''uploads may only be written to the uploads folder''"

text \<open>\<open>s.replace(/\/$/, "")\<close>.\<close>

definition drop_final_slash :: "str \<Rightarrow> str" where
  "drop_final_slash s = (if endsWith s ''/'' then butlast s else s)"

definition tmp_path :: "json option \<Rightarrow> json option" where
  "tmp_path info =
     (case info of
        Some (JObj i) \<Rightarrow> (case get_prop i ''paths'' of Some (JObj p) \<Rightarrow> get_prop p ''tmp'' | _ \<Rightarrow> None)
      | _ \<Rightarrow> None)"

definition checkFsWrite :: "fetch_info \<Rightarrow> ctx \<Rightarrow> str option" where
  "checkFsWrite fetchServerInfo c =
     (case params_get ''path'' (search_params (url_search_of (rq_url c))) of
        None \<Rightarrow> Some fs_denied
      | Some path \<Rightarrow>
          if path = [] \<or> CHR 92 \<in> set path \<or> CHR 0x00 \<in> set path \<or> ''..'' \<in> set (split_on slash path)
          then Some fs_denied
          else case tmp_path (fetchServerInfo c) of
            Some (JStr tmp) \<Rightarrow>
              (let base = drop_final_slash tmp
               in if base = [] then Some fs_denied
                  else if startsWith path (base @ ''/uploads/'') then None else Some fs_denied)
          | _ \<Rightarrow> Some fs_denied)"

text \<open>
  \<open>const body = await readJson(c); if (typeof body === "string") return body;\<close>, a check of
  the body, and what follows when it does not object.
\<close>

definition check_body ::
  "(json_object \<Rightarrow> str option) \<Rightarrow> (ctx \<Rightarrow> str option \<times> ctx) \<Rightarrow> ctx \<Rightarrow> str option \<times> ctx" where
  "check_body check continue c =
     (case readJson c of
        (Inl e, c') \<Rightarrow> (Some e, c')
      | (Inr body, c') \<Rightarrow> (case check body of Some e \<Rightarrow> (Some e, c') | None \<Rightarrow> continue c'))"

definition allowed :: "ctx \<Rightarrow> str option \<times> ctx" where
  "allowed c = (None, c)"

definition worktree_check :: "json_object \<Rightarrow> str option" where
  "worktree_check body =
     (if has_key body ''directory'' then Some ''the worktree directory cannot be set through opencode-rc'' else None)"

definition project_check :: "Features2 \<Rightarrow> json_object \<Rightarrow> str option" where
  "project_check fs body =
     (if has_key body ''commands'' then Some ''project commands cannot be changed through opencode-rc''
      else if \<not> fs Uploads2 \<and> data_icon body then Some (MESSAGES Uploads2) else None)"

definition permissions_check :: "Features2 \<Rightarrow> json_object \<Rightarrow> str option" where
  "permissions_check fs body =
     (if has_key body ''permissions'' then Some (if \<not> fs Downloads2 then MESSAGES Downloads2 else MESSAGES Shell2)
      else None)"

definition command_check :: "json_object \<Rightarrow> str option" where
  "command_check body = (if mayRunShell (get_prop body ''text'') then Some (MESSAGES Shell2) else None)"

definition attached_files :: "json_object \<Rightarrow> json list" where
  "attached_files body = concat (map (\<lambda>l. case l of Some (JArr js) \<Rightarrow> js | _ \<Rightarrow> []) (file_lists body))"

definition not_data_uri :: "json \<Rightarrow> bool" where
  "not_data_uri f =
     (case f of
        JObj ps \<Rightarrow> (case get_prop ps ''uri'' of Some (JStr u) \<Rightarrow> \<not> startsWith u ''data:'' | _ \<Rightarrow> True)
      | _ \<Rightarrow> True)"

definition files_check :: "Features2 \<Rightarrow> json_object \<Rightarrow> str option" where
  "files_check fs body =
     (if \<not> fs Uploads2 \<and> list_ex file_not_uri (attached_files body) then Some (MESSAGES Uploads2)
      else if \<not> fs Downloads2 \<and> list_ex not_data_uri (attached_files body) then Some (MESSAGES Downloads2)
      else None)"

text \<open>A check that runs only on some requests.\<close>

definition check_when ::
  "bool \<Rightarrow> (json_object \<Rightarrow> str option) \<Rightarrow> (ctx \<Rightarrow> str option \<times> ctx) \<Rightarrow> ctx \<Rightarrow> str option \<times> ctx" where
  "check_when cond check continue c = (if cond then check_body check continue c else continue c)"

definition checkRequest :: "fetch_info \<Rightarrow> Features2 \<Rightarrow> str \<Rightarrow> ctx \<Rightarrow> str option \<times> ctx" where
  "checkRequest fetchServerInfo fs template c =
     (if template = ''/api/experimental/fs/write'' then (checkFsWrite fetchServerInfo c, c)
      else if template = ''/api/worktree'' \<and> rq_method c = ''POST'' then check_body worktree_check allowed c
      else if template = ''/api/project/:projectID'' then check_body (project_check fs) allowed c
      else
        check_when ((\<not> fs Downloads2 \<or> \<not> fs Shell2) \<and>
            (template = ''/api/session'' \<or> template = ''/api/session/:sessionID'') \<and>
            (rq_method c = ''POST'' \<or> rq_method c = ''PATCH''))
          (permissions_check fs)
        (check_when (\<not> fs Shell2 \<and> template = ''/api/session/:sessionID/command'') command_check
        (check_when ((\<not> fs Uploads2 \<or> \<not> fs Downloads2) \<and>
            (template = ''/api/session/:sessionID/prompt'' \<or> template = ''/api/session/:sessionID/command''))
          (files_check fs) allowed)) c)"

section \<open>The guard\<close>

definition v2_route :: "str \<Rightarrow> str \<Rightarrow> (str \<times> str \<times> V2Rule) option" where
  "v2_route method path = find (v2_matches method path) V2_ROUTES"

definition v2_trim :: "str \<Rightarrow> str" where
  "v2_trim path = (if length path > 1 then strip_trailing_slashes path else path)"

definition v2Guard :: "Features2 \<Rightarrow> fetch_info \<Rightarrow> guard" where
  "v2Guard fs fetchServerInfo c =
     (let method = read_method (rq_method c)
      in if method = ''OPTIONS'' then Inr c
         else case canonicalPath (proxyRest (rq_path c) (rq_sessionId c)) of
           None \<Rightarrow> Inl (reject ''unsupported characters in path'')
         | Some path \<Rightarrow>
             (let trimmed = v2_trim path
             in case v2_route method trimmed of
               None \<Rightarrow> Inl (reject ''this opencode feature is not available through opencode-rc'')
             | Some (_, template, rule) \<Rightarrow>
                 let checked =
                   (if \<not> fs Mcp2 \<and> rx_test_prefix MCP_INTEGRATION trimmed then Inl (reject (MESSAGES Mcp2))
                    else case checkRequest fetchServerInfo fs template c of
                      (Some denied, _) \<Rightarrow> Inl (reject denied)
                    | (None, c') \<Rightarrow> Inr c')
                 in case rule of
                   Never \<Rightarrow> Inl (reject ''this opencode feature is not available through opencode-rc'')
                 | Feature f \<Rightarrow> if \<not> fs f then Inl (reject (MESSAGES f)) else checked
                 | Allow \<Rightarrow> checked))"

definition v2Guards :: "(guard list \<Rightarrow> guard) \<Rightarrow> HostParser \<Rightarrow> fetch_info \<Rightarrow> RcConfig \<Rightarrow> guard" where
  "v2Guards ev hp fetchServerInfo config =
     ev [plainPathGuard hp (reject ''unsupported characters in path''),
         v2Guard (v2_features config) fetchServerInfo]"

section \<open>guards.ts\<close>

definition isV1Session :: "str option \<Rightarrow> bool" where
  "isV1Session version = (case version of None \<Rightarrow> True | Some v \<Rightarrow> v = [] \<or> startsWith v ''1.'')"

definition versionedGuards :: "(guard list \<Rightarrow> guard) \<Rightarrow> HostParser \<Rightarrow> fetch_info \<Rightarrow> RcConfig \<Rightarrow> guard" where
  "versionedGuards ev hp fetchServerInfo config c =
     (if isV1Session (sm_opencodeVersion (cv_session c))
      then v1Guards ev hp (FEATURE_GUARDS hp) config c
      else v2Guards ev hp fetchServerInfo config c)"

section \<open>The checks keep the request and read the forwarded body\<close>

lemma readJson_same: "readJson c = (r, c') \<Longrightarrow> same_request c c'"
  by (auto simp: readJson_def dest: jsonBody_same_request
      split: prod.splits JsonBody.splits option.splits json.splits)

text \<open>The fields of the body a check sees: those of the bytes that are forwarded.\<close>

definition body_fields :: "ctx \<Rightarrow> json_object" where
  "body_fields c =
     (case parse_body (forwarded_body c) of JsonOf (Some (JObj ps)) \<Rightarrow> ps | _ \<Rightarrow> [])"

lemma readJson_fields: "readJson c = (Inr ps, c') \<Longrightarrow> ps = body_fields c'"
  by (auto simp: readJson_def body_fields_def dest: jsonBody_forwarded
      split: prod.splits JsonBody.splits option.splits json.splits)

lemma body_fields_same: "same_request c c' \<Longrightarrow> body_fields c' = body_fields c"
  by (simp add: body_fields_def same_request_def)

definition sound_check :: "(ctx \<Rightarrow> str option \<times> ctx) \<Rightarrow> bool" where
  "sound_check k \<longleftrightarrow> (\<forall>c r c'. k c = (r, c') \<longrightarrow> same_request c c')"

lemma sound_allowed: "sound_check allowed"
  by (simp add: sound_check_def allowed_def)

lemma sound_check_body: "sound_check k \<Longrightarrow> sound_check (check_body check k)"
  unfolding sound_check_def
  by (auto simp: check_body_def dest: readJson_same same_request_trans split: prod.splits sum.splits option.splits)
    (metis readJson_same same_request_trans)

lemma sound_check_when: "sound_check k \<Longrightarrow> sound_check (check_when b check k)"
  using sound_check_body [of k check] by (auto simp: check_when_def [abs_def] sound_check_def)

lemma check_body_None:
  assumes "check_body check k c = (None, c')" "sound_check k"
  shows "check (body_fields c') = None \<and> (\<exists>d. same_request c d \<and> k d = (None, c'))"
proof -
  obtain r d where rd: "readJson c = (r, d)" by (cases "readJson c")
  with assms(1) obtain ps where ps: "r = Inr ps" "check ps = None" "k d = (None, c')"
    by (auto simp: check_body_def split: sum.splits option.splits)
  have "same_request d c'" using assms(2) ps(3) by (simp add: sound_check_def)
  then have "body_fields c' = ps" using readJson_fields rd ps(1) body_fields_same by simp
  then show ?thesis using ps readJson_same [OF rd] by blast
qed

lemma check_when_None:
  assumes "check_when b check k c = (None, c')" "sound_check k"
  shows "(b \<longrightarrow> check (body_fields c') = None) \<and> (\<exists>d. same_request c d \<and> k d = (None, c'))"
proof (cases b)
  case True
  then show ?thesis using assms check_body_None [of check k c c'] by (simp add: check_when_def)
next
  case False
  then have "k c = (None, c')" using assms(1) by (simp add: check_when_def)
  then show ?thesis using False same_request_refl by blast
qed

lemma soundD: "sound_check k \<Longrightarrow> k c = (r, c') \<Longrightarrow> same_request c c'"
  by (simp add: sound_check_def)

lemma sound_checkRequest: "sound_check (checkRequest fetchServerInfo fs template)"
  unfolding sound_check_def
proof (intro allI impI)
  fix c r c'
  assume k: "checkRequest fetchServerInfo fs template c = (r, c')"
  have s: "sound_check (check_body ch allowed)" "sound_check (check_when a ch1 (check_when b ch2 (check_when d ch3 allowed)))"
    for ch a ch1 b ch2 d ch3
    by (intro sound_check_body sound_check_when sound_allowed)+
  show "same_request c c'"
  proof (cases "template = ''/api/experimental/fs/write''")
    case True
    then show ?thesis using k by (simp add: checkRequest_def)
  next
    case False
    then consider ch where "check_body ch allowed c = (r, c')"
      | a ch1 b ch2 d ch3 where "check_when a ch1 (check_when b ch2 (check_when d ch3 allowed)) c = (r, c')"
      using k unfolding checkRequest_def by (simp only: if_False split: if_splits)
    then show ?thesis using s soundD by cases blast+
  qed
qed

lemma v2Guard_passes:
  assumes "v2Guard fs fetchServerInfo c = Inr c'"
  shows "same_request c c' \<and> (read_method (rq_method c) = ''OPTIONS'' \<or>
    (\<exists>path m t r. canonicalPath (proxyRest (rq_path c) (rq_sessionId c)) = Some path \<and>
       v2_route (read_method (rq_method c)) (v2_trim path) = Some (m, t, r) \<and>
       (r = Allow \<or> (\<exists>f. r = Feature f \<and> fs f)) \<and>
       (fs Mcp2 \<or> \<not> rx_test_prefix MCP_INTEGRATION (v2_trim path)) \<and>
       checkRequest fetchServerInfo fs t c = (None, c')))"
  using assms sound_checkRequest [of fetchServerInfo fs]
  by (auto simp: v2Guard_def Let_def sound_check_def split: if_splits option.splits V2Rule.splits prod.splits)

interpretation v2: request_guard "v2Guard fs fetchServerInfo" for fs fetchServerInfo
  by unfold_locales (metis v2Guard_passes)

end
