(* ===== verification/V1Policy.thy ===== *)
theory V1Policy
  imports V1Guards
begin

text \<open>
  What the guards of a 1.x session guarantee about a request that reaches the proxy, stated on
  the request that is forwarded. \<open>hono_every ev\<close> is the documented behaviour of
  \<open>every\<close>; the witnesses run the guards on concrete requests with \<open>run_every\<close>.
\<close>

section \<open>Concrete requests\<close>

definition any_host :: HostParser where
  "any_host = \<lparr>authority_ok = (\<lambda>_. True), file_host_ok = (\<lambda>_. True)\<rparr>"

definition config_without :: "FeatureName list \<Rightarrow> RcConfig" where
  "config_without off =
     \<lparr>serverUrl = None, features = (\<lambda>f. f \<notin> set off), v2_features = (\<lambda>_. True), v2_versions = None\<rparr>"

definition some_session :: SessionMeta where
  "some_session = \<lparr>sm_id = ''s'', sm_userId = ''u'', sm_directory = ''/w'', sm_gatewayAddr = ''g'',
     sm_createdAt = ''t'', sm_opencodeVersion = Some ''1.18.0''\<rparr>"

definition request :: "str \<Rightarrow> str \<Rightarrow> str \<Rightarrow> ctx" where
  "request m rest b =
     \<lparr>rq_method = m, rq_url = ''http://h/proxy/s'' @ rest, rq_path = ''/proxy/s'' @ rest, rq_sessionId = ''s'',
      rq_content_length = None, rq_stream = Some [b], cv_userId = ''u'', cv_token = ''t'',
      cv_session = some_session, cv_body = None, cv_rewriteJson = None\<rparr>"

definition passes :: "(response + ctx) \<Rightarrow> bool" where
  "passes r = (case r of Inl _ \<Rightarrow> False | Inr _ \<Rightarrow> True)"

lemma passes_iff: "passes r \<longleftrightarrow> (\<exists>c. r = Inr c)"
  by (cases r) (auto simp: passes_def)

abbreviation v1 :: "FeatureName list \<Rightarrow> ctx \<Rightarrow> response + ctx" where
  "v1 off \<equiv> v1Guards run_every any_host (FEATURE_GUARDS any_host) (config_without off)"

lemma not_feature [simp]: "features (config_without off) f \<longleftrightarrow> f \<notin> set off"
  by (simp add: config_without_def)

definition all_off :: "FeatureName list" where
  "all_off = [Uploads, Downloads, Terminal, Shell, Share, Config, Mcp]"

definition command_request :: ctx where
  "command_request = request ''POST'' ''/session/x/command''
     ''{\"arguments\":\"a b\",\"parts\":[{\"type\":\"text\"}]}''"

definition command_body :: json_object where
  "command_body = [(''arguments'', JStr ''a b''), (''parts'', JArr [JObj [(''type'', JStr ''text'')]])]"

lemma command_passes: "case v1 all_off command_request of
    Inl _ \<Rightarrow> False
  | Inr c' \<Rightarrow> rq_method c' = ''POST'' \<and> route_rest c' = ''/session/x/command'' \<and>
      parse_body (forwarded_body c') = JsonOf (Some (JObj command_body))"
  by code_simp

lemma provider_passes: "case v1 all_off (request ''GET'' ''/provider'' []) of
    Inl _ \<Rightarrow> False
  | Inr c' \<Rightarrow> rq_method c' = ''GET'' \<and> proxyRest (rq_path c') (rq_sessionId c') = ''/provider''"
  by code_simp

lemma command_posts:
  obtains c' where "v1 all_off command_request = Inr c'" "posts c' ''command'' command_body"
proof -
  from command_passes obtain c' where c: "v1 all_off command_request = Inr c'" "rq_method c' = ''POST''"
    "route_rest c' = ''/session/x/command''" "parse_body (forwarded_body c') = JsonOf (Some (JObj command_body))"
    by (auto split: sum.splits)
  have "lower ''/session/x/command'' = ''/session/x/command''" by code_simp
  then have "posts c' ''command'' command_body"
    unfolding posts_def using c by (intro conjI exI [of _ "''x''"]) simp_all
  then show ?thesis using c that by blast
qed

lemma rule_members:
  "(''POST'', session_path [''message'', ''prompt_async'', ''command''],
     \<lambda>body. array_some isUploadPart (get_prop body ''parts'')) \<in> set UPLOAD_RULES"
  "(''POST'', session_path [''command''], \<lambda>body. mayRunShell (get_prop body ''arguments'')) \<in> set SHELL_RULES"
  "(''POST'', session_path [''message'', ''prompt_async''], hasFileReadPart hp) \<in> set (DOWNLOAD_RULES hp)"
  "(''POST'', session_path [''command''],
     \<lambda>body. hasFileReadPart hp body \<or> mayReferenceFile (get_prop body ''arguments'')) \<in> set (DOWNLOAD_RULES hp)"
  unfolding UPLOAD_RULES_def SHELL_RULES_def DOWNLOAD_RULES_def set_append list.set by blast+

section \<open>Properties\<close>





text \<open>While downloads are disabled, no prompt or command that reaches opencode 1.x makes it read
  a file: no part is a file part with a file url or a subtask whose prompt refers to a path, and
  the arguments of a command neither refer to a path nor end so that a template can complete
  a reference.\<close>

theorem downloads_off_prompts:
  assumes "hono_every ev" "v1Guards ev hp (FEATURE_GUARDS hp) config c = Inr c'" "\<not> features config Downloads"
    and "posts c' action body" "action \<in> {''message'', ''prompt_async'', ''command''}"
  shows "(\<forall>parts part. get_prop body ''parts'' = Some (JArr parts) \<longrightarrow> part \<in> set parts \<longrightarrow> \<not> isFileReadPart hp part) \<and>
    (action = ''command'' \<longrightarrow> \<not> mayReferenceFile (get_prop body ''arguments''))"
proof -
  have post: "rq_method c' = ''POST''" using assms(4) by (simp add: posts_def)
  have r: "\<not> breaks_rule (DOWNLOAD_RULES hp) c'"
    using v1Guards_downloads [OF assms(1-3)] by (simp add: post)
  show ?thesis
  proof (cases "action = ''command''")
    case True
    have "\<not> (hasFileReadPart hp body \<or> mayReferenceFile (get_prop body ''arguments''))"
      using posts_matches [OF assms(4) _ lower_actions(3) rule_members(4) r] True by simp
    then show ?thesis by (auto simp: hasFileReadPart_def array_some_def list_ex_iff)
  next
    case False
    have "\<not> hasFileReadPart hp body"
      using posts_matches [OF assms(4) _ lower_actions(2) rule_members(3) r] False assms(5) by simp
    then show ?thesis using False by (auto simp: hasFileReadPart_def array_some_def list_ex_iff)
  qed
qed

theorem downloads_off_prompts_witness: "\<not> mayReferenceFile (Some (JStr ''a b''))"
proof (rule command_posts)
  fix c'
  assume "v1 all_off command_request = Inr c'" "posts c' ''command'' command_body"
  from downloads_off_prompts [OF run.hono_every_axioms this(1) _ this(2)]
  show ?thesis by (simp add: all_off_def command_body_def get_prop_def)
qed

text \<open>While downloads are disabled, a read that reaches opencode 1.x has a path every hop reads
  the same, and that path is neither file contents nor text search.\<close>

theorem downloads_off_reads:
  assumes "hono_every ev" "v1Guards ev hp (FEATURE_GUARDS hp) config c = Inr c'" "\<not> features config Downloads"
    and "rq_method c' = ''GET'' \<or> rq_method c' = ''HEAD''"
  shows "\<exists>path. canonicalPath (proxyRest (rq_path c') (rq_sessionId c')) = Some path \<and>
    strip_trailing_slashes path \<noteq> ''/file/content'' \<and> strip_trailing_slashes path \<noteq> ''/find'' \<and>
    \<not> startsWith path ''/api/fs/read/''"
proof -
  have "\<not> isDownloadPath (proxyRest (rq_path c') (rq_sessionId c'))"
    using v1Guards_downloads [OF assms(1-3)] assms(4) by auto
  then show ?thesis by (auto simp: isDownloadPath_def Let_def split: option.splits)
qed

theorem downloads_off_reads_witness:
  "\<exists>path. canonicalPath ''/provider'' = Some path \<and> strip_trailing_slashes path \<noteq> ''/file/content''"
proof -
  from provider_passes obtain c' where c: "v1 all_off (request ''GET'' ''/provider'' []) = Inr c'"
    "rq_method c' = ''GET''" "proxyRest (rq_path c') (rq_sessionId c') = ''/provider''"
    by (auto split: sum.splits)
  from downloads_off_reads [OF run.hono_every_axioms c(1)] c(2,3)
  show ?thesis by (auto simp: all_off_def)
qed

text \<open>While the terminal is disabled, the path of no request that reaches opencode 1.x, a
  WebSocket upgrade included, is in its terminal API: its first segments are neither
  \<open>pty\<close> nor \<open>api\<close>, \<open>pty\<close>.\<close>

theorem terminal_off:
  assumes "hono_every ev" "v1Guards ev hp (FEATURE_GUARDS hp) config c = Inr c'" "\<not> features config Terminal"
  shows "\<exists>path. canonicalPath (proxyRest (rq_path c') (rq_sessionId c')) = Some (slash # path) \<and>
    (\<forall>rest. split_on slash path \<noteq> ''pty'' # rest \<and> split_on slash path \<noteq> ''api'' # ''pty'' # rest)"
proof -
  have "\<not> isTerminalPath (proxyRest (rq_path c') (rq_sessionId c'))"
    using v1Guards_terminal [OF assms] .
  then obtain q where q: "canonicalPath (proxyRest (rq_path c') (rq_sessionId c')) = Some q" "\<not> rx_test TERMINAL_PATH q"
    by (auto simp: isTerminalPath_def split: option.splits)
  moreover obtain path where "q = slash # path" using canonicalPath_shape [OF q(1)] by (cases q) auto
  ultimately show ?thesis using terminal_rx by blast
qed

theorem terminal_off_witness: "\<forall>rest. split_on slash ''provider'' \<noteq> ''pty'' # rest"
proof -
  from provider_passes obtain c' where c: "v1 all_off (request ''GET'' ''/provider'' []) = Inr c'"
    "proxyRest (rq_path c') (rq_sessionId c') = ''/provider''"
    by (auto split: sum.splits)
  have "canonicalPath ''/provider'' = Some ''/provider''" by code_simp
  with terminal_off [OF run.hono_every_axioms c(1)] c(2) show ?thesis by (auto simp: all_off_def)
qed



text \<open>A request of a 1.x session under \<open>/api\<close> matches a row of the table of the routes
  1.x has, segment by segment, and a request outside \<open>/api\<close> matches no 2.x route.\<close>

theorem v1_routes_only:
  assumes "hono_every ev" "v1Guards ev hp (FEATURE_GUARDS hp) config c = Inr c'"
  shows "\<exists>path. canonicalPath (proxyRest (rq_path c') (rq_sessionId c')) = Some path \<and>
    (if path = ''/api'' \<or> startsWith path ''/api/''
     then read_method (rq_method c') = ''OPTIONS'' \<or>
       (\<exists>t. (read_method (rq_method c'), t) \<in> set V1_API_ROUTES \<and>
          template_matches (template_segments t) (split_on slash (strip_trailing_slashes path)))
     else (\<nexists>t r. (read_method (rq_method c'), t, r) \<in> set V2_ROUTES \<and> \<not> startsWith t ''/api/'' \<and>
          template_matches (template_segments t) (split_on slash (strip_trailing_slashes path))))"
proof -
  obtain d d' where d: "v1ApiGuard d = Inr d'" "same_request d' c'"
    using hono_every.v1Guards_passed [OF assms, of v1ApiGuard] by blast
  obtain path where path: "canonicalPath (proxyRest (rq_path d) (rq_sessionId d)) = Some path"
    "if path = ''/api'' \<or> startsWith path ''/api/''
     then read_method (rq_method d) = ''OPTIONS'' \<or>
       list_ex (\<lambda>(m, re). m = read_method (rq_method d) \<and> rx_test re (strip_trailing_slashes path)) V1_API
     else \<not> list_ex (\<lambda>(m, re). m = read_method (rq_method d) \<and> rx_test re (strip_trailing_slashes path)) V2_ONLY_NON_API"
    "d' = d"
    using v1ApiGuard_passes [OF d(1)] by blast
  have same: "proxyRest (rq_path c') (rq_sessionId c') = proxyRest (rq_path d) (rq_sessionId d)"
    "rq_method c' = rq_method d"
    using proxied_same [OF d(2)] path(3) by auto
  have nl: "list_all not_newline (strip_trailing_slashes path)"
    using canonical_not_newline [OF path(1)] set_strip_trailing [of path] by (auto simp: list_all_iff)
  have m1: "rx_test (templateRegex t) (strip_trailing_slashes path) \<longleftrightarrow>
      template_matches (template_segments t) (split_on slash (strip_trailing_slashes path))"
    if "(m, t) \<in> set V1_API_ROUTES" for m t
    using templateRegex_matches [OF _ nl, of t] that V1_API_ROUTES_plain
    by (auto simp: list_all_iff template_segments_def)
  have m2: "rx_test (templateRegex t) (strip_trailing_slashes path) \<longleftrightarrow>
      template_matches (template_segments t) (split_on slash (strip_trailing_slashes path))"
    if "(m, t, r) \<in> set V2_ROUTES" for m t r
    using templateRegex_matches [OF _ nl, of t] that V2_ROUTES_shape
    unfolding list_all_iff template_segments_def by fast
  have a: "list_ex (\<lambda>(m, re). m = mm \<and> rx_test re (strip_trailing_slashes path)) V1_API \<longleftrightarrow>
      (\<exists>t. (mm, t) \<in> set V1_API_ROUTES \<and>
          template_matches (template_segments t) (split_on slash (strip_trailing_slashes path)))" for mm
    unfolding V1_API_def list_ex_iff set_map using m1 by fastforce
  have b: "list_ex (\<lambda>(m, re). m = mm \<and> rx_test re (strip_trailing_slashes path)) V2_ONLY_NON_API \<longleftrightarrow>
      (\<exists>t r. (mm, t, r) \<in> set V2_ROUTES \<and> \<not> startsWith t ''/api/'' \<and>
          template_matches (template_segments t) (split_on slash (strip_trailing_slashes path)))" for mm
    unfolding V2_ONLY_NON_API_def list_ex_iff set_map set_filter using m2 by fastforce
  show ?thesis
    using path(1,2) unfolding a b same by blast
qed

theorem v1_routes_only_witness:
  "\<nexists>t r. (''GET'', t, r) \<in> set V2_ROUTES \<and> \<not> startsWith t ''/api/'' \<and>
     template_matches (template_segments t) (split_on slash ''/provider'')"
proof -
  from provider_passes obtain c' where c: "v1 all_off (request ''GET'' ''/provider'' []) = Inr c'"
    "rq_method c' = ''GET''" "proxyRest (rq_path c') (rq_sessionId c') = ''/provider''"
    by (auto split: sum.splits)
  have p: "canonicalPath ''/provider'' = Some ''/provider''" "strip_trailing_slashes ''/provider'' = ''/provider''"
    "\<not> (''/provider'' = ''/api'' \<or> startsWith ''/provider'' ''/api/'')" "read_method ''GET'' = ''GET''"
    by code_simp+
  show ?thesis
    using v1_routes_only [OF run.hono_every_axioms c(1)] unfolding c(2,3) p(1,4) using p(2,3) by auto
qed

definition NEVER_POSTS :: "str list" where
  "NEVER_POSTS = [''/vcs/apply'', ''/global/upgrade'', ''/log'', ''/experimental/console/switch'',
     ''/experimental/control-plane/move-session'']"

lemma list_all_steps: "list_all P (x # xs) \<longleftrightarrow> P x \<and> list_all P xs" "list_all P [] \<longleftrightarrow> True"
  by simp_all

lemma NEVER_posts: "list_all (\<lambda>x. (Some ''POST'', rx_lit x) \<in> set NEVER) NEVER_POSTS"
  unfolding NEVER_POSTS_def NEVER_def list_all_steps
  by (intro conjI TrueI; (rule list.set_intros(1) | rule list.set_intros(2))+)

lemma NEVER_below:
  "(None, rx_seq [rx_lit ''/tui'', and_below]) \<in> set NEVER"
  "(Some ''POST'', rx_seq [rx_lit ''/experimental/workspace'', and_below]) \<in> set NEVER"
  "(Some ''DELETE'', rx_seq [rx_lit ''/experimental/workspace'', and_below]) \<in> set NEVER"
  unfolding NEVER_def by (rule list.set_intros(1) | rule list.set_intros(2))+

lemma NEVER_sync:
  "(Some ''POST'', rx_seq [rx_lit ''/sync/'', rx_alts [rx_lit ''start'', rx_lit ''steal'', rx_lit ''history'']])
     \<in> set NEVER"
  unfolding NEVER_def by (rule list.set_intros(1) | rule list.set_intros(2))+

text \<open>The 1.x routes that act outside every toggle are unreachable: no request under
  \<open>/tui\<close>, no workspace change, and none of the listed POSTs gets through.\<close>

theorem v1_never_reached:
  assumes "hono_every ev" "v1Guards ev hp (FEATURE_GUARDS hp) config c = Inr c'"
  shows "\<exists>path. canonicalPath (proxyRest (rq_path c') (rq_sessionId c')) = Some path \<and>
    (\<forall>p rest. strip_trailing_slashes path = slash # p \<longrightarrow>
       split_on slash p \<noteq> ''tui'' # rest \<and>
       (read_method (rq_method c') \<in> {''POST'', ''DELETE''} \<longrightarrow> split_on slash p \<noteq> ''experimental'' # ''workspace'' # rest)) \<and>
    (read_method (rq_method c') = ''POST'' \<longrightarrow> strip_trailing_slashes path \<notin>
       {''/sync/start'', ''/sync/steal'', ''/sync/history''} \<union> set NEVER_POSTS)"
proof -
  obtain d d' where d: "v1NeverGuard d = Inr d'" "same_request d' c'"
    using hono_every.v1Guards_passed [OF assms, of v1NeverGuard] by blast
  obtain path where path: "canonicalPath (proxyRest (rq_path d) (rq_sessionId d)) = Some path"
    "\<not> list_ex (\<lambda>(m, p). (m = None \<or> m = Some (read_method (rq_method d))) \<and> rx_test p (strip_trailing_slashes path)) NEVER"
    "d' = d"
    using v1NeverGuard_passes [OF d(1)] by blast
  have same: "proxyRest (rq_path c') (rq_sessionId c') = proxyRest (rq_path d) (rq_sessionId d)"
    "rq_method c' = rq_method d"
    using proxied_same [OF d(2)] path(3) by auto
  let ?b = "strip_trailing_slashes path"
  have nl: "list_all not_newline ?b"
    using canonical_not_newline [OF path(1)] set_strip_trailing [of path] by (auto simp: list_all_iff)
  have sync: "rx_test (rx_seq [rx_lit ''/sync/'', rx_alts [rx_lit ''start'', rx_lit ''steal'', rx_lit ''history'']]) ?b"
    if "?b \<in> {''/sync/start'', ''/sync/steal'', ''/sync/history''}"
    using that unfolding rx_test_iff rx_lang by (auto simp del: rx_lit.simps)
  have e: "\<not> rx_test p ?b" if "(m, p) \<in> set NEVER" "m = None \<or> m = Some (read_method (rq_method d))" for m p
    using path(2) that by (auto simp: list_ex_iff)
  have n1: "\<not> (\<exists>r. ?b = ''/tui'' @ r \<and> (r = [] \<or> hd r = slash))"
    using e [OF NEVER_below(1)] unfolding never_below [OF nl] by simp
  have n2: "\<not> (\<exists>r. ?b = ''/experimental/workspace'' @ r \<and> (r = [] \<or> hd r = slash))"
    if m: "read_method (rq_method d) \<in> {''POST'', ''DELETE''}"
  proof -
    have "\<not> rx_test (rx_seq [rx_lit ''/experimental/workspace'', and_below]) ?b"
      using m
    proof (elim insertE emptyE)
      assume "read_method (rq_method d) = ''POST''"
      then show ?thesis using e [OF NEVER_below(2)] by simp
    next
      assume "read_method (rq_method d) = ''DELETE''"
      then show ?thesis using e [OF NEVER_below(3)] by simp
    qed
    then show ?thesis unfolding never_below [OF nl] .
  qed
  have n3: "?b \<noteq> x" if "read_method (rq_method d) = ''POST''" "x \<in> set NEVER_POSTS" for x
  proof -
    have "(Some ''POST'', rx_lit x) \<in> set NEVER" using NEVER_posts that(2) by (simp only: list_all_iff)
    from e [OF this] show ?thesis unfolding lit_rx by (simp add: that(1))
  qed
  have n4: "?b \<notin> {''/sync/start'', ''/sync/steal'', ''/sync/history''}" if "read_method (rq_method d) = ''POST''"
  proof -
    have "\<not> rx_test (rx_seq [rx_lit ''/sync/'', rx_alts [rx_lit ''start'', rx_lit ''steal'', rx_lit ''history'']]) ?b"
      using e [OF NEVER_sync] that by simp
    with sync show ?thesis by metis
  qed
  have w1: "split_on slash p \<noteq> ''tui'' # rest" if b: "?b = slash # p" for p rest
    using n1 segment_prefix [of "''tui''" p] unfolding b by fastforce
  have w2: "split_on slash p \<noteq> ''experimental'' # ''workspace'' # rest"
    if b: "?b = slash # p" and m: "read_method (rq_method d) \<in> {''POST'', ''DELETE''}" for p rest
  proof
    assume sp: "split_on slash p = ''experimental'' # ''workspace'' # rest"
    have "p = join [slash] (''experimental'' # ''workspace'' # rest)"
      using join_split_on [of slash p] unfolding sp by (rule sym)
    also have "\<dots> = ''experimental/'' @ join [slash] (''workspace'' # rest)" by simp
    also have "join [slash] (''workspace'' # rest) = ''workspace'' @ (if rest = [] then [] else slash # join [slash] rest)"
      by (cases rest) simp_all
    finally have p: "p = ''experimental/'' @ ''workspace'' @ (if rest = [] then [] else slash # join [slash] rest)" .
    have "?b = ''/experimental/workspace'' @ (if rest = [] then [] else slash # join [slash] rest)"
      unfolding b by (subst p) (simp only: append_Cons append_Nil)
    then have "\<exists>r. ?b = ''/experimental/workspace'' @ r \<and> (r = [] \<or> hd r = slash)"
      by (intro exI [of _ "if rest = [] then [] else slash # join [slash] rest"] conjI) simp_all
    then show False by (rule notE [OF n2 [OF m]])
  qed
  show ?thesis
    unfolding same
  proof (intro exI [of _ path] conjI allI impI)
    fix p rest
    assume "?b = slash # p"
    then show "split_on slash p \<noteq> ''tui'' # rest" by (rule w1)
  next
    fix p rest
    assume "?b = slash # p" "read_method (rq_method d) \<in> {''POST'', ''DELETE''}"
    then show "split_on slash p \<noteq> ''experimental'' # ''workspace'' # rest" by (rule w2)
  next
    assume "read_method (rq_method d) = ''POST''"
    then show "?b \<notin> {''/sync/start'', ''/sync/steal'', ''/sync/history''} \<union> set NEVER_POSTS"
      using n3 n4 by (simp only: Un_iff) metis
  qed (rule path(1))
qed

theorem v1_never_reached_witness: "split_on slash ''provider'' \<noteq> ''tui'' # []"
proof -
  from provider_passes obtain c' where c: "v1 all_off (request ''GET'' ''/provider'' []) = Inr c'"
    "proxyRest (rq_path c') (rq_sessionId c') = ''/provider''"
    by (auto split: sum.splits)
  have p: "canonicalPath ''/provider'' = Some ''/provider''" "strip_trailing_slashes ''/provider'' = ''/provider''"
    by code_simp+
  from v1_never_reached [OF run.hono_every_axioms c(1)] show ?thesis unfolding c(2) p(1) using p(2) by auto
qed

text \<open>What the guards of a 1.x session let through is the request that came in: the same
  method, urls, session and user, and the bytes that are forwarded are the bytes that were
  sent, read or not.\<close>

theorem v1_request_unchanged:
  assumes "hono_every ev" "v1Guards ev hp (FEATURE_GUARDS hp) config c = Inr c'"
  shows "same_request c c' \<and>
    (rq_method c' = ''GET'' \<or> rq_method c' = ''HEAD'' \<or>
      (\<exists>p. rawPath hp (rq_url c') = Some p \<and> isPlainPath p))"
  using hono_every.v1Guards_keeps [OF assms] v1Guards_plain [OF assms] by blast

theorem v1_request_unchanged_witness:
  "\<exists>c'. v1 all_off command_request = Inr c' \<and> forwarded_body c' = forwarded_body command_request"
proof (rule command_posts)
  fix c'
  assume c: "v1 all_off command_request = Inr c'"
  from v1_request_unchanged [OF run.hono_every_axioms this] have "forwarded_body c' = forwarded_body command_request"
    by (simp add: same_request_def)
  with c show ?thesis by blast
qed

end
