(* ===== verification/V2Policy.thy ===== *)
theory V2Policy
  imports V2Guard V1Policy
begin

text \<open>
  What the guards guarantee about a request of a 2.x session that reaches the proxy, and about
  any session's request, stated on the request that is forwarded.
\<close>

section \<open>The route of a request\<close>

context hono_every
begin

lemma v2Guards_split:
  assumes "v2Guards ev hp info config c = Inr c'"
  shows "v2Guard (v2_features config) info c = Inr c' \<and>
    (rq_method c = ''GET'' \<or> rq_method c = ''HEAD'' \<or> (\<exists>p. rawPath hp (rq_url c) = Some p \<and> isPlainPath p))"
  using assms plainPathGuard_passes [of hp "reject ''unsupported characters in path''" c]
  by (auto simp: v2Guards_def every_Cons every_Nil andThen_eq_Inr)

end

lemma v2Guards_keeps:
  assumes "hono_every ev" "v2Guards ev hp info config c = Inr c'"
  shows "same_request c c'"
  using hono_every.v2Guards_split [OF assms] v2.keeps by blast

lemma v2_trim_newline: "canonicalPath r = Some path \<Longrightarrow> list_all not_newline (v2_trim path)"
  using canonical_not_newline [of r path] set_strip_trailing [of path]
  by (auto simp: v2_trim_def list_all_iff)

lemma v2_matches_template:
  assumes "(m, t, r) \<in> set V2_ROUTES" "list_all not_newline path"
  shows "v2_matches method path (m, t, r) \<longleftrightarrow>
    m = method \<and> template_matches (template_segments t) (split_on slash path)"
proof -
  have "plain_template t" using assms(1) V2_ROUTES_shape unfolding list_all_iff by fast
  from templateRegex_matches [OF this assms(2)] show ?thesis
    by (auto simp: v2_matches_def template_segments_def)
qed

lemma v2_route_Some: "v2_route method path = Some x \<Longrightarrow> x \<in> set V2_ROUTES \<and> v2_matches method path x"
  by (auto simp: v2_route_def find_Some_iff)

text \<open>No other template of the method may match a path the given one matches.\<close>

definition only_template :: "str \<Rightarrow> str \<Rightarrow> bool" where
  "only_template method t =
     list_all (\<lambda>(m, t', _). m \<noteq> method \<or> t' = t \<or> \<not> may_overlap (template_segments t') (template_segments t)) V2_ROUTES"

lemma v2_route_template:
  assumes "v2_route method path = Some (m, t', r)" "only_template method t" "list_all not_newline path"
    "template_matches (template_segments t) (split_on slash path)"
  shows "t' = t"
proof -
  have "(m, t', r) \<in> set V2_ROUTES" "m = method" "template_matches (template_segments t') (split_on slash path)"
    using v2_route_Some [OF assms(1)] v2_matches_template [OF _ assms(3)] by auto
  then show ?thesis using assms(2,4) may_overlapI by (fastforce simp: only_template_def list_all_iff)
qed

lemma only_templates:
  "only_template ''POST'' ''/api/session/:sessionID/command''"
  "only_template ''POST'' ''/api/session/:sessionID/prompt''"
  "only_template ''POST'' ''/api/experimental/fs/write''"
  by code_simp+

text \<open>A POST that got through was checked by \<open>checkRequest\<close> for its template.\<close>

lemma v2_post_checked:
  assumes "hono_every ev" "v2Guards ev hp info config c = Inr c'" "rq_method c' = ''POST''"
    "canonicalPath (proxyRest (rq_path c') (rq_sessionId c')) = Some path" "only_template ''POST'' t"
    "template_matches (template_segments t) (split_on slash (v2_trim path))"
  shows "\<exists>d. same_request c d \<and> same_request d c' \<and> checkRequest info (v2_features config) t d = (None, c')"
proof -
  have g: "v2Guard (v2_features config) info c = Inr c'" using hono_every.v2Guards_split [OF assms(1,2)] by simp
  have same: "same_request c c'" using v2.keeps [OF g] .
  have "rq_method c = ''POST''" "proxyRest (rq_path c) (rq_sessionId c) = proxyRest (rq_path c') (rq_sessionId c')"
    using same assms(3) by (simp_all add: same_request_def)
  then obtain m t' r where r: "v2_route ''POST'' (v2_trim path) = Some (m, t', r)"
    "checkRequest info (v2_features config) t' c = (None, c')"
    using v2Guard_passes [OF g] assms(4) by (auto simp: read_method_def)
  then have "t' = t" using v2_route_template assms(5,6) v2_trim_newline [OF assms(4)] by blast
  then show ?thesis using r(2) same same_request_refl by blast
qed

section \<open>The checks of the session routes\<close>

lemma checkRequest_session:
  assumes "checkRequest info fs t d = (None, c')"
    "t = ''/api/session/:sessionID/command'' \<or> t = ''/api/session/:sessionID/prompt''"
  shows "(\<not> fs Shell2 \<longrightarrow> t = ''/api/session/:sessionID/command'' \<longrightarrow> command_check (body_fields c') = None) \<and>
    (\<not> fs Uploads2 \<or> \<not> fs Downloads2 \<longrightarrow> files_check fs (body_fields c') = None)"
proof -
  let ?files = "check_when ((\<not> fs Uploads2 \<or> \<not> fs Downloads2) \<and>
            (t = ''/api/session/:sessionID/prompt'' \<or> t = ''/api/session/:sessionID/command''))
          (files_check fs) allowed"
  let ?cmd = "check_when (\<not> fs Shell2 \<and> t = ''/api/session/:sessionID/command'') command_check ?files"
  have t: "t \<noteq> ''/api/experimental/fs/write''" "t \<noteq> ''/api/worktree''" "t \<noteq> ''/api/project/:projectID''"
    "t \<noteq> ''/api/session''" "t \<noteq> ''/api/session/:sessionID''"
    using assms(2) by auto
  have s: "sound_check ?files" "sound_check ?cmd"
    by (intro sound_check_when sound_allowed)+
  have cmd: "?cmd d = (None, c')"
    using assms(1) unfolding checkRequest_def check_when_def [of _ "permissions_check fs"]
    by (simp only: t if_False simp_thms)
  from check_when_None [OF cmd s(1)] obtain e where e: "?files e = (None, c')"
    and shell: "\<not> fs Shell2 \<and> t = ''/api/session/:sessionID/command'' \<longrightarrow> command_check (body_fields c') = None"
    by blast
  from check_when_None [OF e sound_allowed] shell assms(2) show ?thesis by blast
qed

lemma files_check_None:
  assumes "files_check fs body = None" "f \<in> set (attached_files body)"
  shows "(\<not> fs Uploads2 \<longrightarrow> \<not> file_not_uri f) \<and> (\<not> fs Downloads2 \<longrightarrow> \<not> not_data_uri f)"
  using assms by (auto simp: files_check_def list_ex_iff split: if_splits)

text \<open>A POST to a session's command or prompt.\<close>

definition posts_v2 :: "ctx \<Rightarrow> str \<Rightarrow> bool" where
  "posts_v2 c action \<longleftrightarrow>
     rq_method c = ''POST'' \<and>
     (\<exists>path sid. canonicalPath (proxyRest (rq_path c) (rq_sessionId c)) = Some path \<and> sid \<noteq> [] \<and>
        split_on slash (v2_trim path) = [[], ''api'', ''session'', sid, action])"

lemma session_templates:
  "template_segments ''/api/session/:sessionID/command'' = [[], ''api'', ''session'', '':sessionid'', ''command'']"
  "template_segments ''/api/session/:sessionID/prompt'' = [[], ''api'', ''session'', '':sessionid'', ''prompt'']"
  "template_segments ''/api/experimental/fs/write'' = [[], ''api'', ''experimental'', ''fs'', ''write'']"
  by code_simp+

lemma posts_v2_checked:
  assumes "hono_every ev" "v2Guards ev hp info config c = Inr c'" "posts_v2 c' action"
    "action \<in> {''command'', ''prompt''}"
  shows "(\<not> v2_features config Shell2 \<longrightarrow> action = ''command'' \<longrightarrow> command_check (body_fields c') = None) \<and>
    (\<not> v2_features config Uploads2 \<or> \<not> v2_features config Downloads2 \<longrightarrow>
       files_check (v2_features config) (body_fields c') = None)"
proof -
  from assms(3) obtain path sid where p: "rq_method c' = ''POST''"
    "canonicalPath (proxyRest (rq_path c') (rq_sessionId c')) = Some path" "sid \<noteq> []"
    "split_on slash (v2_trim path) = [[], ''api'', ''session'', sid, action]"
    unfolding posts_v2_def by blast
  consider "action = ''command''" | "action = ''prompt''" using assms(4) by blast
  then show ?thesis
  proof cases
    case 1
    have "template_matches (template_segments ''/api/session/:sessionID/command'') (split_on slash (v2_trim path))"
      unfolding p(4) session_templates 1 using p(3) by (simp add: segment_matches_def)
    from v2_post_checked [OF assms(1,2) p(1,2) only_templates(1) this] checkRequest_session 1
    show ?thesis by blast
  next
    case 2
    have "template_matches (template_segments ''/api/session/:sessionID/prompt'') (split_on slash (v2_trim path))"
      unfolding p(4) session_templates 2 using p(3) by (simp add: segment_matches_def)
    from v2_post_checked [OF assms(1,2) p(1,2) only_templates(2) this] checkRequest_session 2
    show ?thesis by auto
  qed
qed

section \<open>Concrete requests\<close>

definition config_v2_without :: "FeatureNameV2 list \<Rightarrow> RcConfig" where
  "config_v2_without off =
     \<lparr>serverUrl = None, features = (\<lambda>_. True), v2_features = (\<lambda>f. f \<notin> set off), v2_versions = None\<rparr>"

definition some_info :: fetch_info where
  "some_info c = Some (JObj [(''paths'', JObj [(''tmp'', JStr ''/tmp/oc/'')])])"

abbreviation v2 :: "FeatureNameV2 list \<Rightarrow> ctx \<Rightarrow> response + ctx" where
  "v2 off \<equiv> v2Guards run_every any_host some_info (config_v2_without off)"

definition v2_command_request :: ctx where
  "v2_command_request = request ''POST'' ''/api/session/x/command'' ''{\"text\":\"a b\",\"files\":[]}''"

lemma v2_command_passes: "case v2 [Shell2] v2_command_request of
    Inl _ \<Rightarrow> False
  | Inr c' \<Rightarrow> rq_method c' = ''POST'' \<and> proxyRest (rq_path c') (rq_sessionId c') = ''/api/session/x/command'' \<and>
      body_fields c' = [(''text'', JStr ''a b''), (''files'', JArr [])]"
  by code_simp

definition v2_prompt_request :: ctx where
  "v2_prompt_request = request ''POST'' ''/api/session/x/prompt'' ''{\"files\":[{\"uri\":\"data:,a\"}]}''"

lemma v2_prompt_passes: "case v2 [Downloads2] v2_prompt_request of
    Inl _ \<Rightarrow> False
  | Inr c' \<Rightarrow> rq_method c' = ''POST'' \<and> proxyRest (rq_path c') (rq_sessionId c') = ''/api/session/x/prompt'' \<and>
      body_fields c' = [(''files'', JArr [JObj [(''uri'', JStr ''data:,a'')]])]"
  by code_simp

definition v2_write_request :: ctx where
  "v2_write_request = (request ''POST'' ''/api/experimental/fs/write'' ''x'')
     \<lparr>rq_url := ''http://h/proxy/s/api/experimental/fs/write?path=/tmp/oc/uploads/a.txt''\<rparr>"

lemma v2_write_passes: "case v2 [] v2_write_request of
    Inl _ \<Rightarrow> False
  | Inr c' \<Rightarrow> rq_method c' = ''POST'' \<and>
      rq_url c' = ''http://h/proxy/s/api/experimental/fs/write?path=/tmp/oc/uploads/a.txt'' \<and>
      proxyRest (rq_path c') (rq_sessionId c') = ''/api/experimental/fs/write''"
  by code_simp

section \<open>Properties\<close>

text \<open>C5. Default deny for opencode 2.x: a request that gets through matches a row of the route
  table, segment by segment, whose rule allows it; and whatever rows it matches, none is a
  \<open>never\<close> row or belongs to a disabled feature, so the order of the table cannot open a route.\<close>

theorem v2_default_deny:
  assumes "hono_every ev" "v2Guards ev hp info config c = Inr c'" "rq_method c' \<noteq> ''OPTIONS''"
  shows "\<exists>path. canonicalPath (proxyRest (rq_path c') (rq_sessionId c')) = Some path \<and>
    (\<exists>t r. (read_method (rq_method c'), t, r) \<in> set V2_ROUTES \<and>
       template_matches (template_segments t) (split_on slash (v2_trim path))) \<and>
    (\<forall>t r. (read_method (rq_method c'), t, r) \<in> set V2_ROUTES \<longrightarrow>
       template_matches (template_segments t) (split_on slash (v2_trim path)) \<longrightarrow>
       (case r of Allow \<Rightarrow> True | Never \<Rightarrow> False | Feature f \<Rightarrow> v2_features config f))"
proof -
  have g: "v2Guard (v2_features config) info c = Inr c'" using hono_every.v2Guards_split [OF assms(1,2)] by simp
  have same: "rq_method c = rq_method c'" "proxyRest (rq_path c) (rq_sessionId c) = proxyRest (rq_path c') (rq_sessionId c')"
    using v2.keeps [OF g] by (simp_all add: same_request_def)
  have "read_method (rq_method c') \<noteq> ''OPTIONS''" using assms(3) by (simp add: read_method_def)
  then obtain path m t r where p: "canonicalPath (proxyRest (rq_path c') (rq_sessionId c')) = Some path"
    "v2_route (read_method (rq_method c')) (v2_trim path) = Some (m, t, r)"
    "r = Allow \<or> (\<exists>f. r = Feature f \<and> v2_features config f)"
    using v2Guard_passes [OF g] same by auto
  have x: "(m, t, r) \<in> set V2_ROUTES" "v2_matches (read_method (rq_method c')) (v2_trim path) (m, t, r)"
    using v2_route_Some [OF p(2)] by auto
  have nl: "list_all not_newline (v2_trim path)" using v2_trim_newline [OF p(1)] .
  have mt: "m = read_method (rq_method c')" "template_matches (template_segments t) (split_on slash (v2_trim path))"
    using v2_matches_template [OF x(1) nl] x(2) by auto
  have "r' = r" if "(m, t', r') \<in> set V2_ROUTES"
      "template_matches (template_segments t') (split_on slash (v2_trim path))" for t' r'
    using V2_rules_agree [OF that(1) x(1)] may_overlapI [OF that(2) mt(2)] by blast
  then have rows: "case r' of Allow \<Rightarrow> True | Never \<Rightarrow> False | Feature f \<Rightarrow> v2_features config f"
    if "(read_method (rq_method c'), t', r') \<in> set V2_ROUTES"
      "template_matches (template_segments t') (split_on slash (v2_trim path))" for t' r'
    using that p(3) mt(1) by (metis V2Rule.simps(8,10))
  show ?thesis
    using p(1) x(1) [unfolded mt(1)] mt(2) rows by blast
qed

theorem v2_default_deny_witness:
  "\<exists>path. canonicalPath ''/api/session/x/command'' = Some path \<and>
     (\<exists>t r. (''POST'', t, r) \<in> set V2_ROUTES \<and>
        template_matches (template_segments t) (split_on slash (v2_trim path)))"
proof -
  from v2_command_passes obtain c' where c: "v2 [Shell2] v2_command_request = Inr c'" "rq_method c' = ''POST''"
    "proxyRest (rq_path c') (rq_sessionId c') = ''/api/session/x/command''"
    by (auto split: sum.splits)
  have "rq_method c' \<noteq> ''OPTIONS''" "read_method ''POST'' = ''POST''" using c(2) by (simp_all add: read_method_def)
  from v2_default_deny [OF run.hono_every_axioms c(1) this(1)] this(2)
  show ?thesis unfolding c(2,3) by auto
qed

text \<open>C10. A file written through opencode 2.x goes to the uploads folder of the machine's temporary
  directory: the path is below it, has no \<open>..\<close> segment, backslash or NUL.\<close>

theorem v2_write_confined:
  assumes "hono_every ev" "v2Guards ev hp info config c = Inr c'" "rq_method c' = ''POST''"
    and "canonicalPath (proxyRest (rq_path c') (rq_sessionId c')) = Some path"
    and "split_on slash (v2_trim path) = [[], ''api'', ''experimental'', ''fs'', ''write'']"
  shows "\<exists>p base d tmp. params_get ''path'' (search_params (url_search_of (rq_url c'))) = Some p \<and>
    tmp_path (info d) = Some (JStr tmp) \<and> base = drop_final_slash tmp \<and> base \<noteq> [] \<and>
    startsWith p (base @ ''/uploads/'') \<and> ''..'' \<notin> set (split_on slash p) \<and> CHR 92 \<notin> set p \<and> CHR 0x00 \<notin> set p"
proof -
  have "template_matches (template_segments ''/api/experimental/fs/write'') (split_on slash (v2_trim path))"
    unfolding assms(5) session_templates by (simp add: segment_matches_def)
  then obtain d where d: "same_request d c'"
    "checkRequest info (v2_features config) ''/api/experimental/fs/write'' d = (None, c')"
    using v2_post_checked [OF assms(1-4) only_templates(3)] by blast
  from d(2) have "checkFsWrite info d = None \<and> d = c'"
    by (auto simp: checkRequest_def)
  then have w: "checkFsWrite info d = None" ..
  have "rq_url d = rq_url c'" using d(1) by (simp add: same_request_def)
  with w show ?thesis
    by (auto simp: checkFsWrite_def Let_def split: option.splits if_splits json.splits)
qed

theorem v2_write_confined_witness:
  "''..'' \<notin> set (split_on slash ''/tmp/oc/uploads/a.txt'')"
proof -
  from v2_write_passes obtain c' where c: "v2 [] v2_write_request = Inr c'" "rq_method c' = ''POST''"
    "rq_url c' = ''http://h/proxy/s/api/experimental/fs/write?path=/tmp/oc/uploads/a.txt''"
    "proxyRest (rq_path c') (rq_sessionId c') = ''/api/experimental/fs/write''"
    by (auto split: sum.splits)
  have e: "canonicalPath ''/api/experimental/fs/write'' = Some ''/api/experimental/fs/write''"
    "split_on slash (v2_trim ''/api/experimental/fs/write'') = [[], ''api'', ''experimental'', ''fs'', ''write'']"
    "params_get ''path'' (search_params (url_search_of
       ''http://h/proxy/s/api/experimental/fs/write?path=/tmp/oc/uploads/a.txt'')) = Some ''/tmp/oc/uploads/a.txt''"
    by code_simp+
  have "canonicalPath (proxyRest (rq_path c') (rq_sessionId c')) = Some ''/api/experimental/fs/write''"
    unfolding c(4) by (rule e(1))
  from v2_write_confined [OF run.hono_every_axioms c(1,2) this e(2)]
  show ?thesis unfolding c(3) e(3) by auto
qed

text \<open>While shell commands are disabled, the text of a command that reaches opencode 2.x cannot
  complete a shell interpolation of its template.\<close>

theorem v2_shell_off:
  assumes "hono_every ev" "v2Guards ev hp info config c = Inr c'" "\<not> v2_features config Shell2"
    and "posts_v2 c' ''command''" "get_prop (body_fields c') ''text'' = Some (JStr t)"
    and "\<forall>x \<in> set pieces. x = t \<or> x \<in> set (argumentTokens t) \<or>
      \<not> includes_str x bang_tick \<and> \<not> endsWith x ''!''"
  shows "\<not> includes_str (concat pieces) bang_tick"
proof (rule pieces_no_bang_tick)
  have "command_check (body_fields c') = None" using posts_v2_checked [OF assms(1,2,4)] assms(3) by simp
  then show "\<not> mayRunShell (Some (JStr t))" using assms(5) by (simp add: command_check_def split: if_splits)
qed (rule assms(6))

theorem v2_shell_off_witness: "\<not> includes_str (''echo '' @ ''a'' @ ''`'') bang_tick"
proof -
  from v2_command_passes obtain c' where c: "v2 [Shell2] v2_command_request = Inr c'" "rq_method c' = ''POST''"
    "proxyRest (rq_path c') (rq_sessionId c') = ''/api/session/x/command''"
    "body_fields c' = [(''text'', JStr ''a b''), (''files'', JArr [])]"
    by (auto split: sum.splits)
  have e: "canonicalPath ''/api/session/x/command'' = Some ''/api/session/x/command''"
    "split_on slash (v2_trim ''/api/session/x/command'') = [[], ''api'', ''session'', ''x'', ''command'']"
    by code_simp+
  have "posts_v2 c' ''command''" unfolding posts_v2_def c(2,3) e(1) using e(2) by auto
  moreover have "\<forall>x \<in> set [''echo '', ''a'', ''`'']. x = ''a b'' \<or> x \<in> set (argumentTokens ''a b'') \<or>
      \<not> includes_str x bang_tick \<and> \<not> endsWith x ''!''"
    by code_simp
  moreover have "\<not> v2_features (config_v2_without [Shell2]) Shell2" by (simp add: config_v2_without_def)
  moreover have "get_prop (body_fields c') ''text'' = Some (JStr ''a b'')" using c(4) by (simp add: get_prop_def)
  ultimately have "\<not> includes_str (concat [''echo '', ''a'', ''`'']) bang_tick"
    using v2_shell_off [OF run.hono_every_axioms c(1)] by blast
  then show ?thesis by simp
qed

text \<open>While downloads are disabled, every file attached to a prompt or command that reaches
  opencode 2.x carries its bytes (a \<open>data:\<close> uri); while uploads are disabled, every one
  names a workspace file. With both disabled none gets through.\<close>

theorem v2_attachments:
  assumes "hono_every ev" "v2Guards ev hp info config c = Inr c'" "posts_v2 c' action"
    and "action \<in> {''command'', ''prompt''}" "f \<in> set (attached_files (body_fields c'))"
  shows "(\<not> v2_features config Uploads2 \<longrightarrow> \<not> file_not_uri f) \<and>
    (\<not> v2_features config Downloads2 \<longrightarrow> \<not> not_data_uri f)"
  using posts_v2_checked [OF assms(1-4)] files_check_None [OF _ assms(5)] by blast

theorem v2_attachments_witness: "\<not> not_data_uri (JObj [(''uri'', JStr ''data:,a'')])"
proof -
  from v2_prompt_passes obtain c' where c: "v2 [Downloads2] v2_prompt_request = Inr c'" "rq_method c' = ''POST''"
    "proxyRest (rq_path c') (rq_sessionId c') = ''/api/session/x/prompt''"
    "body_fields c' = [(''files'', JArr [JObj [(''uri'', JStr ''data:,a'')]])]"
    by (auto split: sum.splits)
  have e: "canonicalPath ''/api/session/x/prompt'' = Some ''/api/session/x/prompt''"
    "split_on slash (v2_trim ''/api/session/x/prompt'') = [[], ''api'', ''session'', ''x'', ''prompt'']"
    by code_simp+
  have "posts_v2 c' ''prompt''" unfolding posts_v2_def c(2,3) e(1) using e(2) by auto
  from v2_attachments [OF run.hono_every_axioms c(1) this]
  show ?thesis by (simp add: config_v2_without_def c(4) attached_files_def file_lists_def get_prop_def)
qed

text \<open>Whatever the session's version, what the guards let through is the request that came in:
  the same method, urls, session and user, and the bytes that are forwarded are the bytes that
  were sent, read or not. A request that may write has a plain path.\<close>

theorem guarded_request_unchanged:
  assumes "hono_every ev" "versionedGuards ev hp info config c = Inr c'"
  shows "same_request c c' \<and>
    (rq_method c' = ''GET'' \<or> rq_method c' = ''HEAD'' \<or>
      (\<exists>p. rawPath hp (rq_url c') = Some p \<and> isPlainPath p))"
proof (cases "isV1Session (sm_opencodeVersion (cv_session c))")
  case True
  then have "v1Guards ev hp (FEATURE_GUARDS hp) config c = Inr c'" using assms(2) by (simp add: versionedGuards_def)
  from hono_every.v1Guards_keeps [OF assms(1) this] v1Guards_plain [OF assms(1) this] show ?thesis by blast
next
  case False
  then have "v2Guards ev hp info config c = Inr c'" using assms(2) by (simp add: versionedGuards_def)
  from hono_every.v2Guards_split [OF assms(1) this] v2Guards_keeps [OF assms(1) this]
  show ?thesis by (auto simp: same_request_def)
qed

theorem guarded_request_unchanged_witness:
  "\<exists>c'. versionedGuards run_every any_host some_info (config_without all_off) command_request = Inr c' \<and>
     forwarded_body c' = forwarded_body command_request"
proof (rule command_posts)
  fix c'
  assume "v1 all_off command_request = Inr c'"
  moreover have "isV1Session (sm_opencodeVersion (cv_session command_request))" by code_simp
  ultimately have c: "versionedGuards run_every any_host some_info (config_without all_off) command_request = Inr c'"
    by (simp add: versionedGuards_def)
  from guarded_request_unchanged [OF run.hono_every_axioms this] have "forwarded_body c' = forwarded_body command_request"
    by (simp add: same_request_def)
  with c show ?thesis by blast
qed

end
