(* ===== verification/Redis.thy ===== *)
theory Redis
  imports Json
begin

text \<open>
  Effects on the shared store. An operation of the API that talks to Redis is a function of the
  state it finds, which either throws (\<open>Inl\<close>, the connection or the server failing) or
  returns, and the state it leaves. \<open>io_bind\<close> is \<open>await\<close>, \<open>io_catch\<close> is
  \<open>try ... catch\<close>, and \<open>ensures\<close> is the triple the proofs are made of.

  The record \<open>redis\<close> has the commands the API sends. Redis is not part of the program: the
  locale \<open>redis_server\<close> states what the documentation says of them over the keys
  (\<open>entry\<close>: value and time of expiry) and the clock (milliseconds). A command that fails
  may or may not have been executed, and time passes while a command is under way. The laws hold
  of \<open>mem_redis\<close>, a store in memory.
\<close>

section \<open>Operations that may fail\<close>

type_synonym ('s, 'a) io = "'s \<Rightarrow> (str + 'a) \<times> 's"

definition io_return :: "'a \<Rightarrow> ('s, 'a) io" where
  "io_return a s = (Inr a, s)"

definition io_throw :: "str \<Rightarrow> ('s, 'a) io" where
  "io_throw e s = (Inl e, s)"

definition io_bind :: "('s, 'a) io \<Rightarrow> ('a \<Rightarrow> ('s, 'b) io) \<Rightarrow> ('s, 'b) io" where
  "io_bind m f s = (case m s of (Inl e, s') \<Rightarrow> (Inl e, s') | (Inr a, s') \<Rightarrow> f a s')"

definition io_catch :: "('s, 'a) io \<Rightarrow> ('s, 'a) io \<Rightarrow> ('s, 'a) io" where
  "io_catch m h s = (case m s of (Inl e, s') \<Rightarrow> h s' | r \<Rightarrow> r)"

definition io_lift :: "str + 'a \<Rightarrow> ('s, 'a) io" where
  "io_lift r s = (r, s)"

lemma io_bind_Inr: "io_bind m f s = (Inr b, s') \<longleftrightarrow> (\<exists>a t. m s = (Inr a, t) \<and> f a t = (Inr b, s'))"
  by (auto simp: io_bind_def split: prod.splits sum.splits)

lemma io_return_eq [simp]: "io_return a s = (r, s') \<longleftrightarrow> r = Inr a \<and> s' = s"
  by (auto simp: io_return_def)

lemma io_throw_eq [simp]: "io_throw e s = (r, s') \<longleftrightarrow> r = Inl e \<and> s' = s"
  by (auto simp: io_throw_def)

lemma io_lift_eq [simp]: "io_lift x s = (r, s') \<longleftrightarrow> r = x \<and> s' = s"
  by (auto simp: io_lift_def)

lemma run_eq: "fst p = r \<Longrightarrow> p = (r, snd p)"
  by auto

section \<open>Triples\<close>

text \<open>From \<open>P\<close>, a normal end satisfies \<open>Q\<close> and an exceptional one \<open>E\<close>.\<close>

definition ensures :: "('s \<Rightarrow> bool) \<Rightarrow> ('s, 'a) io \<Rightarrow> ('a \<Rightarrow> 's \<Rightarrow> bool) \<Rightarrow> ('s \<Rightarrow> bool) \<Rightarrow> bool" where
  "ensures P m Q E \<longleftrightarrow> (\<forall>s. P s \<longrightarrow> (case m s of (Inl e, s') \<Rightarrow> E s' | (Inr a, s') \<Rightarrow> Q a s'))"

named_theorems io_rules "triples of the operations"

lemma ensuresI: "(\<And>s e s'. P s \<Longrightarrow> m s = (Inl e, s') \<Longrightarrow> E s') \<Longrightarrow>
    (\<And>s a s'. P s \<Longrightarrow> m s = (Inr a, s') \<Longrightarrow> Q a s') \<Longrightarrow> ensures P m Q E"
  unfolding ensures_def by (auto split: prod.splits sum.splits)

lemma ensuresD: "ensures P m Q E \<Longrightarrow> P s \<Longrightarrow> m s = (Inr a, s') \<Longrightarrow> Q a s'"
  unfolding ensures_def by (metis (no_types, lifting) old.prod.case sum.case(2))

lemma ensuresD_error: "ensures P m Q E \<Longrightarrow> P s \<Longrightarrow> m s = (Inl e, s') \<Longrightarrow> E s'"
  unfolding ensures_def by (metis (no_types, lifting) old.prod.case sum.case(1))

lemma ensures_return [io_rules]: "(\<And>s. P s \<Longrightarrow> Q a s) \<Longrightarrow> ensures P (io_return a) Q E"
  by (rule ensuresI) simp_all

lemma ensures_throw [io_rules]: "(\<And>s. P s \<Longrightarrow> E s) \<Longrightarrow> ensures P (io_throw e) Q E"
  by (rule ensuresI) simp_all

lemma ensures_lift: "(\<And>a s. r = Inr a \<Longrightarrow> P s \<Longrightarrow> Q a s) \<Longrightarrow> (\<And>s. P s \<Longrightarrow> E s) \<Longrightarrow> ensures P (io_lift r) Q E"
  by (rule ensuresI) simp_all

lemma ensures_bind:
  assumes "ensures P m B E" "\<And>a. ensures (B a) (f a) Q E"
  shows "ensures P (io_bind m f) Q E"
  using assms by (fastforce simp: ensures_def io_bind_def split: prod.splits sum.splits)

lemma ensures_catch:
  assumes "ensures P m Q B" "ensures B h Q E"
  shows "ensures P (io_catch m h) Q E"
  using assms by (fastforce simp: ensures_def io_catch_def split: prod.splits sum.splits)

lemma ensures_weaken:
  "ensures P' m Q' E' \<Longrightarrow> (\<And>s. P s \<Longrightarrow> P' s) \<Longrightarrow> (\<And>a s. Q' a s \<Longrightarrow> Q a s) \<Longrightarrow> (\<And>s. E' s \<Longrightarrow> E s) \<Longrightarrow>
    ensures P m Q E"
  by (fastforce simp: ensures_def split: prod.splits sum.splits)

lemma ensures_if:
  "(b \<Longrightarrow> ensures P m Q E) \<Longrightarrow> (\<not> b \<Longrightarrow> ensures P n Q E) \<Longrightarrow> ensures P (if b then m else n) Q E"
  by simp

lemma ensures_case_option [io_rules]:
  "(x = None \<Longrightarrow> ensures P m Q E) \<Longrightarrow> (\<And>a. x = Some a \<Longrightarrow> ensures P (f a) Q E) \<Longrightarrow>
    ensures P (case x of None \<Rightarrow> m | Some a \<Rightarrow> f a) Q E"
  by (cases x) simp_all

lemmas [io_rules] = ensures_if

text \<open>An operation that keeps an invariant, whatever its outcome.\<close>

abbreviation keeps :: "('s \<Rightarrow> bool) \<Rightarrow> ('s, 'a) io \<Rightarrow> bool" where
  "keeps P m \<equiv> ensures P m (\<lambda>_. P) P"

lemma keepsD: "keeps P m \<Longrightarrow> P s \<Longrightarrow> m s = (r, s') \<Longrightarrow> P s'"
  by (cases r) (auto dest: ensuresD ensuresD_error)

lemma keeps_bind [io_rules]: "keeps P m \<Longrightarrow> (\<And>a. keeps P (f a)) \<Longrightarrow> keeps P (io_bind m f)"
  by (rule ensures_bind)

lemma keeps_lift [io_rules]: "keeps P (io_lift r)"
  by (rule ensures_lift)

lemma keeps_catch [io_rules]: "keeps P m \<Longrightarrow> keeps P h \<Longrightarrow> keeps P (io_catch m h)"
  by (rule ensures_catch)

section \<open>Commands\<close>

text \<open>
  \<open>SET k v EX n\<close>, the same with \<open>NX\<close> (true is \<open>"OK"\<close>), \<open>TTL\<close> in
  seconds. The results the API does not use are left out.
\<close>

record 's redis =
  rget :: "str \<Rightarrow> ('s, str option) io"
  rgetdel :: "str \<Rightarrow> ('s, str option) io"
  rset_ex :: "str \<Rightarrow> str \<Rightarrow> nat \<Rightarrow> ('s, unit) io"
  rset_ex_nx :: "str \<Rightarrow> str \<Rightarrow> nat \<Rightarrow> ('s, bool) io"
  rdel :: "str \<Rightarrow> ('s, unit) io"
  rttl :: "str \<Rightarrow> ('s, int) io"
  rincr :: "str \<Rightarrow> ('s, unit) io"

type_synonym entries = "str \<Rightarrow> (str \<times> nat option) option"

definition live :: "entries \<Rightarrow> nat \<Rightarrow> str \<Rightarrow> str option" where
  "live es now k =
     (case es k of
        None \<Rightarrow> None
      | Some (v, None) \<Rightarrow> Some v
      | Some (v, Some e) \<Rightarrow> if now < e then Some v else None)"

lemma live_mono: "live es now k = None \<Longrightarrow> now \<le> now' \<Longrightarrow> live es now' k = None"
  by (auto simp: live_def split: option.splits if_splits)

lemma live_entry: "live es now k = Some v \<Longrightarrow> \<exists>e. es k = Some (v, e)"
  by (auto simp: live_def split: option.splits if_splits)

lemma live_None_entry: "es k = None \<Longrightarrow> live es now k = None"
  by (simp add: live_def)

lemma live_upd: "live (es(k := x)) now k' =
    (if k' = k then (case x of None \<Rightarrow> None | Some (v, None) \<Rightarrow> Some v | Some (v, Some e) \<Rightarrow> if now < e then Some v else None)
     else live es now k')"
  by (simp add: live_def split: option.splits prod.splits)

text \<open>\<open>TTL\<close> is rounded to a whole second.\<close>

definition ttl_of :: "entries \<Rightarrow> nat \<Rightarrow> str \<Rightarrow> int \<Rightarrow> bool" where
  "ttl_of es now k t =
     (case live es now k of
        None \<Rightarrow> t = -2
      | Some _ \<Rightarrow>
          (case es k of
             Some (_, Some e) \<Rightarrow> 0 \<le> t \<and> \<bar>1000 * t - (int e - int now)\<bar> \<le> 1000
           | _ \<Rightarrow> t = -1))"

text \<open>\<open>INCR\<close> of a key that holds a number or nothing; the expiry stays.\<close>

definition incremented :: "(str \<Rightarrow> str) \<Rightarrow> entries \<Rightarrow> nat \<Rightarrow> str \<Rightarrow> entries" where
  "incremented next es now k =
     (case live es now k of
        None \<Rightarrow> es(k := Some (''1'', None))
      | Some v \<Rightarrow> es(k := Some (next v, snd (the (es k)))))"

locale redis_server =
  fixes R :: "'s redis" and entry :: "'s \<Rightarrow> entries" and clock :: "'s \<Rightarrow> nat" and succ_text :: "str \<Rightarrow> str"
  assumes get: "rget R k s = (rv, s') \<Longrightarrow>
      entry s' = entry s \<and> clock s \<le> clock s' \<and> (\<forall>v. rv = Inr v \<longrightarrow> v = live (entry s) (clock s) k)"
    and getdel: "rgetdel R k s = (rv, s') \<Longrightarrow> clock s \<le> clock s' \<and>
      (entry s' = (entry s)(k := None) \<and> (\<forall>v. rv = Inr v \<longrightarrow> v = live (entry s) (clock s) k) \<or>
       (\<exists>e. rv = Inl e) \<and> entry s' = entry s)"
    and set_ex: "rset_ex R k v n s = (ru, s') \<Longrightarrow> clock s \<le> clock s' \<and>
      (entry s' = (entry s)(k \<mapsto> (v, Some (clock s + 1000 * n))) \<or> (\<exists>e. ru = Inl e) \<and> entry s' = entry s)"
    and set_ex_nx: "rset_ex_nx R k v n s = (rb, s') \<Longrightarrow> clock s \<le> clock s' \<and>
      (live (entry s) (clock s) k = None \<and> (\<forall>b. rb = Inr b \<longrightarrow> b) \<and>
         entry s' = (entry s)(k \<mapsto> (v, Some (clock s + 1000 * n))) \<or>
       live (entry s) (clock s) k \<noteq> None \<and> (\<forall>b. rb = Inr b \<longrightarrow> \<not> b) \<and> entry s' = entry s \<or>
       (\<exists>e. rb = Inl e) \<and> entry s' = entry s)"
    and del: "rdel R k s = (ru, s') \<Longrightarrow> clock s \<le> clock s' \<and>
      (entry s' = (entry s)(k := None) \<or> (\<exists>e. ru = Inl e) \<and> entry s' = entry s)"
    and ttl: "rttl R k s = (rt, s') \<Longrightarrow>
      entry s' = entry s \<and> clock s \<le> clock s' \<and> (\<forall>t. rt = Inr t \<longrightarrow> ttl_of (entry s) (clock s) k t)"
    and incr: "rincr R k s = (ru, s') \<Longrightarrow> clock s \<le> clock s' \<and>
      (entry s' = incremented succ_text (entry s) (clock s) k \<or> (\<exists>e. ru = Inl e) \<and> entry s' = entry s)"
begin

text \<open>What holds of the keys and stays true as time passes.\<close>

definition stable :: "('s \<Rightarrow> bool) \<Rightarrow> bool" where
  "stable P \<longleftrightarrow> (\<forall>s s'. P s \<longrightarrow> entry s' = entry s \<longrightarrow> clock s \<le> clock s' \<longrightarrow> P s')"

definition stable_upd :: "('s \<Rightarrow> bool) \<Rightarrow> str \<Rightarrow> ('s \<Rightarrow> (str \<times> nat option) option) \<Rightarrow> bool" where
  "stable_upd P k x \<longleftrightarrow>
     stable P \<and> (\<forall>s s'. P s \<longrightarrow> entry s' = (entry s)(k := x s) \<longrightarrow> clock s \<le> clock s' \<longrightarrow> P s')"

lemma stableD: "stable P \<Longrightarrow> P s \<Longrightarrow> entry s' = entry s \<Longrightarrow> clock s \<le> clock s' \<Longrightarrow> P s'"
  by (auto simp: stable_def)

lemma stable_updD: "stable_upd P k x \<Longrightarrow> P s \<Longrightarrow> entry s' = (entry s)(k := x s) \<Longrightarrow> clock s \<le> clock s' \<Longrightarrow> P s'"
  by (auto simp: stable_upd_def)

lemma stable_upd_stable: "stable_upd P k x \<Longrightarrow> stable P"
  by (simp add: stable_upd_def)

lemma stable_entry: "stable (\<lambda>s. Q (entry s))"
  by (simp add: stable_def)

lemma stable_upd_entry: "(\<And>s. Q (entry s) \<Longrightarrow> Q ((entry s)(k := x s))) \<Longrightarrow> stable_upd (\<lambda>s. Q (entry s)) k x"
  by (simp add: stable_upd_def stable_def)

lemma ensures_get:
  assumes "stable P"
  shows "ensures P (rget R k) (\<lambda>v s. P s \<and> (v = None \<longrightarrow> live (entry s) (clock s) k = None) \<and>
    (\<forall>w. v = Some w \<longrightarrow> (\<exists>e. entry s k = Some (w, e)))) P"
proof (rule ensuresI)
  fix s a s'
  assume P: "P s" and g: "rget R k s = (Inr a, s')"
  have "P s'" using get [OF g] P stableD [OF assms] by blast
  moreover have "a = live (entry s) (clock s) k" "entry s' = entry s" "clock s \<le> clock s'" using get [OF g] by auto
  ultimately show "P s' \<and> (a = None \<longrightarrow> live (entry s') (clock s') k = None) \<and>
      (\<forall>w. a = Some w \<longrightarrow> (\<exists>e. entry s' k = Some (w, e)))"
    using live_mono live_entry by metis
qed (use get stableD [OF assms] in blast)

lemma keeps_get: "stable P \<Longrightarrow> keeps P (rget R k)"
  by (rule ensures_weaken [OF ensures_get]) auto

lemma ensures_getdel:
  assumes "stable_upd P k (\<lambda>_. None)"
  shows "ensures P (rgetdel R k) (\<lambda>_ s. P s \<and> entry s k = None) P"
proof (rule ensuresI)
  fix s e s'
  assume P: "P s" and g: "rgetdel R k s = (Inl e, s')"
  show "P s'" using getdel [OF g] stable_updD [OF assms P] stableD [OF stable_upd_stable [OF assms] P] by blast
next
  fix s a s'
  assume P: "P s" and g: "rgetdel R k s = (Inr a, s')"
  have "entry s' = (entry s)(k := None)" "clock s \<le> clock s'" using getdel [OF g] by auto
  then show "P s' \<and> entry s' k = None" using stable_updD [OF assms P] by simp
qed

lemma keeps_getdel: "stable_upd P k (\<lambda>_. None) \<Longrightarrow> keeps P (rgetdel R k)"
  by (rule ensures_weaken [OF ensures_getdel]) auto

lemma keeps_set_ex:
  assumes "stable_upd P k (\<lambda>s. Some (v, Some (clock s + 1000 * n)))"
  shows "keeps P (rset_ex R k v n)"
  by (rule ensuresI) (use set_ex stable_updD [OF assms] stableD [OF stable_upd_stable [OF assms]] in blast)+

lemma keeps_set_ex_nx:
  assumes "stable_upd P k (\<lambda>s. Some (v, Some (clock s + 1000 * n)))"
  shows "keeps P (rset_ex_nx R k v n)"
  by (rule ensuresI) (use set_ex_nx stable_updD [OF assms] stableD [OF stable_upd_stable [OF assms]] in metis)+

lemma keeps_del:
  assumes "stable_upd P k (\<lambda>_. None)"
  shows "keeps P (rdel R k)"
  by (rule ensuresI) (use del stable_updD [OF assms] stableD [OF stable_upd_stable [OF assms]] in blast)+

lemma keeps_ttl:
  assumes "stable P"
  shows "keeps P (rttl R k)"
  by (rule ensuresI) (use ttl stableD [OF assms] in blast)+

end

section \<open>A store in memory\<close>

text \<open>No command fails and none takes time.\<close>

record mem =
  mem_entries :: entries
  mem_clock :: nat

definition mem_live :: "mem \<Rightarrow> str \<Rightarrow> str option" where
  "mem_live m k = live (mem_entries m) (mem_clock m) k"

definition mem_put :: "str \<Rightarrow> str \<Rightarrow> nat \<Rightarrow> mem \<Rightarrow> mem" where
  "mem_put k v n m = m\<lparr>mem_entries := (mem_entries m)(k \<mapsto> (v, Some (mem_clock m + 1000 * n)))\<rparr>"

definition mem_drop :: "str \<Rightarrow> mem \<Rightarrow> mem" where
  "mem_drop k m = m\<lparr>mem_entries := (mem_entries m)(k := None)\<rparr>"

definition mem_ttl :: "str \<Rightarrow> mem \<Rightarrow> int" where
  "mem_ttl k m =
     (case mem_live m k of
        None \<Rightarrow> -2
      | Some _ \<Rightarrow>
          (case mem_entries m k of
             Some (_, Some e) \<Rightarrow> int ((e - mem_clock m + 500) div 1000)
           | _ \<Rightarrow> -1))"

definition next_number :: "str \<Rightarrow> str" where
  "next_number v = show_nat (Suc (digits_value v))"

definition mem_redis :: "mem redis" where
  "mem_redis =
     \<lparr>rget = (\<lambda>k m. (Inr (mem_live m k), m)),
      rgetdel = (\<lambda>k m. (Inr (mem_live m k), mem_drop k m)),
      rset_ex = (\<lambda>k v n m. (Inr (), mem_put k v n m)),
      rset_ex_nx = (\<lambda>k v n m. if mem_live m k = None then (Inr True, mem_put k v n m) else (Inr False, m)),
      rdel = (\<lambda>k m. (Inr (), mem_drop k m)),
      rttl = (\<lambda>k m. (Inr (mem_ttl k m), m)),
      rincr = (\<lambda>k m. (Inr (), m\<lparr>mem_entries := incremented next_number (mem_entries m) (mem_clock m) k\<rparr>))\<rparr>"

lemma mem_ttl_of: "ttl_of (mem_entries m) (mem_clock m) k (mem_ttl k m)"
  by (auto simp: ttl_of_def mem_ttl_def mem_live_def live_def of_nat_diff split: option.splits if_splits)

interpretation mem: redis_server mem_redis mem_entries mem_clock next_number
  by unfold_locales (auto simp: mem_redis_def mem_live_def mem_drop_def mem_put_def mem_ttl_of split: if_splits)

definition empty_mem :: mem where
  "empty_mem = \<lparr>mem_entries = (\<lambda>_. None), mem_clock = 0\<rparr>"

end
