(* ===== verification/Token.thy ===== *)
theory Token
  imports Middleware
begin

text \<open>
  \<open>api/src/token.ts\<close>: the access tokens the API issues, the hash under which refresh
  tokens are kept and the PKCE check of a login code. Node's HMAC-SHA-256 and SHA-256 are the
  arguments \<open>hmac\<close> (key, data) and \<open>sha256\<close>; the bytes of \<open>randomBytes\<close>
  are the argument of \<open>randomToken\<close>. \<open>base64url\<close> is modelled with its lenient
  decoder. The main results are the round trips \<open>b64_decode_encode\<close> and
  \<open>verify_signed\<close>, the integrity of what \<open>verifyAccessToken\<close> accepts and the
  soundness of the PKCE check.
\<close>

section \<open>base64url\<close>

definition b64_char :: "nat \<Rightarrow> char" where
  "b64_char n =
     char_of (if n < 26 then 65 + n else if n < 52 then 71 + n else if n < 62 then n - 4
              else if n = 62 then 45 else 95)"

text \<open>The decoder takes the characters of both alphabets.\<close>

definition b64_value :: "char \<Rightarrow> nat option" where
  "b64_value c =
     (if 65 \<le> byte c \<and> byte c \<le> 90 then Some (byte c - 65)
      else if 97 \<le> byte c \<and> byte c \<le> 122 then Some (byte c - 71)
      else if 48 \<le> byte c \<and> byte c \<le> 57 then Some (byte c + 4)
      else if byte c = 43 \<or> byte c = 45 then Some 62
      else if byte c = 47 \<or> byte c = 95 then Some 63
      else None)"

fun sextets :: "nat list \<Rightarrow> nat list" where
  "sextets [] = []"
| "sextets [a] = [a div 4, a mod 4 * 16]"
| "sextets [a, b] = [a div 4, a mod 4 * 16 + b div 16, b mod 16 * 4]"
| "sextets (a # b # c # r) =
     a div 4 # (a mod 4 * 16 + b div 16) # (b mod 16 * 4 + c div 64) # c mod 64 # sextets r"

text \<open>A last sextet on its own is dropped, and so are the bits that fill no byte.\<close>

fun octets :: "nat list \<Rightarrow> nat list" where
  "octets (w # x # y # z # r) =
     (w * 4 + x div 16) # (x mod 16 * 16 + y div 4) # (y mod 4 * 64 + z) # octets r"
| "octets [w, x, y] = [w * 4 + x div 16, x mod 16 * 16 + y div 4]"
| "octets [w, x] = [w * 4 + x div 16]"
| "octets _ = []"

definition b64_encode :: "str \<Rightarrow> str" where
  "b64_encode bytes = map b64_char (sextets (map byte bytes))"

definition b64_decode :: "str \<Rightarrow> str" where
  "b64_decode s = map char_of (octets (List.map_filter b64_value (takeWhile (\<lambda>c. c \<noteq> CHR ''='') s)))"

lemma octets_sextets: "list_all (\<lambda>b. b < 256) bs \<Longrightarrow> octets (sextets bs) = bs"
  by (induction bs rule: sextets.induct) auto

lemma sextets_bound: "list_all (\<lambda>b. b < 256) bs \<Longrightarrow> list_all (\<lambda>n. n < 64) (sextets bs)"
  by (induction bs rule: sextets.induct) auto

lemma b64_value_char: "n < 64 \<Longrightarrow> b64_value (b64_char n) = Some n"
  by (auto simp: b64_value_def b64_char_def)

definition b64_alphabet :: "char \<Rightarrow> bool" where
  "b64_alphabet c \<longleftrightarrow>
     65 \<le> byte c \<and> byte c \<le> 90 \<or> 97 \<le> byte c \<and> byte c \<le> 122 \<or> 48 \<le> byte c \<and> byte c \<le> 57 \<or>
     byte c = 45 \<or> byte c = 95"

lemma b64_alphabet_char: "n < 64 \<Longrightarrow> b64_alphabet (b64_char n)"
  by (auto simp: b64_alphabet_def b64_char_def)

lemma b64_encode_alphabet: "list_all b64_alphabet (b64_encode bytes)"
  using sextets_bound [of "map byte bytes"] b64_alphabet_char
  by (auto simp: b64_encode_def list_all_iff)

lemma b64_not_dot: "b64_alphabet c \<Longrightarrow> c \<noteq> dot \<and> c \<noteq> CHR ''=''"
  by (auto simp: b64_alphabet_def byte_lit)

lemma map_filter_b64: "list_all (\<lambda>n. n < 64) ns \<Longrightarrow> List.map_filter b64_value (map b64_char ns) = ns"
  by (induction ns) (auto simp: List.map_filter_simps b64_value_char)

lemma b64_decode_encode: "b64_decode (b64_encode bytes) = bytes"
proof -
  have b: "list_all (\<lambda>b. b < 256) (map byte bytes)" by (simp add: list_all_iff)
  have e: "takeWhile (\<lambda>c. c \<noteq> CHR ''='') (b64_encode bytes) = b64_encode bytes"
    using b64_encode_alphabet [of bytes] b64_not_dot by (auto simp: list_all_iff takeWhile_eq_all_conv)
  show ?thesis
    unfolding b64_decode_def e using octets_sextets [OF b] map_filter_b64 [OF sextets_bound [OF b]]
    by (simp add: b64_encode_def map_idI)
qed

lemma length_sextets: "length (sextets bs) = (length bs * 4 + 2) div 3"
  by (induction bs rule: sextets.induct) auto

lemma length_b64_encode: "length (b64_encode bytes) = (length bytes * 4 + 2) div 3"
  by (simp add: b64_encode_def length_sextets)

section \<open>Access tokens\<close>

text \<open>The email and the name of a verified token are whatever its JSON holds.\<close>

record AccessClaims =
  ac_uid :: str
  ac_email :: json
  ac_name :: json
  ac_sid :: "str option"

definition mac :: "(str \<Rightarrow> str \<Rightarrow> str) \<Rightarrow> str \<Rightarrow> str \<Rightarrow> str" where
  "mac hmac payload secret = b64_encode (hmac secret payload)"

definition sid_member :: "str option \<Rightarrow> (str \<times> json) list" where
  "sid_member s = (case s of Some x \<Rightarrow> if x = [] then [] else [(''sid'', JStr x)] | None \<Rightarrow> [])"

definition access_payload :: "AccessClaims \<Rightarrow> nat \<Rightarrow> json" where
  "access_payload c expiry =
     JObj ([(''typ'', JStr ''access''), (''uid'', JStr (ac_uid c)), (''email'', ac_email c), (''name'', ac_name c)] @
       sid_member (ac_sid c) @ [(''exp'', JNum (int expiry) 0)])"

definition signAccessToken ::
  "(str \<Rightarrow> str \<Rightarrow> str) \<Rightarrow> AccessClaims \<Rightarrow> str \<Rightarrow> nat \<Rightarrow> nat \<Rightarrow> str" where
  "signAccessToken hmac claims secret ttlSeconds now =
     (let payload = b64_encode (jprint (access_payload claims (now div 1000 + ttlSeconds)))
      in payload @ dot # mac hmac payload secret)"

text \<open>The parts before and after the last dot; none when there is no dot.\<close>

definition last_dot :: "str \<Rightarrow> (str \<times> str) option" where
  "last_dot token =
     (let r = rev token; sig = takeWhile (\<lambda>c. c \<noteq> dot) r
      in if length sig = length token then None else Some (rev (drop (Suc (length sig)) r), rev sig))"

text \<open>\<open>t >= m * 10 ^ e\<close>.\<close>

definition reached :: "nat \<Rightarrow> int \<Rightarrow> int \<Rightarrow> bool" where
  "reached t m e = (if 0 \<le> e then m * 10 ^ nat e \<le> int t else m \<le> int t * 10 ^ nat (- e))"

definition or_empty :: "json option \<Rightarrow> json" where
  "or_empty v = (case v of None \<Rightarrow> JStr [] | Some JNull \<Rightarrow> JStr [] | Some j \<Rightarrow> j)"

definition sid_claim :: "json option \<Rightarrow> str option" where
  "sid_claim v = (case v of Some (JStr s) \<Rightarrow> if s = [] then None else Some s | _ \<Rightarrow> None)"

text \<open>Reading a member of \<open>null\<close> throws (\<open>Inl\<close>).\<close>

definition read_claims :: "json \<Rightarrow> nat \<Rightarrow> str + AccessClaims option" where
  "read_claims body now =
     (case body of
        JNull \<Rightarrow> Inl ''TypeError''
      | JObj ps \<Rightarrow>
          (case (get_prop ps ''exp'', get_prop ps ''uid'') of
             (Some (JNum m e), Some (JStr uid)) \<Rightarrow>
               Inr (if get_prop ps ''typ'' \<noteq> Some (JStr ''access'') \<or> reached (now div 1000) m e then None
                    else Some \<lparr>ac_uid = uid, ac_email = or_empty (get_prop ps ''email''),
                               ac_name = or_empty (get_prop ps ''name''), ac_sid = sid_claim (get_prop ps ''sid'')\<rparr>)
           | _ \<Rightarrow> Inr None)
      | _ \<Rightarrow> Inr None)"

definition verifyAccessToken ::
  "(str \<Rightarrow> str \<Rightarrow> str) \<Rightarrow> str \<Rightarrow> str \<Rightarrow> nat \<Rightarrow> str + AccessClaims option" where
  "verifyAccessToken hmac token secret now =
     (case last_dot token of
        None \<Rightarrow> Inr None
      | Some (payload, got) \<Rightarrow>
          if payload = [] \<or> got \<noteq> mac hmac payload secret then Inr None
          else case jparse (utf8_replace (b64_decode payload)) of
            None \<Rightarrow> Inr None
          | Some body \<Rightarrow> read_claims body now)"

definition randomToken :: "str \<Rightarrow> str" where
  "randomToken random_bytes = b64_encode random_bytes"

definition hex_digest :: "str \<Rightarrow> str" where
  "hex_digest bytes = concat (map (\<lambda>c. [lower_hex (byte c div 16), lower_hex (byte c mod 16)]) bytes)"

definition hashToken :: "(str \<Rightarrow> str) \<Rightarrow> str \<Rightarrow> str" where
  "hashToken sha256 token = hex_digest (sha256 token)"

section \<open>PKCE\<close>

definition CODE_CHALLENGE :: rx where
  "CODE_CHALLENGE = rx_seq (replicate 43 (RSet b64_alphabet))"

definition verifier_char :: "char \<Rightarrow> bool" where
  "verifier_char c \<longleftrightarrow> b64_alphabet c \<or> byte c = 46 \<or> byte c = 126"

definition CODE_VERIFIER :: rx where
  "CODE_VERIFIER = rx_seq (replicate 43 (RSet verifier_char) @ replicate 85 (rx_opt (RSet verifier_char)))"

text \<open>\<open>unknown\<close> is a JSON value or undefined.\<close>

definition isCodeChallenge :: "json option \<Rightarrow> bool" where
  "isCodeChallenge value = (case value of Some (JStr s) \<Rightarrow> rx_test CODE_CHALLENGE s | _ \<Rightarrow> False)"

definition codeChallenge :: "(str \<Rightarrow> str) \<Rightarrow> str \<Rightarrow> str" where
  "codeChallenge sha256 verifier = b64_encode (sha256 verifier)"

definition verifyCodeVerifier :: "(str \<Rightarrow> str) \<Rightarrow> str option \<Rightarrow> str \<Rightarrow> bool" where
  "verifyCodeVerifier sha256 verifier challenge =
     (case verifier of
        None \<Rightarrow> False
      | Some v \<Rightarrow> v \<noteq> [] \<and> rx_test CODE_VERIFIER v \<and> codeChallenge sha256 v = challenge)"

section \<open>The tokens that are signed\<close>

text \<open>A JSON value whose strings are well-formed prints as well-formed text.\<close>

fun json_utf8 :: "json \<Rightarrow> bool" where
  "json_utf8 (JStr s) = utf8_valid s"
| "json_utf8 (JArr js) = list_all json_utf8 js"
| "json_utf8 (JObj ps) = list_all (\<lambda>(k, j). utf8_valid k \<and> json_utf8 j) ps"
| "json_utf8 _ = True"

lemma utf8_valid_ascii_all: "list_all (\<lambda>c. byte c < 128) s \<Longrightarrow> utf8_valid (s @ t) = utf8_valid t"
  by (induction s) auto

lemma ascii_show_nat: "list_all (\<lambda>c. byte c < 128) (show_nat n)"
  using show_nat_digits [of n] by (auto simp: list_all_iff is_digit_def)

lemma ascii_show_int: "list_all (\<lambda>c. byte c < 128) (show_int i)"
  using ascii_show_nat by (simp add: show_int_def byte_lit)

lemma quote_char_ascii: "byte c < 128 \<Longrightarrow> list_all (\<lambda>d. byte d < 128) (quote_char c)"
  by (auto simp: quote_char_def byte_lit lower_hex_def)

lemma quote_char_high: "128 \<le> byte c \<Longrightarrow> quote_char c = [c]"
  by (auto simp: quote_char_def byte_lit)

lemma quote_high: "\<forall>d \<in> set ds. 128 \<le> byte d \<Longrightarrow> concat (map quote_char ds) = ds"
  by (induction ds) (auto simp: quote_char_high)

lemma utf8_valid_quoted: "utf8_valid s \<Longrightarrow> utf8_valid (concat (map quote_char s) @ t) = utf8_valid t"
proof (induction s rule: utf8_valid_induct)
  case (Seq c ds cs)
  show ?case
  proof (cases "ds = []")
    case True
    with Seq(1) have "byte c < 128" using utf8_tail_ok_ascii [of c ds]
      by (auto simp: utf8_tail_ok_def utf8_extra_def split: if_splits)
    then show ?thesis using Seq utf8_valid_ascii_all [OF quote_char_ascii] by (simp add: True)
  next
    case False
    then have "128 \<le> byte c" "\<forall>d \<in> set ds. 128 \<le> byte d"
      using Seq(1) utf8_tail_ok_lead utf8_tail_ok_high by blast+
    then show ?thesis using Seq utf8_valid_seq [OF Seq(1)] by (simp add: quote_char_high quote_high)
  qed
qed simp

lemma utf8_valid_quote: "utf8_valid s \<Longrightarrow> utf8_valid (quote s @ t) = utf8_valid t"
proof -
  assume "utf8_valid s"
  then have "utf8_valid (concat (map quote_char s) @ CHR 34 # t) = utf8_valid t"
    by (simp add: utf8_valid_quoted byte_lit)
  then show ?thesis by (simp add: quote_def byte_lit)
qed

lemma utf8_valid_print:
  "json_utf8 j \<Longrightarrow> utf8_valid (jprint j @ t) = utf8_valid t"
  "list_all json_utf8 js \<Longrightarrow> utf8_valid (jprint_elems js @ t) = utf8_valid t"
  "list_all (\<lambda>(k, j). utf8_valid k \<and> json_utf8 j) ps \<Longrightarrow> utf8_valid (jprint_members ps @ t) = utf8_valid t"
  by (induction j and js and ps arbitrary: t and t and t rule: jprint_jprint_elems_jprint_members.induct)
    (auto simp: byte_lit utf8_valid_quote utf8_valid_ascii_all [OF ascii_show_int])

lemma utf8_valid_jprint: "json_utf8 j \<Longrightarrow> utf8_valid (jprint j)"
  using utf8_valid_print(1) [of j "[]"] by simp

lemma last_dot_signed: "list_all b64_alphabet sig \<Longrightarrow> last_dot (payload @ dot # sig) = Some (payload, sig)"
proof -
  assume a: "list_all b64_alphabet sig"
  then have "takeWhile (\<lambda>c. c \<noteq> dot) (rev sig @ dot # rev payload) = rev sig"
    using b64_not_dot by (subst takeWhile_append2) (auto simp: list_all_iff)
  then show ?thesis by (simp add: last_dot_def Let_def)
qed

lemma last_dot_Some: "last_dot token = Some (payload, sig) \<Longrightarrow> token = payload @ dot # sig \<and> dot \<notin> set sig"
proof -
  assume a: "last_dot token = Some (payload, sig)"
  define t where "t = takeWhile (\<lambda>c. c \<noteq> dot) (rev token)"
  from a have l: "length t \<noteq> length token" and p: "payload = rev (drop (Suc (length t)) (rev token))" "sig = rev t"
    by (auto simp: last_dot_def Let_def t_def split: if_splits)
  have "length t \<le> length (rev token)" unfolding t_def by (rule length_takeWhile_le)
  with l have len: "length t < length (rev token)" by simp
  then have "rev token ! length t = dot" using nth_length_takeWhile [of "\<lambda>c. c \<noteq> dot" "rev token"] by (simp add: t_def)
  moreover have "rev token = t @ drop (length t) (rev token)" unfolding t_def
    by (metis takeWhile_dropWhile_id dropWhile_eq_drop)
  ultimately have "rev token = t @ dot # drop (Suc (length t)) (rev token)"
    using len by (metis Cons_nth_drop_Suc)
  then have "token = rev (t @ dot # drop (Suc (length t)) (rev token))" by (metis rev_rev_ident)
  moreover have "dot \<notin> set t" by (auto simp: t_def dest: set_takeWhileD)
  ultimately show ?thesis using p by simp
qed

text \<open>Claims as the API issues them: text, and no empty session id.\<close>

definition json_text :: "json \<Rightarrow> bool" where
  "json_text j = (case j of JStr s \<Rightarrow> utf8_valid s | _ \<Rightarrow> False)"

definition wf_claims :: "AccessClaims \<Rightarrow> bool" where
  "wf_claims c \<longleftrightarrow>
     utf8_valid (ac_uid c) \<and> json_text (ac_email c) \<and> json_text (ac_name c) \<and>
     (case ac_sid c of None \<Rightarrow> True | Some s \<Rightarrow> s \<noteq> [] \<and> utf8_valid s)"

lemma read_signed_payload:
  assumes "wf_claims c"
  shows "jparse (jprint (access_payload c expiry)) = Some (access_payload c expiry) \<and>
    utf8_replace (jprint (access_payload c expiry)) = jprint (access_payload c expiry) \<and>
    read_claims (access_payload c expiry) now = Inr (if expiry \<le> now div 1000 then None else Some c)"
proof -
  obtain e n where en: "ac_email c = JStr e" "ac_name c = JStr n" "utf8_valid e" "utf8_valid n"
    using assms by (auto simp: wf_claims_def json_text_def split: json.splits)
  have wf: "wf_json (access_payload c expiry)"
    using en by (auto simp: access_payload_def sid_member_def split: option.splits)
  have "json_utf8 (access_payload c expiry)"
    using assms en
    by (auto simp: access_payload_def sid_member_def wf_claims_def byte_lit split: option.splits)
  then have "utf8_replace (jprint (access_payload c expiry)) = jprint (access_payload c expiry)"
    by (simp add: utf8_valid_jprint utf8_replace_valid)
  moreover have "read_claims (access_payload c expiry) now = Inr (if expiry \<le> now div 1000 then None else Some c)"
  proof (cases "ac_sid c")
    case None
    then show ?thesis using en
      by (auto simp: access_payload_def read_claims_def get_prop_def sid_member_def reached_def or_empty_def sid_claim_def)
  next
    case (Some s)
    then show ?thesis using en assms
      by (auto simp: access_payload_def read_claims_def get_prop_def sid_member_def reached_def or_empty_def sid_claim_def wf_claims_def)
  qed
  ultimately show ?thesis using wf jparse_jprint by blast
qed

lemma b64_encode_not_Nil: "bytes \<noteq> [] \<Longrightarrow> b64_encode bytes \<noteq> []"
  using length_b64_encode [of bytes] by (cases bytes) auto

section \<open>Properties\<close>

text \<open>What a signed token verifies to.\<close>

lemma token_round_trip:
  assumes "wf_claims c"
  shows "verifyAccessToken hmac (signAccessToken hmac c secret ttl now) secret now' =
    Inr (if now div 1000 + ttl \<le> now' div 1000 then None else Some c)"
proof -
  let ?j = "access_payload c (now div 1000 + ttl)"
  let ?p = "b64_encode (jprint ?j)"
  note r = read_signed_payload [OF assms, of "now div 1000 + ttl" now']
  have "jprint ?j \<noteq> []" by (simp add: access_payload_def)
  then have "?p \<noteq> []" by (rule b64_encode_not_Nil)
  moreover have "last_dot (?p @ dot # mac hmac ?p secret) = Some (?p, mac hmac ?p secret)"
    by (simp add: last_dot_signed mac_def b64_encode_alphabet)
  ultimately show ?thesis
    using r by (simp add: verifyAccessToken_def signAccessToken_def Let_def b64_decode_encode)
qed

text \<open>A token that was signed verifies to the claims it was signed for, with the same key and
  until its lifetime is over, and to nothing from then on.\<close>

theorem verify_signed:
  assumes "wf_claims c"
  shows "verifyAccessToken hmac (signAccessToken hmac c secret ttl now) secret now' =
    Inr (if now div 1000 + ttl \<le> now' div 1000 then None else Some c)"
  by (rule token_round_trip) (rule assms)

definition some_claims :: AccessClaims where
  "some_claims = \<lparr>ac_uid = ''u1'', ac_email = JStr ''a@b'', ac_name = JStr ''A'', ac_sid = Some ''s1''\<rparr>"

lemma wf_some_claims: "wf_claims some_claims"
  by code_simp

theorem verify_signed_witness:
  "verifyAccessToken (\<lambda>k d. k @ d) (signAccessToken (\<lambda>k d. k @ d) some_claims ''key'' 900 5000) ''key'' 904999 =
    Inr (Some some_claims)"
  using verify_signed [OF wf_some_claims, of "\<lambda>k d. k @ d" "''key''" 900 5000 904999] by simp

text \<open>C20. What is accepted was authenticated: the token is a payload with the code of that payload
  under the API's key, and the payload is an unexpired access token with the claims returned.\<close>

theorem verified_is_authentic:
  assumes "verifyAccessToken hmac token secret now = Inr (Some c)"
  shows "\<exists>payload ps m e. token = payload @ dot # mac hmac payload secret \<and> payload \<noteq> [] \<and>
    jparse (utf8_replace (b64_decode payload)) = Some (JObj ps) \<and>
    get_prop ps ''typ'' = Some (JStr ''access'') \<and> get_prop ps ''uid'' = Some (JStr (ac_uid c)) \<and>
    get_prop ps ''exp'' = Some (JNum m e) \<and> \<not> reached (now div 1000) m e"
proof -
  obtain payload got where d: "last_dot token = Some (payload, got)"
    using assms by (cases "last_dot token") (auto simp: verifyAccessToken_def)
  with assms have got: "payload \<noteq> []" "got = mac hmac payload secret"
    by (auto simp: verifyAccessToken_def split: if_splits)
  with d assms obtain body where "jparse (utf8_replace (b64_decode payload)) = Some body" "read_claims body now = Inr (Some c)"
    by (auto simp: verifyAccessToken_def split: option.splits)
  then show ?thesis using got last_dot_Some [OF d]
    by (auto simp: read_claims_def split: json.splits option.splits if_splits)
qed

definition signed_token :: str where
  "signed_token = signAccessToken (\<lambda>k d. k) some_claims ''key'' 900 0"

lemma signed_token_verifies: "verifyAccessToken (\<lambda>k d. k) signed_token ''key'' 0 = Inr (Some some_claims)"
  by code_simp

theorem verified_is_authentic_witness: "\<exists>payload. signed_token = payload @ dot # mac (\<lambda>k d. k) payload ''key''"
  using verified_is_authentic [OF signed_token_verifies] by blast

text \<open>The languages of the two PKCE patterns.\<close>

lemma in_lang_replicate_set: "in_lang (rx_seq (replicate n (RSet P))) s \<longleftrightarrow> length s = n \<and> list_all P s"
proof (induction n arbitrary: s)
  case (Suc n)
  have "in_lang (rx_seq (replicate (Suc n) (RSet P))) s \<longleftrightarrow>
      (\<exists>c t. s = [c] @ t \<and> P c \<and> length t = n \<and> list_all P t)"
    unfolding replicate_Suc in_lang_seq_Cons in_lang_Set Suc by blast
  also have "\<dots> \<longleftrightarrow> length s = Suc n \<and> list_all P s" by (cases s) auto
  finally show ?case .
qed auto

lemma in_lang_replicate_opt:
  "in_lang (rx_seq (replicate n (rx_opt (RSet P)))) s \<longleftrightarrow> length s \<le> n \<and> list_all P s"
proof (induction n arbitrary: s)
  case (Suc n)
  have "in_lang (rx_seq (replicate (Suc n) (rx_opt (RSet P)))) s \<longleftrightarrow>
      length s \<le> n \<and> list_all P s \<or> (\<exists>c t. s = [c] @ t \<and> P c \<and> length t \<le> n \<and> list_all P t)"
    unfolding replicate_Suc in_lang_seq_opt [of "RSet P" "replicate n (rx_opt (RSet P))"]
    unfolding in_lang_seq_Cons [of "RSet P"] in_lang_Set Suc by blast
  also have "\<dots> \<longleftrightarrow> length s \<le> Suc n \<and> list_all P s" by (cases s) auto
  finally show ?case .
qed auto

lemma in_lang_seq_append: "in_lang (rx_seq (rs @ qs)) s \<longleftrightarrow> (\<exists>a b. s = a @ b \<and> in_lang (rx_seq rs) a \<and> in_lang (rx_seq qs) b)"
proof (induction rs arbitrary: s)
  case (Cons r rs)
  show ?case unfolding append_Cons in_lang_seq_Cons Cons by (metis append_assoc)
qed simp

lemma code_challenge_iff: "rx_test CODE_CHALLENGE s \<longleftrightarrow> length s = 43 \<and> list_all b64_alphabet s"
  unfolding CODE_CHALLENGE_def rx_test_iff by (rule in_lang_replicate_set)

lemma code_verifier_iff: "rx_test CODE_VERIFIER s \<longleftrightarrow> 43 \<le> length s \<and> length s \<le> 128 \<and> list_all verifier_char s"
proof -
  have "rx_test CODE_VERIFIER s \<longleftrightarrow>
      (\<exists>a b. s = a @ b \<and> length a = 43 \<and> list_all verifier_char a \<and> length b \<le> 85 \<and> list_all verifier_char b)"
    unfolding CODE_VERIFIER_def rx_test_iff in_lang_seq_append in_lang_replicate_set in_lang_replicate_opt by blast
  also have "\<dots> \<longleftrightarrow> 43 \<le> length s \<and> length s \<le> 128 \<and> list_all verifier_char s"
  proof
    assume r: "43 \<le> length s \<and> length s \<le> 128 \<and> list_all verifier_char s"
    then have "list_all verifier_char (take 43 s) \<and> list_all verifier_char (drop 43 s)"
      by (metis append_take_drop_id list_all_append)
    with r show "\<exists>a b. s = a @ b \<and> length a = 43 \<and> list_all verifier_char a \<and> length b \<le> 85 \<and> list_all verifier_char b"
      by (intro exI [of _ "take 43 s"] exI [of _ "drop 43 s"]) auto
  qed auto
  finally show ?thesis .
qed

text \<open>PKCE: with a SHA-256 digest of 32 bytes, the challenge of a verifier is one the API
  accepts at the start of a login, and at its end exactly the well-formed verifiers whose digest
  is the one of the challenge pass.\<close>

theorem pkce_binds:
  assumes "\<forall>v. length (sha256 v) = 32"
  shows "isCodeChallenge (Some (JStr (codeChallenge sha256 v))) \<and>
    (verifyCodeVerifier sha256 (Some w) (codeChallenge sha256 v) \<longleftrightarrow>
      43 \<le> length w \<and> length w \<le> 128 \<and> list_all verifier_char w \<and> sha256 w = sha256 v)"
proof -
  have "length (codeChallenge sha256 v) = 43"
    using assms by (simp add: codeChallenge_def length_b64_encode)
  then have "isCodeChallenge (Some (JStr (codeChallenge sha256 v)))"
    by (simp add: isCodeChallenge_def code_challenge_iff codeChallenge_def b64_encode_alphabet)
  moreover have "codeChallenge sha256 w = codeChallenge sha256 v \<longleftrightarrow> sha256 w = sha256 v"
    unfolding codeChallenge_def by (metis b64_decode_encode)
  ultimately show ?thesis by (auto simp: verifyCodeVerifier_def code_verifier_iff)
qed

theorem pkce_binds_witness:
  "verifyCodeVerifier (\<lambda>v. replicate 32 (CHR ''a'')) (Some (replicate 43 (CHR ''x'')))
     (codeChallenge (\<lambda>v. replicate 32 (CHR ''a'')) ''v'')"
proof -
  have "list_all verifier_char (replicate 43 (CHR ''x''))" by code_simp
  then show ?thesis
    using pkce_binds [of "\<lambda>v. replicate 32 (CHR ''a'')" "''v''" "replicate 43 (CHR ''x'')"] by simp
qed

end
