(* ===== verification/TokenStore.thy ===== *)
theory TokenStore
  imports Redis Token
begin

text \<open>
  \<open>api/src/token-store.ts\<close>: login codes and refresh tokens. A sign-in session is a chain:
  a key that names its user and expires with the session, and a record for each refresh token that
  points to it. A refresh token is used once; for a short grace time its second use returns the
  token of the first (a lost reply), after that it ends the session.

  The records are kept as JSON text. A record that is not of its type stands for the errors the
  code would run into; the invariant \<open>records_ok\<close> shows that there is none. The properties
  are over all runs of \<open>ts_step\<close>: the operations of the store, in any order and with any
  outcome of their commands, other clients and the passing of time.
\<close>

section \<open>Keys and records\<close>

definition REFRESH_GRACE_SECONDS :: nat where
  "REFRESH_GRACE_SECONDS = 30"

definition key_code :: "str \<Rightarrow> str" where "key_code code = ''orc:v2:code:'' @ code"
definition key_chain :: "str \<Rightarrow> str" where "key_chain c = ''orc:v2:chain:'' @ c"
definition key_rt :: "str \<Rightarrow> str" where "key_rt hash = ''orc:v2:rt:'' @ hash"
definition key_used :: "str \<Rightarrow> str" where "key_used hash = ''orc:v2:rtused:'' @ hash"
definition key_grace :: "str \<Rightarrow> str" where "key_grace hash = ''orc:v2:rtgrace:'' @ hash"

lemmas key_defs = key_code_def key_chain_def key_rt_def key_used_def key_grace_def

lemma keys_inject [simp]:
  "key_code a = key_code b \<longleftrightarrow> a = b" "key_chain a = key_chain b \<longleftrightarrow> a = b" "key_rt a = key_rt b \<longleftrightarrow> a = b"
  "key_used a = key_used b \<longleftrightarrow> a = b" "key_grace a = key_grace b \<longleftrightarrow> a = b"
  by (simp_all add: key_defs)

lemma keys_distinct [simp]:
  "key_code a \<noteq> key_chain b" "key_code a \<noteq> key_rt b" "key_code a \<noteq> key_used b" "key_code a \<noteq> key_grace b"
  "key_chain a \<noteq> key_code b" "key_chain a \<noteq> key_rt b" "key_chain a \<noteq> key_used b" "key_chain a \<noteq> key_grace b"
  "key_rt a \<noteq> key_code b" "key_rt a \<noteq> key_chain b" "key_rt a \<noteq> key_used b" "key_rt a \<noteq> key_grace b"
  "key_used a \<noteq> key_code b" "key_used a \<noteq> key_chain b" "key_used a \<noteq> key_rt b" "key_used a \<noteq> key_grace b"
  "key_grace a \<noteq> key_code b" "key_grace a \<noteq> key_chain b" "key_grace a \<noteq> key_rt b" "key_grace a \<noteq> key_used b"
  by (simp_all add: key_defs)

record LoginCodeRecord =
  lc_claims :: AccessClaims
  lc_challenge :: str

record RefreshRecord =
  rr_chain :: str
  rr_uid :: str
  rr_email :: json
  rr_name :: json

datatype RotateResult = Rotated str AccessClaims | NotRotated

definition claims_json :: "AccessClaims \<Rightarrow> json" where
  "claims_json c =
     JObj ([(''uid'', JStr (ac_uid c)), (''email'', ac_email c), (''name'', ac_name c)] @
       (case ac_sid c of None \<Rightarrow> [] | Some s \<Rightarrow> [(''sid'', JStr s)]))"

definition login_code_json :: "LoginCodeRecord \<Rightarrow> json" where
  "login_code_json r = JObj [(''claims'', claims_json (lc_claims r)), (''challenge'', JStr (lc_challenge r))]"

definition refresh_json :: "RefreshRecord \<Rightarrow> json" where
  "refresh_json r =
     JObj [(''chain'', JStr (rr_chain r)), (''uid'', JStr (rr_uid r)), (''email'', rr_email r), (''name'', rr_name r)]"

text \<open>\<open>JSON.parse(raw) as ...\<close>.\<close>

definition as_claims :: "json \<Rightarrow> AccessClaims option" where
  "as_claims j =
     (case j of
        JObj ps \<Rightarrow>
          (case (get_prop ps ''uid'', get_prop ps ''email'', get_prop ps ''name'') of
             (Some (JStr u), Some e, Some n) \<Rightarrow>
               Some \<lparr>ac_uid = u, ac_email = e, ac_name = n,
                     ac_sid = (case get_prop ps ''sid'' of Some (JStr s) \<Rightarrow> Some s | _ \<Rightarrow> None)\<rparr>
           | _ \<Rightarrow> None)
      | _ \<Rightarrow> None)"

definition read_login_code :: "str \<Rightarrow> str + LoginCodeRecord" where
  "read_login_code raw =
     (case jparse raw of
        None \<Rightarrow> Inl ''SyntaxError''
      | Some (JObj ps) \<Rightarrow>
          (case (Option.bind (get_prop ps ''claims'') as_claims, get_prop ps ''challenge'') of
             (Some c, Some (JStr ch)) \<Rightarrow> Inr \<lparr>lc_claims = c, lc_challenge = ch\<rparr>
           | _ \<Rightarrow> Inl ''TypeError'')
      | Some _ \<Rightarrow> Inl ''TypeError'')"

definition read_record :: "str \<Rightarrow> str + RefreshRecord" where
  "read_record raw =
     (case jparse raw of
        None \<Rightarrow> Inl ''SyntaxError''
      | Some (JObj ps) \<Rightarrow>
          (case (get_prop ps ''chain'', get_prop ps ''uid'', get_prop ps ''email'', get_prop ps ''name'') of
             (Some (JStr c), Some (JStr u), Some e, Some n) \<Rightarrow>
               Inr \<lparr>rr_chain = c, rr_uid = u, rr_email = e, rr_name = n\<rparr>
           | _ \<Rightarrow> Inl ''TypeError'')
      | Some _ \<Rightarrow> Inl ''TypeError'')"

definition record_claims :: "RefreshRecord \<Rightarrow> AccessClaims" where
  "record_claims r = \<lparr>ac_uid = rr_uid r, ac_email = rr_email r, ac_name = rr_name r, ac_sid = Some (rr_chain r)\<rparr>"

section \<open>Operations\<close>

definition createCode :: "'s redis \<Rightarrow> nat \<Rightarrow> AccessClaims \<Rightarrow> str \<Rightarrow> str \<Rightarrow> ('s, str) io" where
  "createCode R codeTtlSeconds claims challenge rnd =
     (let code = randomToken rnd;
          value = jprint (login_code_json \<lparr>lc_claims = claims, lc_challenge = challenge\<rparr>)
      in io_bind (rset_ex R (key_code code) value codeTtlSeconds) (\<lambda>_. io_return code))"

definition consumeCode :: "'s redis \<Rightarrow> str \<Rightarrow> ('s, LoginCodeRecord option) io" where
  "consumeCode R code =
     io_bind (rgetdel R (key_code code)) (\<lambda>raw.
       case raw of
         None \<Rightarrow> io_return None
       | Some v \<Rightarrow> if v = [] then io_return None else io_bind (io_lift (read_login_code v)) (\<lambda>r. io_return (Some r)))"

definition issueToken :: "'s redis \<Rightarrow> (str \<Rightarrow> str) \<Rightarrow> str \<Rightarrow> RefreshRecord \<Rightarrow> nat \<Rightarrow> ('s, unit) io" where
  "issueToken R sha256 token r ttl = rset_ex R (key_rt (hashToken sha256 token)) (jprint (refresh_json r)) ttl"

definition issue :: "'s redis \<Rightarrow> (str \<Rightarrow> str) \<Rightarrow> RefreshRecord \<Rightarrow> nat \<Rightarrow> str \<Rightarrow> ('s, str) io" where
  "issue R sha256 r ttl rnd =
     (let token = randomToken rnd in io_bind (issueToken R sha256 token r ttl) (\<lambda>_. io_return token))"

text \<open>The refresh token and the claims of a new session.\<close>

definition createChain ::
  "'s redis \<Rightarrow> (str \<Rightarrow> str) \<Rightarrow> nat \<Rightarrow> AccessClaims \<Rightarrow> str \<Rightarrow> str \<Rightarrow> ('s, str \<times> AccessClaims) io" where
  "createChain R sha256 sessionTtlSeconds claims rnd rnd' =
     (let chain = randomToken rnd
      in io_bind (rset_ex R (key_chain chain) (ac_uid claims) sessionTtlSeconds) (\<lambda>_.
         io_bind (issue R sha256
             \<lparr>rr_chain = chain, rr_uid = ac_uid claims, rr_email = ac_email claims, rr_name = ac_name claims\<rparr>
             sessionTtlSeconds rnd') (\<lambda>refreshToken.
         io_return (refreshToken, claims\<lparr>ac_sid := Some chain\<rparr>))))"

definition sessionActive :: "'s redis \<Rightarrow> str \<Rightarrow> ('s, bool) io" where
  "sessionActive R sid = io_bind (rget R (key_chain sid)) (\<lambda>v. io_return (v \<noteq> None))"

definition truthy :: "str option \<Rightarrow> bool" where
  "truthy v \<longleftrightarrow> v \<noteq> None \<and> v \<noteq> Some []"

text \<open>The use of a token whose first use has been recorded.\<close>

definition reuse :: "'s redis \<Rightarrow> str \<Rightarrow> RefreshRecord \<Rightarrow> ('s, RotateResult) io" where
  "reuse R hash r =
     io_bind (rget R (key_grace hash)) (\<lambda>graced.
       if truthy graced then io_return (Rotated (the graced) (record_claims r))
       else io_bind (rdel R (key_chain (rr_chain r))) (\<lambda>_. io_return NotRotated))"

text \<open>The first use; the loser of a race gets the winner's token.\<close>

definition first_use :: "'s redis \<Rightarrow> (str \<Rightarrow> str) \<Rightarrow> str \<Rightarrow> RefreshRecord \<Rightarrow> nat \<Rightarrow> str \<Rightarrow> ('s, RotateResult) io" where
  "first_use R sha256 hash r ttl rnd =
     (let new_token = randomToken rnd
      in io_bind (rset_ex_nx R (key_grace hash) new_token REFRESH_GRACE_SECONDS) (\<lambda>claimed.
         if \<not> claimed then
           io_bind (rget R (key_grace hash)) (\<lambda>graced.
             io_return (if truthy graced then Rotated (the graced) (record_claims r) else NotRotated))
         else
           io_bind (issueToken R sha256 new_token r ttl) (\<lambda>_.
           io_bind (rset_ex R (key_used hash) ''1'' ttl) (\<lambda>_.
           io_return (Rotated new_token (record_claims r))))))"

definition rotate_live :: "'s redis \<Rightarrow> (str \<Rightarrow> str) \<Rightarrow> str \<Rightarrow> RefreshRecord \<Rightarrow> nat \<Rightarrow> str \<Rightarrow> ('s, RotateResult) io" where
  "rotate_live R sha256 hash r ttl rnd =
     io_bind (rget R (key_used hash)) (\<lambda>used.
       if truthy used then reuse R hash r else first_use R sha256 hash r ttl rnd)"

definition rotate :: "'s redis \<Rightarrow> (str \<Rightarrow> str) \<Rightarrow> str \<Rightarrow> str \<Rightarrow> ('s, RotateResult) io" where
  "rotate R sha256 refreshToken rnd =
     (let hash = hashToken sha256 refreshToken
      in io_bind (rget R (key_rt hash)) (\<lambda>raw.
         if \<not> truthy raw then io_return NotRotated
         else
           io_bind (io_lift (read_record (the raw))) (\<lambda>r.
           io_bind (rttl R (key_chain (rr_chain r))) (\<lambda>ttl.
           if ttl \<le> 0 then io_return NotRotated
           else rotate_live R sha256 hash r (nat ttl) rnd))))"

definition revoke :: "'s redis \<Rightarrow> (str \<Rightarrow> str) \<Rightarrow> str \<Rightarrow> ('s, unit) io" where
  "revoke R sha256 refreshToken =
     io_bind (rget R (key_rt (hashToken sha256 refreshToken))) (\<lambda>raw.
       if \<not> truthy raw then io_return ()
       else
         io_bind (io_lift (read_record (the raw))) (\<lambda>r.
         rdel R (key_chain (rr_chain r))))"

lemmas store_defs = createCode_def consumeCode_def issueToken_def issue_def createChain_def sessionActive_def
  reuse_def first_use_def rotate_live_def rotate_def revoke_def Let_def

section \<open>Runs\<close>

definition token_key :: "str \<Rightarrow> bool" where
  "token_key k \<longleftrightarrow>
     (\<exists>x. k = key_code x \<or> k = key_chain x \<or> k = key_rt x \<or> k = key_used x \<or> k = key_grace x)"

text \<open>The random tokens drawn in a state are constrained by \<open>ok\<close>.\<close>

inductive ts_step ::
  "'s redis \<Rightarrow> ('s \<Rightarrow> entries) \<Rightarrow> ('s \<Rightarrow> nat) \<Rightarrow> (str \<Rightarrow> str) \<Rightarrow> nat \<Rightarrow> nat \<Rightarrow> (str \<Rightarrow> 's \<Rightarrow> bool) \<Rightarrow> 's \<Rightarrow> 's \<Rightarrow> bool"
  for R entry clock sha256 ttl codeTtl ok where
  step_code: "createCode R codeTtl claims challenge rnd s = (r, s') \<Longrightarrow> ok (randomToken rnd) s \<Longrightarrow> wf_claims claims \<Longrightarrow>
    ts_step R entry clock sha256 ttl codeTtl ok s s'"
| step_consume: "consumeCode R code s = (r, s') \<Longrightarrow> ts_step R entry clock sha256 ttl codeTtl ok s s'"
| step_chain: "createChain R sha256 ttl claims rnd rnd' s = (r, s') \<Longrightarrow> ok (randomToken rnd) s \<Longrightarrow>
    ok (randomToken rnd') s \<Longrightarrow> wf_claims claims \<Longrightarrow> ts_step R entry clock sha256 ttl codeTtl ok s s'"
| step_rotate: "rotate R sha256 token rnd s = (r, s') \<Longrightarrow> ok (randomToken rnd) s \<Longrightarrow>
    ts_step R entry clock sha256 ttl codeTtl ok s s'"
| step_revoke: "revoke R sha256 token s = (r, s') \<Longrightarrow> ts_step R entry clock sha256 ttl codeTtl ok s s'"
| step_active: "sessionActive R sid s = (r, s') \<Longrightarrow> ts_step R entry clock sha256 ttl codeTtl ok s s'"
| step_other: "(\<And>k. token_key k \<Longrightarrow> entry s' k = entry s k) \<Longrightarrow> clock s \<le> clock s' \<Longrightarrow>
    ts_step R entry clock sha256 ttl codeTtl ok s s'"

section \<open>Records in the store\<close>

definition wf_record :: "RefreshRecord \<Rightarrow> bool" where
  "wf_record r \<longleftrightarrow> wf_json (rr_email r) \<and> wf_json (rr_name r)"

lemma json_text_wf: "json_text j \<Longrightarrow> wf_json j"
  by (cases j) (auto simp: json_text_def)

lemma read_record_print: "wf_record r \<Longrightarrow> read_record (jprint (refresh_json r)) = Inr r"
proof -
  assume "wf_record r"
  then have "wf_json (refresh_json r)" by (simp add: wf_record_def refresh_json_def)
  then show ?thesis by (simp add: read_record_def jparse_jprint) (simp add: refresh_json_def get_prop_def)
qed

lemma read_login_code_print:
  "wf_claims (lc_claims r) \<Longrightarrow> read_login_code (jprint (login_code_json r)) = Inr r"
proof -
  assume w: "wf_claims (lc_claims r)"
  then have "wf_json (login_code_json r)"
    by (auto simp: login_code_json_def claims_json_def wf_claims_def json_text_wf split: option.splits)
  moreover have "as_claims (claims_json (lc_claims r)) = Some (lc_claims r)"
    by (auto simp: as_claims_def claims_json_def get_prop_def split: option.splits)
  ultimately show ?thesis by (simp add: read_login_code_def jparse_jprint) (simp add: login_code_json_def get_prop_def)
qed

section \<open>Ended sessions stay ended\<close>

definition gone :: "str \<Rightarrow> entries \<Rightarrow> nat \<Rightarrow> bool" where
  "gone k es now \<longleftrightarrow> live es now k = None"

abbreviation ended :: "str \<Rightarrow> entries \<Rightarrow> nat \<Rightarrow> bool" where
  "ended c \<equiv> gone (key_chain c)"

lemma gone_upd: "gone k0 es now \<Longrightarrow> k \<noteq> k0 \<or> x = None \<Longrightarrow> now \<le> now' \<Longrightarrow> gone k0 (es(k := x)) now'"
  using live_mono [of es now k0 now'] by (auto simp: gone_def live_upd)

lemma ttl_of_pos:
  "ttl_of es now k t \<Longrightarrow> 0 < t \<Longrightarrow> es k = Some (u, Some E) \<Longrightarrow>
    now < E \<and> \<bar>1000 * t - (int E - int now)\<bar> \<le> 1000"
  by (auto simp: ttl_of_def live_def split: if_splits)

lemma ttl_of_alive:
  "ttl_of es now k t \<Longrightarrow> es k = Some (u, Some E) \<Longrightarrow> now + 1000 < E \<Longrightarrow> 0 < t"
  by (auto simp: ttl_of_def live_def split: if_splits)

lemma read_record_Nil: "read_record [] = Inl ''SyntaxError''"
  by code_simp

context redis_server begin

text \<open>
  A property of one key, the key of a session or of a login code: it survives every command
  except one that sets the key.
\<close>

definition about_key :: "str \<Rightarrow> ('s \<Rightarrow> bool) \<Rightarrow> bool" where
  "about_key k0 P \<longleftrightarrow>
     stable P \<and> (\<forall>k x. k \<noteq> k0 \<or> x = (\<lambda>_. None) \<longrightarrow> stable_upd P k x) \<and>
     (\<forall>s s'. P s \<longrightarrow> entry s' k0 = entry s k0 \<longrightarrow> clock s \<le> clock s' \<longrightarrow> P s')"

lemma about_keyD:
  assumes "about_key k0 P"
  shows "stable P" "k \<noteq> k0 \<or> x = (\<lambda>_. None) \<Longrightarrow> stable_upd P k x"
    "P s \<Longrightarrow> entry s' k0 = entry s k0 \<Longrightarrow> clock s \<le> clock s' \<Longrightarrow> P s'"
  using assms unfolding about_key_def by blast+

lemmas command_rules = io_rules keeps_get keeps_getdel keeps_set_ex keeps_set_ex_nx keeps_del keeps_ttl

lemma about_key_step:
  assumes "ts_step R entry clock sha256 ttl codeTtl (\<lambda>t _. t \<noteq> c) s s'" "about_key k0 P" "P s"
    and k0: "k0 = key_chain c \<or> k0 = key_code c"
  shows "P s'"
proof -
  note key_rules = command_rules about_keyD(1,2) [OF assms(2)]
  have issue: "keeps P (issueToken R sha256 t r n)" for t r n
    unfolding issueToken_def by (intro key_rules; use k0 in auto)
  have reuse: "keeps P (reuse R h r)" for h r
    unfolding reuse_def by (intro key_rules; use k0 in auto)
  have first: "keeps P (first_use R sha256 h r n rnd)" for h r n rnd
    unfolding first_use_def Let_def by (intro key_rules issue; use k0 in auto)
  from assms(1) show ?thesis
  proof cases
    case (step_code claims challenge rnd r)
    have "keeps P (createCode R codeTtl claims challenge rnd)"
      unfolding createCode_def Let_def by (intro key_rules; use k0 step_code(2) in auto)
    from keepsD [OF this assms(3) step_code(1)] show ?thesis .
  next
    case (step_consume code r)
    have "keeps P (consumeCode R code)"
      unfolding consumeCode_def by (intro key_rules; use k0 in auto)
    from keepsD [OF this assms(3) step_consume(1)] show ?thesis .
  next
    case (step_chain claims rnd rnd' r)
    have "keeps P (createChain R sha256 ttl claims rnd rnd')"
      unfolding createChain_def issue_def Let_def by (intro key_rules issue; use k0 step_chain(2) in auto)
    from keepsD [OF this assms(3) step_chain(1)] show ?thesis .
  next
    case (step_rotate token rnd r)
    have "keeps P (rotate R sha256 token rnd)"
      unfolding rotate_def rotate_live_def Let_def by (intro key_rules reuse first)
    from keepsD [OF this assms(3) step_rotate(1)] show ?thesis .
  next
    case (step_revoke token r)
    have "keeps P (revoke R sha256 token)"
      unfolding revoke_def Let_def by (intro key_rules; use k0 in auto)
    from keepsD [OF this assms(3) step_revoke(1)] show ?thesis .
  next
    case (step_active sid r)
    have "keeps P (sessionActive R sid)"
      unfolding sessionActive_def by (intro key_rules)
    from keepsD [OF this assms(3) step_active(1)] show ?thesis .
  next
    case step_other
    then show ?thesis using about_keyD(3) [OF assms(2,3)] k0 by (auto simp: token_key_def)
  qed
qed

lemma about_key_run:
  "rtranclp (ts_step R entry clock sha256 ttl codeTtl (\<lambda>t _. t \<noteq> c)) s s' \<Longrightarrow> about_key k0 P \<Longrightarrow> P s \<Longrightarrow>
    k0 = key_chain c \<or> k0 = key_code c \<Longrightarrow> P s'"
  by (induction rule: rtranclp_induct) (auto intro: about_key_step)

abbreviation ended_in :: "str \<Rightarrow> 's \<Rightarrow> bool" where
  "ended_in c s \<equiv> ended c (entry s) (clock s)"

lemma about_key_gone: "about_key k0 (\<lambda>s. gone k0 (entry s) (clock s))"
proof -
  have "gone k0 (entry s') (clock s')"
    if "gone k0 (entry s) (clock s)" "entry s' k0 = entry s k0" "clock s \<le> clock s'" for s s'
    using that live_mono [of "entry s" "clock s" k0 "clock s'"] by (simp add: gone_def live_def)
  then show ?thesis using gone_upd live_mono unfolding about_key_def stable_upd_def stable_def gone_def by auto
qed

lemmas gone_run = about_key_run [OF _ about_key_gone]
lemmas stable_ended = about_keyD(1) [OF about_key_gone]

text \<open>The time at which a session ends is set when it begins.\<close>

definition ends_by :: "str \<Rightarrow> nat \<Rightarrow> 's \<Rightarrow> bool" where
  "ends_by c E s \<longleftrightarrow> (\<forall>v e. entry s (key_chain c) = Some (v, e) \<longrightarrow> (\<exists>d \<le> E. e = Some d))"

lemma about_key_ends_by: "about_key (key_chain c) (ends_by c E)"
  unfolding about_key_def stable_upd_def stable_def ends_by_def by auto

lemma ends_by_ended: "ends_by c E s \<Longrightarrow> E \<le> clock s \<Longrightarrow> ended_in c s"
  by (auto simp: ends_by_def gone_def live_def split: option.splits)

text \<open>A rotation that gets past the checks does so for a session that is there.\<close>

lemma rotate_steps:
  assumes "rotate R sha256 token rnd s = (Inr (Rotated t cl), s')"
  shows "\<exists>raw r n s1 s2. rget R (key_rt (hashToken sha256 token)) s = (Inr (Some raw), s1) \<and> read_record raw = Inr r \<and>
    rttl R (key_chain (rr_chain r)) s1 = (Inr n, s2) \<and> 0 < n \<and>
    rotate_live R sha256 (hashToken sha256 token) r (nat n) rnd s2 = (Inr (Rotated t cl), s')"
proof -
  from assms obtain raw s1 where g: "rget R (key_rt (hashToken sha256 token)) s = (Inr raw, s1)"
    and rest: "(if \<not> truthy raw then io_return NotRotated
         else io_bind (io_lift (read_record (the raw))) (\<lambda>r.
           io_bind (rttl R (key_chain (rr_chain r))) (\<lambda>ttl.
           if ttl \<le> 0 then io_return NotRotated
           else rotate_live R sha256 (hashToken sha256 token) r (nat ttl) rnd))) s1 = (Inr (Rotated t cl), s')"
    unfolding rotate_def Let_def io_bind_Inr [of "rget R k" for k] by blast
  have tr: "truthy raw" using rest by (auto split: if_splits)
  obtain v where "raw = Some v" using tr by (auto simp: truthy_def)
  then show ?thesis using g rest tr by (auto simp: io_bind_Inr not_le split: if_splits) metis
qed

lemma rotate_live_claims: "rotate_live R sha256 hash r n rnd s = (Inr (Rotated t cl), s') \<Longrightarrow> cl = record_claims r"
  by (auto simp: rotate_live_def io_bind_Inr reuse_def first_use_def Let_def split: if_splits)

lemma rotate_record:
  assumes "rotate R sha256 token rnd s = (Inr (Rotated t cl), s')"
  shows "\<exists>raw r e. entry s (key_rt (hashToken sha256 token)) = Some (raw, e) \<and> read_record raw = Inr r \<and>
    cl = record_claims r \<and> \<not> ended_in (rr_chain r) s"
proof -
  from rotate_steps [OF assms] obtain raw r n s1 s2 where
    g: "rget R (key_rt (hashToken sha256 token)) s = (Inr (Some raw), s1)" "read_record raw = Inr r"
    "rttl R (key_chain (rr_chain r)) s1 = (Inr n, s2)" "0 < n"
    "rotate_live R sha256 (hashToken sha256 token) r (nat n) rnd s2 = (Inr (Rotated t cl), s')"
    by blast
  have "\<not> ended_in (rr_chain r) s1"
    using ttl [OF g(3)] g(4) by (auto simp: ttl_of_def gone_def split: option.splits)
  then have "\<not> ended_in (rr_chain r) s"
    using get [OF g(1)] stableD [OF stable_ended] by blast
  moreover have "live (entry s) (clock s) (key_rt (hashToken sha256 token)) = Some raw"
    using get [OF g(1)] by simp
  ultimately show ?thesis using g(2) rotate_live_claims [OF g(5)] live_entry by metis
qed

lemma sessionActive_ended: "sessionActive R c s = (Inr b, s') \<Longrightarrow> ended_in c s \<Longrightarrow> \<not> b"
  by (auto simp: sessionActive_def io_bind_Inr gone_def dest!: get)

end

section \<open>Records point to their session\<close>

text \<open>
  The invariant: every refresh token record is well formed and, when its session is there, has the
  user of the session.
\<close>

definition record_ok :: "RefreshRecord \<Rightarrow> entries \<Rightarrow> bool" where
  "record_ok r es \<longleftrightarrow> wf_record r \<and> (\<forall>u e. es (key_chain (rr_chain r)) = Some (u, e) \<longrightarrow> u = rr_uid r)"

definition records_ok :: "entries \<Rightarrow> bool" where
  "records_ok es \<longleftrightarrow>
     (\<forall>h raw e. es (key_rt h) = Some (raw, e) \<longrightarrow> (\<exists>r. raw = jprint (refresh_json r) \<and> record_ok r es))"

text \<open>No record mentions the chain: it is a new one.\<close>

definition unmentioned :: "str \<Rightarrow> entries \<Rightarrow> bool" where
  "unmentioned c es \<longleftrightarrow> (\<forall>h raw e r. es (key_rt h) = Some (raw, e) \<longrightarrow> read_record raw = Inr r \<longrightarrow> rr_chain r \<noteq> c)"

definition records_ok_with :: "RefreshRecord \<Rightarrow> entries \<Rightarrow> bool" where
  "records_ok_with r es \<longleftrightarrow> records_ok es \<and> record_ok r es"

lemma record_ok_upd: "record_ok r es \<Longrightarrow> k \<noteq> key_chain (rr_chain r) \<or> x = None \<Longrightarrow> record_ok r (es(k := x))"
  by (auto simp: record_ok_def)

lemma records_ok_upd:
  assumes "records_ok es" "\<forall>h. k \<noteq> key_rt h" "\<forall>c. k \<noteq> key_chain c \<or> x = None"
  shows "records_ok (es(k := x))"
  unfolding records_ok_def
proof (intro allI impI)
  fix h raw e
  assume "(es(k := x)) (key_rt h) = Some (raw, e)"
  moreover have "key_rt h \<noteq> k" using assms(2) by metis
  ultimately have "es (key_rt h) = Some (raw, e)" by simp
  then obtain r where "raw = jprint (refresh_json r)" "record_ok r es" using assms(1) unfolding records_ok_def by blast
  then show "\<exists>r. raw = jprint (refresh_json r) \<and> record_ok r (es(k := x))" using record_ok_upd assms(3) by blast
qed

lemma records_ok_rt: "records_ok_with r es \<Longrightarrow> records_ok_with r (es(key_rt h \<mapsto> (jprint (refresh_json r), e)))"
proof -
  assume a: "records_ok_with r es"
  have k: "record_ok q (es(key_rt h \<mapsto> (jprint (refresh_json r), e)))" if "record_ok q es" for q
    using that by (intro record_ok_upd) auto
  have "\<exists>q. raw = jprint (refresh_json q) \<and> record_ok q es"
    if "(es(key_rt h \<mapsto> (jprint (refresh_json r), e))) (key_rt h') = Some (raw, e')" for h' raw e'
    using that a by (cases "h' = h") (auto simp: records_ok_with_def records_ok_def)
  then show ?thesis using a k unfolding records_ok_with_def records_ok_def by metis
qed

lemma records_ok_with_upd:
  "records_ok_with r es \<Longrightarrow> \<forall>h. k \<noteq> key_rt h \<Longrightarrow> \<forall>c. k \<noteq> key_chain c \<or> x = None \<Longrightarrow> records_ok_with r (es(k := x))"
  using records_ok_upd record_ok_upd unfolding records_ok_with_def by blast

lemma records_ok_chain:
  assumes "records_ok es" "unmentioned c es"
  shows "records_ok (es(key_chain c := x))"
  unfolding records_ok_def
proof (intro allI impI)
  fix h raw e
  assume "(es(key_chain c := x)) (key_rt h) = Some (raw, e)"
  then have raw: "es (key_rt h) = Some (raw, e)" by simp
  then obtain r where r: "raw = jprint (refresh_json r)" "record_ok r es" using assms(1) unfolding records_ok_def by blast
  then have "rr_chain r \<noteq> c" using assms(2) raw read_record_print unfolding unmentioned_def record_ok_def by metis
  then have "record_ok r (es(key_chain c := x))" using r(2) by (intro record_ok_upd) auto
  then show "\<exists>r. raw = jprint (refresh_json r) \<and> record_ok r (es(key_chain c := x))" using r(1) by blast
qed

lemma records_ok_same:
  assumes "records_ok es" "\<And>k. token_key k \<Longrightarrow> es' k = es k"
  shows "records_ok es'"
proof -
  have "es' (key_rt h) = es (key_rt h)" "es' (key_chain c) = es (key_chain c)" for h c
    using assms(2) by (auto simp: token_key_def)
  then show ?thesis using assms(1) unfolding records_ok_def record_ok_def by simp
qed

context redis_server begin

lemmas entry_rules = command_rules stable_entry stable_upd_entry

lemma keeps_rotate_live: "keeps (\<lambda>s. records_ok_with r (entry s)) (rotate_live R sha256 hash r n rnd)"
  unfolding rotate_live_def reuse_def first_use_def issueToken_def Let_def
  by (intro entry_rules records_ok_rt records_ok_with_upd) simp_all

lemma keeps_records_rotate: "keeps (\<lambda>s. records_ok (entry s)) (rotate R sha256 token rnd)"
proof -
  let ?E = "\<lambda>s. records_ok (entry s)"
  let ?G = "\<lambda>raw s. records_ok (entry s) \<and>
    (\<forall>w. raw = Some w \<longrightarrow> (\<exists>r. read_record w = Inr r \<and> record_ok r (entry s)))"
  have get: "ensures ?E (rget R (key_rt h)) ?G ?E" for h
  proof (rule ensures_weaken [OF ensures_get [OF stable_entry]])
    fix a s
    assume "records_ok (entry s) \<and> (a = None \<longrightarrow> live (entry s) (clock s) (key_rt h) = None) \<and>
      (\<forall>w. a = Some w \<longrightarrow> (\<exists>e. entry s (key_rt h) = Some (w, e)))"
    then show "records_ok (entry s) \<and>
        (\<forall>w. a = Some w \<longrightarrow> (\<exists>r. read_record w = Inr r \<and> record_ok r (entry s)))"
      unfolding records_ok_def by (metis record_ok_def read_record_print)
  qed
  have live: "keeps (\<lambda>s. records_ok_with r (entry s)) (rttl R k)" for r k
    by (rule keeps_ttl [OF stable_entry])
  have "keeps (\<lambda>s. records_ok_with r (entry s)) (io_bind (rttl R (key_chain (rr_chain r))) (\<lambda>ttl.
         if ttl \<le> 0 then io_return NotRotated else rotate_live R sha256 h r (nat ttl) rnd))" for r h
    by (intro io_rules live keeps_rotate_live)
  then have rest: "ensures (\<lambda>s. records_ok_with r (entry s))
      (io_bind (rttl R (key_chain (rr_chain r))) (\<lambda>ttl.
         if ttl \<le> 0 then io_return NotRotated else rotate_live R sha256 h r (nat ttl) rnd)) (\<lambda>_. ?E) ?E" for r h
    by (rule ensures_weaken) (simp_all add: records_ok_with_def)
  have lift: "ensures (?G raw) (io_lift (read_record (the raw))) (\<lambda>r s. records_ok_with r (entry s)) ?E"
    if "truthy raw" for raw
    by (rule ensures_lift) (use that in \<open>auto simp: truthy_def records_ok_with_def\<close>)
  show ?thesis
    unfolding rotate_def Let_def
    by (rule ensures_bind [OF get], rule ensures_if, rule ensures_return, simp, rule ensures_bind [OF lift rest]) simp
qed

lemma keeps_records_chain:
  assumes "wf_claims claims" "createChain R sha256 ttl claims rnd rnd' s = (r, s')"
    "records_ok (entry s)" "unmentioned (randomToken rnd) (entry s)"
  shows "records_ok (entry s')"
proof -
  let ?c = "randomToken rnd"
  let ?r = "\<lparr>rr_chain = ?c, rr_uid = ac_uid claims, rr_email = ac_email claims, rr_name = ac_name claims\<rparr>"
  let ?P = "\<lambda>s. records_ok (entry s) \<and> unmentioned ?c (entry s)"
  have wf: "wf_record ?r" using assms(1) json_text_wf by (simp add: wf_record_def wf_claims_def)
  have first: "ensures ?P (rset_ex R (key_chain ?c) (ac_uid claims) ttl)
      (\<lambda>_ s. records_ok_with ?r (entry s)) (\<lambda>s. records_ok (entry s))"
  proof (rule ensuresI)
    fix s a s'
    assume p: "records_ok (entry s) \<and> unmentioned ?c (entry s)" and m: "rset_ex R (key_chain ?c) (ac_uid claims) ttl s = (Inr a, s')"
    obtain e where e: "entry s' = (entry s)(key_chain ?c \<mapsto> (ac_uid claims, e))" using set_ex [OF m] by blast
    have "record_ok ?r (entry s')" unfolding e using wf by (simp add: record_ok_def)
    moreover have "records_ok (entry s')" unfolding e using p by (intro records_ok_chain) simp_all
    ultimately show "records_ok_with ?r (entry s')" by (simp add: records_ok_with_def)
  next
    fix s e s'
    assume p: "records_ok (entry s) \<and> unmentioned ?c (entry s)" and m: "rset_ex R (key_chain ?c) (ac_uid claims) ttl s = (Inl e, s')"
    show "records_ok (entry s')" using set_ex [OF m] p records_ok_chain by auto
  qed
  have "keeps (\<lambda>s. records_ok_with ?r (entry s)) (io_bind (issue R sha256 ?r ttl rnd')
      (\<lambda>refreshToken. io_return (refreshToken, claims\<lparr>ac_sid := Some ?c\<rparr>)))"
    unfolding issue_def issueToken_def Let_def by (intro entry_rules records_ok_rt)
  then have rest: "ensures (\<lambda>s. records_ok_with ?r (entry s)) (io_bind (issue R sha256 ?r ttl rnd')
      (\<lambda>refreshToken. io_return (refreshToken, claims\<lparr>ac_sid := Some ?c\<rparr>))) (\<lambda>_ s. records_ok (entry s)) (\<lambda>s. records_ok (entry s))"
    by (rule ensures_weaken) (simp_all add: records_ok_with_def)
  have "ensures ?P (createChain R sha256 ttl claims rnd rnd') (\<lambda>_ s. records_ok (entry s)) (\<lambda>s. records_ok (entry s))"
    unfolding createChain_def Let_def by (rule ensures_bind [OF first rest])
  then show ?thesis using assms(2-4) by (cases r) (auto dest: ensuresD ensuresD_error)
qed

lemma keeps_records_step:
  assumes "ts_step R entry clock sha256 ttl codeTtl (\<lambda>t s. unmentioned t (entry s)) s s'" "records_ok (entry s)"
  shows "records_ok (entry s')"
  using assms
proof cases
  case (step_code claims challenge rnd r)
  have "keeps (\<lambda>s. records_ok (entry s)) (createCode R codeTtl claims challenge rnd)"
    unfolding createCode_def Let_def by (intro entry_rules records_ok_upd) simp_all
  from keepsD [OF this assms(2) step_code(1)] show ?thesis .
next
  case (step_consume code r)
  have "keeps (\<lambda>s. records_ok (entry s)) (consumeCode R code)"
    unfolding consumeCode_def by (intro entry_rules records_ok_upd) simp_all
  from keepsD [OF this assms(2) step_consume(1)] show ?thesis .
next
  case (step_chain claims rnd rnd' r)
  from keeps_records_chain [OF step_chain(4,1) assms(2) step_chain(2)] show ?thesis .
next
  case (step_rotate token rnd r)
  from keepsD [OF keeps_records_rotate assms(2) step_rotate(1)] show ?thesis .
next
  case (step_revoke token r)
  have "keeps (\<lambda>s. records_ok (entry s)) (revoke R sha256 token)"
    unfolding revoke_def Let_def by (intro entry_rules records_ok_upd) simp_all
  from keepsD [OF this assms(2) step_revoke(1)] show ?thesis .
next
  case (step_active sid r)
  have "keeps (\<lambda>s. records_ok (entry s)) (sessionActive R sid)"
    unfolding sessionActive_def by (intro entry_rules)
  from keepsD [OF this assms(2) step_active(1)] show ?thesis .
next
  case step_other
  then show ?thesis using assms(2) records_ok_same by metis
qed

lemma keeps_records_run:
  "rtranclp (ts_step R entry clock sha256 ttl codeTtl (\<lambda>t s. unmentioned t (entry s))) s s' \<Longrightarrow>
    records_ok (entry s) \<Longrightarrow> records_ok (entry s')"
  by (induction rule: rtranclp_induct) (auto intro: keeps_records_step)

text \<open>A new session ends with its lifetime, whatever becomes of the first refresh token.\<close>

lemma createChain_ends_by:
  assumes "createChain R sha256 ttl claims rnd rnd' s = (Inr x, s')"
  shows "\<exists>t. t \<le> clock s' \<and> ends_by (randomToken rnd) (t + 1000 * ttl) s'"
proof -
  let ?c = "randomToken rnd"
  from assms obtain s1 where m: "rset_ex R (key_chain ?c) (ac_uid claims) ttl s = (Inr (), s1)"
    and i: "issue R sha256 \<lparr>rr_chain = ?c, rr_uid = ac_uid claims, rr_email = ac_email claims, rr_name = ac_name claims\<rparr>
      ttl rnd' s1 = (Inr (fst x), s')"
    by (auto simp: createChain_def Let_def io_bind_Inr)
  have "entry s1 = (entry s)(key_chain ?c \<mapsto> (ac_uid claims, Some (clock s + 1000 * ttl)))" "clock s \<le> clock s1"
    using set_ex [OF m] by auto
  then have e: "ends_by ?c (clock s + 1000 * ttl) s1" "clock s \<le> clock s1" by (simp_all add: ends_by_def)
  have "keeps (\<lambda>s'. ends_by ?c (clock s + 1000 * ttl) s' \<and> clock s \<le> clock s') (issue R sha256 r ttl rnd')" for r
    unfolding issue_def issueToken_def Let_def
    by (intro command_rules) (auto simp: stable_upd_def stable_def ends_by_def)
  from keepsD [OF this _ i] e show ?thesis by blast
qed

lemma revoke_ends:
  assumes "revoke R sha256 token s = (Inr (), s')"
    "live (entry s) (clock s) (key_rt (hashToken sha256 token)) = Some raw" "read_record raw = Inr r"
  shows "ended_in (rr_chain r) s'"
proof -
  from assms(1) obtain v s1 where g: "rget R (key_rt (hashToken sha256 token)) s = (Inr v, s1)"
    and rest: "(if \<not> truthy v then io_return ()
       else io_bind (io_lift (read_record (the v))) (\<lambda>r. rdel R (key_chain (rr_chain r)))) s1 = (Inr (), s')"
    unfolding revoke_def io_bind_Inr [of "rget R k" for k] by blast
  have v: "v = Some raw" using get [OF g] assms(2) by simp
  moreover have "raw \<noteq> []" using assms(3) read_record_Nil by auto
  ultimately have "rdel R (key_chain (rr_chain r)) s1 = (Inr (), s')"
    using rest assms(3) by (auto simp: truthy_def io_bind_Inr)
  from del [OF this] show ?thesis by (auto simp: gone_def live_def)
qed

text \<open>Time passes.\<close>

lemma stable_clock: "stable (\<lambda>s. n \<le> clock s)" "stable_upd (\<lambda>s. n \<le> clock s) k x"
  by (auto simp: stable_upd_def stable_def)

lemma rotate_clock: "rotate R sha256 token rnd s = (x, s') \<Longrightarrow> clock s \<le> clock s'"
proof -
  have "keeps (\<lambda>s'. clock s \<le> clock s') (rotate R sha256 token rnd)"
    unfolding rotate_def rotate_live_def reuse_def first_use_def issueToken_def Let_def
    by (intro command_rules stable_clock)
  then show "rotate R sha256 token rnd s = (x, s') \<Longrightarrow> clock s \<le> clock s'" by (auto dest: keepsD)
qed

lemma rotate_live_clock: "rotate_live R sha256 h r n rnd s = (x, s') \<Longrightarrow> clock s \<le> clock s'"
proof -
  have "keeps (\<lambda>s'. clock s \<le> clock s') (rotate_live R sha256 h r n rnd)"
    unfolding rotate_live_def reuse_def first_use_def issueToken_def Let_def
    by (intro command_rules stable_clock)
  then show "rotate_live R sha256 h r n rnd s = (x, s') \<Longrightarrow> clock s \<le> clock s'" by (auto dest: keepsD)
qed

text \<open>A code that was taken is gone.\<close>

lemma consumeCode_gone:
  "consumeCode R code s = (Inr x, s') \<Longrightarrow> gone (key_code code) (entry s') (clock s')"
  by (auto simp: consumeCode_def io_bind_Inr gone_def live_def dest!: getdel split: option.splits if_splits)

lemma consumeCode_None: "consumeCode R code s = (Inr x, s') \<Longrightarrow> gone (key_code code) (entry s) (clock s) \<Longrightarrow> x = None"
  by (auto simp: consumeCode_def io_bind_Inr gone_def dest!: getdel split: option.splits if_splits)

text \<open>A second use of a token after the grace time.\<close>

lemma live_between:
  "live es now' k = Some v \<Longrightarrow> now \<le> now' \<Longrightarrow> live es now k = Some v"
  by (auto simp: live_def split: option.splits if_splits)

lemma reuse_after_grace:
  assumes "rotate_live R sha256 h r n rnd s = (Inr x, s')" "gone (key_grace h) (entry s) (clock s)"
    "live (entry s) (clock s') (key_used h) = Some u" "u \<noteq> []"
  shows "x = NotRotated \<and> ended_in (rr_chain r) s'"
proof -
  from assms(1) obtain v s1 where g: "rget R (key_used h) s = (Inr v, s1)"
    and rest: "(if truthy v then reuse R h r else first_use R sha256 h r n rnd) s1 = (Inr x, s')"
    unfolding rotate_live_def io_bind_Inr [of "rget R k" for k] by blast
  have "keeps (\<lambda>s'. clock s1 \<le> clock s') (if truthy v then reuse R h r else first_use R sha256 h r n rnd)"
    unfolding reuse_def first_use_def issueToken_def Let_def
    by (intro command_rules stable_clock)
  from keepsD [OF this _ rest] get [OF g] have "clock s \<le> clock s'" "entry s1 = entry s" "clock s \<le> clock s1" by auto
  then have "v = Some u" using get [OF g] live_between [OF assms(3)] by auto
  then have "reuse R h r s1 = (Inr x, s')" using rest assms(4) by (simp add: truthy_def)
  then obtain w s2 where g2: "rget R (key_grace h) s1 = (Inr w, s2)"
    and rest2: "(if truthy w then io_return (Rotated (the w) (record_claims r))
       else io_bind (rdel R (key_chain (rr_chain r))) (\<lambda>_. io_return NotRotated)) s2 = (Inr x, s')"
    unfolding reuse_def io_bind_Inr [of "rget R k" for k] by blast
  have "w = None"
    using get [OF g2] assms(2) live_mono \<open>entry s1 = entry s\<close> \<open>clock s \<le> clock s1\<close> by (metis gone_def)
  with rest2 obtain s3 where "rdel R (key_chain (rr_chain r)) s2 = (Inr (), s3)" "x = NotRotated" "s' = s3"
    by (auto simp: truthy_def io_bind_Inr)
  then show ?thesis using del [of "key_chain (rr_chain r)" s2] by (fastforce simp: gone_def live_def)
qed

lemma rotate_replay:
  assumes "rotate R sha256 token rnd s = (Inr x, s')" "h = hashToken sha256 token"
    "live (entry s) (clock s) (key_rt h) = Some raw" "read_record raw = Inr r"
    "gone (key_grace h) (entry s) (clock s)" "live (entry s) (clock s') (key_used h) = Some u" "u \<noteq> []"
    "\<forall>v. entry s (key_chain (rr_chain r)) \<noteq> Some (v, None)"
  shows "x = NotRotated \<and> ends_by (rr_chain r) (clock s' + 1000) s'"
proof -
  from assms(1) obtain v s1 where g: "rget R (key_rt h) s = (Inr v, s1)"
    and rest: "(if \<not> truthy v then io_return NotRotated
         else io_bind (io_lift (read_record (the v))) (\<lambda>r.
           io_bind (rttl R (key_chain (rr_chain r))) (\<lambda>ttl.
           if ttl \<le> 0 then io_return NotRotated
           else rotate_live R sha256 h r (nat ttl) rnd))) s1 = (Inr x, s')"
    unfolding rotate_def Let_def io_bind_Inr [of "rget R k" for k] assms(2) by blast
  have "v = Some raw" "raw \<noteq> []" using get [OF g] assms(3,4) read_record_Nil by auto
  then have "io_bind (rttl R (key_chain (rr_chain r))) (\<lambda>ttl.
      if ttl \<le> 0 then io_return NotRotated else rotate_live R sha256 h r (nat ttl) rnd) s1 = (Inr x, s')"
    using rest assms(4) by (auto simp: truthy_def io_bind_Inr)
  then obtain n s2 where t: "rttl R (key_chain (rr_chain r)) s1 = (Inr n, s2)"
    and rest2: "(if n \<le> 0 then io_return NotRotated else rotate_live R sha256 h r (nat n) rnd) s2 = (Inr x, s')"
    unfolding io_bind_Inr [of "rttl R k" for k] by blast
  have e: "entry s2 = entry s" "clock s \<le> clock s2" using get [OF g] ttl [OF t] by auto
  show ?thesis
  proof (cases "n \<le> 0")
    case True
    then have "x = NotRotated" "s' = s2" using rest2 by auto
    moreover have "e \<le> clock s2 + 1000" if "entry s (key_chain (rr_chain r)) = Some (v, Some e)" for v e
    proof (rule ccontr)
      assume "\<not> e \<le> clock s2 + 1000"
      then have "clock s1 + 1000 < e" using ttl [OF t] by linarith
      moreover have "entry s1 (key_chain (rr_chain r)) = Some (v, Some e)" using that get [OF g] by simp
      ultimately have "0 < n" using ttl_of_alive ttl [OF t] by blast
      then show False using True by simp
    qed
    ultimately show ?thesis using e(1) assms(8) unfolding ends_by_def by (metis option.exhaust)
  next
    case False
    then have "rotate_live R sha256 h r (nat n) rnd s2 = (Inr x, s')" using rest2 by simp
    then have "x = NotRotated \<and> ended_in (rr_chain r) s'"
      using reuse_after_grace assms(5-7) e live_mono by (metis gone_def)
    then show ?thesis by (auto simp: gone_def live_def ends_by_def split: if_splits option.splits)
  qed
qed

text \<open>The first use of a token records it and leaves a new one.\<close>

lemma first_use_records:
  assumes "first_use R sha256 h r n rnd s = (Inr x, s')" "gone (key_grace h) (entry s) (clock s)"
  shows "x = Rotated (randomToken rnd) (record_claims r) \<and> clock s \<le> clock s' \<and>
    (\<exists>e1 e2. clock s + 1000 * n \<le> e1 \<and> clock s + 1000 * n \<le> e2 \<and>
      entry s' = (entry s)(key_grace h \<mapsto> (randomToken rnd, Some (clock s + 1000 * REFRESH_GRACE_SECONDS)),
        key_rt (hashToken sha256 (randomToken rnd)) \<mapsto> (jprint (refresh_json r), Some e1),
        key_used h \<mapsto> (''1'', Some e2)))"
proof -
  let ?t = "randomToken rnd"
  from assms(1) obtain b s1 where nx: "rset_ex_nx R (key_grace h) ?t REFRESH_GRACE_SECONDS s = (Inr b, s1)"
    and rest: "(if \<not> b then
           io_bind (rget R (key_grace h)) (\<lambda>graced.
             io_return (if truthy graced then Rotated (the graced) (record_claims r) else NotRotated))
         else io_bind (issueToken R sha256 ?t r n) (\<lambda>_.
           io_bind (rset_ex R (key_used h) ''1'' n) (\<lambda>_.
           io_return (Rotated ?t (record_claims r))))) s1 = (Inr x, s')"
    unfolding first_use_def Let_def io_bind_Inr [of "rset_ex_nx R k v m" for k v m] by blast
  have b: "b" "entry s1 = (entry s)(key_grace h \<mapsto> (?t, Some (clock s + 1000 * REFRESH_GRACE_SECONDS)))" "clock s \<le> clock s1"
    using set_ex_nx [OF nx] assms(2) by (auto simp: gone_def)
  with rest obtain s2 s3 where w: "rset_ex R (key_rt (hashToken sha256 ?t)) (jprint (refresh_json r)) n s1 = (Inr (), s2)"
    "rset_ex R (key_used h) ''1'' n s2 = (Inr (), s3)" "s' = s3" "x = Rotated ?t (record_claims r)"
    by (auto simp: io_bind_Inr issueToken_def)
  have "entry s2 = (entry s1)(key_rt (hashToken sha256 ?t) \<mapsto> (jprint (refresh_json r), Some (clock s1 + 1000 * n)))"
    "clock s1 \<le> clock s2" "entry s3 = (entry s2)(key_used h \<mapsto> (''1'', Some (clock s2 + 1000 * n)))" "clock s2 \<le> clock s3"
    using set_ex [OF w(1)] set_ex [OF w(2)] by auto
  then have e: "entry s' = (entry s)(key_grace h \<mapsto> (?t, Some (clock s + 1000 * REFRESH_GRACE_SECONDS)),
        key_rt (hashToken sha256 ?t) \<mapsto> (jprint (refresh_json r), Some (clock s1 + 1000 * n)),
        key_used h \<mapsto> (''1'', Some (clock s2 + 1000 * n)))" and c: "clock s1 \<le> clock s2" "clock s2 \<le> clock s'"
    using b w(3) by simp_all
  have "clock s + 1000 * n \<le> clock s1 + 1000 * n" "clock s + 1000 * n \<le> clock s2 + 1000 * n" using b(3) c by simp_all
  have "clock s \<le> clock s'" using b(3) c by simp
  then show ?thesis
    by (intro conjI exI) (rule w(4), assumption, rule \<open>clock s + 1000 * n \<le> clock s1 + 1000 * n\<close>,
      rule \<open>clock s + 1000 * n \<le> clock s2 + 1000 * n\<close>, rule e)
qed

lemma rotate_first:
  assumes "rotate R sha256 token rnd s = (Inr (Rotated t cl), s')" "h = hashToken sha256 token"
    "gone (key_used h) (entry s) (clock s)" "gone (key_grace h) (entry s) (clock s)"
    "entry s (key_rt h) = Some (raw, e)" "read_record raw = Inr r" "entry s (key_chain (rr_chain r)) = Some (u, Some E)"
  shows "t = randomToken rnd \<and> cl = record_claims r \<and>
    (\<exists>e0 e1 e2. clock s + 1000 * REFRESH_GRACE_SECONDS \<le> e0 \<and> E \<le> e1 + 1000 \<and> E \<le> e2 + 1000 \<and>
      entry s' = (entry s)(key_grace h \<mapsto> (t, Some e0),
        key_rt (hashToken sha256 t) \<mapsto> (jprint (refresh_json r), Some e1), key_used h \<mapsto> (''1'', Some e2)))"
proof -
  from rotate_steps [OF assms(1)] obtain raw' r' n s1 s2 where
    g: "rget R (key_rt h) s = (Inr (Some raw'), s1)" "read_record raw' = Inr r'"
    "rttl R (key_chain (rr_chain r')) s1 = (Inr n, s2)" "0 < n"
    "rotate_live R sha256 h r' (nat n) rnd s2 = (Inr (Rotated t cl), s')"
    unfolding assms(2) by blast
  have "live (entry s) (clock s) (key_rt h) = Some raw'" using get [OF g(1)] by simp
  from live_entry [OF this] assms(5) have "raw' = raw" by auto
  then have r: "r' = r" using g(2) assms(6) by simp
  have e: "entry s2 = entry s" "clock s \<le> clock s1" "clock s1 \<le> clock s2" "entry s1 = entry s"
    using get [OF g(1)] ttl [OF g(3)] by auto
  have n: "int E \<le> int (clock s1) + 1000 * n + 1000"
    using ttl_of_pos [of "entry s1"] ttl [OF g(3)] g(4) assms(7) r e(4) by fastforce
  from g(5) obtain v s3 where g3: "rget R (key_used h) s2 = (Inr v, s3)"
    and rest: "(if truthy v then reuse R h r' else first_use R sha256 h r' (nat n) rnd) s3 = (Inr (Rotated t cl), s')"
    unfolding rotate_live_def io_bind_Inr [of "rget R k" for k] by blast
  have "v = None" using get [OF g3] assms(3) e live_mono by (metis gone_def order_trans)
  then have f: "first_use R sha256 h r (nat n) rnd s3 = (Inr (Rotated t cl), s')" using rest r by (simp add: truthy_def)
  have e3: "entry s3 = entry s" "clock s2 \<le> clock s3" using get [OF g3] e by auto
  then have "gone (key_grace h) (entry s3) (clock s3)" using assms(4) e live_mono by (metis gone_def order_trans)
  from first_use_records [OF f this] obtain e1 e2 where t: "t = randomToken rnd" "cl = record_claims r"
    and b: "clock s3 + 1000 * nat n \<le> e1" "clock s3 + 1000 * nat n \<le> e2"
    and s': "entry s' = (entry s)(key_grace h \<mapsto> (t, Some (clock s3 + 1000 * REFRESH_GRACE_SECONDS)),
        key_rt (hashToken sha256 t) \<mapsto> (jprint (refresh_json r), Some e1), key_used h \<mapsto> (''1'', Some e2))"
    unfolding e3 by auto
  have "E \<le> e1 + 1000" "E \<le> e2 + 1000" "clock s \<le> clock s3" using b n e e3 g(4) by linarith+
  then show ?thesis using t s' by (intro conjI exI [of _ "clock s3 + 1000 * REFRESH_GRACE_SECONDS"] exI [of _ e1] exI [of _ e2]) simp_all
qed

text \<open>A second use within the grace time.\<close>

lemma rotate_graced:
  assumes "rotate R sha256 token rnd s = (Inr x, s')" "h = hashToken sha256 token"
    "live (entry s) (clock s') (key_rt h) = Some raw" "read_record raw = Inr r"
    "entry s (key_chain (rr_chain r)) = Some (u, Some E)" "clock s' + 1000 < E"
    "live (entry s) (clock s') (key_used h) = Some w" "w \<noteq> []"
    "live (entry s) (clock s') (key_grace h) = Some t" "t \<noteq> []"
  shows "x = Rotated t (record_claims r)"
proof -
  from assms(1) obtain v s1 where g: "rget R (key_rt h) s = (Inr v, s1)"
    and rest: "(if \<not> truthy v then io_return NotRotated
         else io_bind (io_lift (read_record (the v))) (\<lambda>r.
           io_bind (rttl R (key_chain (rr_chain r))) (\<lambda>ttl.
           if ttl \<le> 0 then io_return NotRotated
           else rotate_live R sha256 h r (nat ttl) rnd))) s1 = (Inr x, s')"
    unfolding rotate_def Let_def io_bind_Inr [of "rget R k" for k] assms(2) by blast
  have le: "clock s \<le> clock s'" by (rule rotate_clock [OF assms(1)])
  have "v = Some raw" "raw \<noteq> []" using get [OF g] live_between [OF assms(3) le] assms(4) read_record_Nil by auto
  then have "io_bind (rttl R (key_chain (rr_chain r))) (\<lambda>ttl.
      if ttl \<le> 0 then io_return NotRotated else rotate_live R sha256 h r (nat ttl) rnd) s1 = (Inr x, s')"
    using rest assms(4) by (auto simp: truthy_def io_bind_Inr)
  then obtain n s2 where t: "rttl R (key_chain (rr_chain r)) s1 = (Inr n, s2)"
    and rest2: "(if n \<le> 0 then io_return NotRotated else rotate_live R sha256 h r (nat n) rnd) s2 = (Inr x, s')"
    unfolding io_bind_Inr [of "rttl R k" for k] by blast
  have e: "entry s1 = entry s" "clock s \<le> clock s1" "entry s2 = entry s" "clock s1 \<le> clock s2"
    using get [OF g] ttl [OF t] by auto
  have c: "clock s2 \<le> clock s'"
    using rest2 rotate_live_clock by (auto split: if_splits)
  have "0 < n" using ttl_of_alive [of "entry s1" "clock s1"] ttl [OF t] e c assms(5,6) by fastforce
  then have "rotate_live R sha256 h r (nat n) rnd s2 = (Inr x, s')" using rest2 by simp
  then obtain v3 s3 where g3: "rget R (key_used h) s2 = (Inr v3, s3)"
    and rest3: "(if truthy v3 then reuse R h r else first_use R sha256 h r (nat n) rnd) s3 = (Inr x, s')"
    unfolding rotate_live_def io_bind_Inr [of "rget R k" for k] by blast
  have "v3 = Some w" using get [OF g3] e live_between [OF assms(7) c] by simp
  then have "reuse R h r s3 = (Inr x, s')" using rest3 assms(8) by (simp add: truthy_def)
  then obtain v4 s4 where g4: "rget R (key_grace h) s3 = (Inr v4, s4)"
    and rest4: "(if truthy v4 then io_return (Rotated (the v4) (record_claims r))
       else io_bind (rdel R (key_chain (rr_chain r))) (\<lambda>_. io_return NotRotated)) s4 = (Inr x, s')"
    unfolding reuse_def io_bind_Inr [of "rget R k" for k] by blast
  have "keeps (\<lambda>s'. clock s4 \<le> clock s') (if truthy v4 then io_return (Rotated (the v4) (record_claims r))
       else io_bind (rdel R (key_chain (rr_chain r))) (\<lambda>_. io_return NotRotated))"
    by (intro command_rules stable_clock)
  from keepsD [OF this _ rest4] have "clock s4 \<le> clock s'" by simp
  then have "clock s3 \<le> clock s'" using get [OF g4] by simp
  then have "v4 = Some t" using get [OF g4] get [OF g3] e live_between [OF assms(9)] by simp
  then show ?thesis using rest4 assms(10) by (simp add: truthy_def)
qed

text \<open>The two uses together: a client that repeats a request gets the reply it missed.\<close>

lemma rotate_again:
  assumes "rotate R sha256 token rnd s = (Inr (Rotated t cl), s1)" "h = hashToken sha256 token"
    "gone (key_used h) (entry s) (clock s)" "gone (key_grace h) (entry s) (clock s)"
    "entry s (key_rt h) = Some (raw, Some e)" "read_record raw = Inr r" "entry s (key_chain (rr_chain r)) = Some (u, Some E)"
    "rotate R sha256 token rnd' s1 = (Inr x, s2)" "clock s2 < clock s + 1000 * REFRESH_GRACE_SECONDS"
    "clock s2 + 1000 < E" "clock s2 < e" "rnd \<noteq> []" "hashToken sha256 t \<noteq> h"
  shows "x = Rotated t cl"
proof -
  from rotate_first [OF assms(1-7)] obtain e0 e1 e2 where f: "t = randomToken rnd" "cl = record_claims r"
    "clock s + 1000 * REFRESH_GRACE_SECONDS \<le> e0" "E \<le> e1 + 1000" "E \<le> e2 + 1000"
    "entry s1 = (entry s)(key_grace h \<mapsto> (t, Some e0),
        key_rt (hashToken sha256 t) \<mapsto> (jprint (refresh_json r), Some e1), key_used h \<mapsto> (''1'', Some e2))"
    by blast
  have "t \<noteq> []" using f(1) assms(12) by (simp add: randomToken_def b64_encode_not_Nil)
  then show ?thesis
    unfolding f(2)
    by (intro rotate_graced [OF assms(8,2), where raw = raw and u = u and E = E and w = "''1''"])
      (use assms f in \<open>simp_all add: live_def\<close>)
qed

end

section \<open>A sign-in in memory\<close>

abbreviation mem_step :: "(str \<Rightarrow> mem \<Rightarrow> bool) \<Rightarrow> mem \<Rightarrow> mem \<Rightarrow> bool" where
  "mem_step \<equiv> ts_step mem_redis mem_entries mem_clock (\<lambda>x. x) 100 60"

definition user_claims :: AccessClaims where
  "user_claims = \<lparr>ac_uid = ''u1'', ac_email = JStr ''a@b'', ac_name = JStr ''A'', ac_sid = None\<rparr>"

definition chain1 :: str where "chain1 = randomToken ''r1''"
definition token1 :: str where "token1 = randomToken ''r2''"
definition token2 :: str where "token2 = randomToken ''r3''"

definition signed_in :: mem where
  "signed_in = snd (createChain mem_redis (\<lambda>x. x) 100 user_claims ''r1'' ''r2'' empty_mem)"

definition rotated :: mem where
  "rotated = snd (rotate mem_redis (\<lambda>x. x) token1 ''r3'' signed_in)"

definition later :: "nat \<Rightarrow> mem \<Rightarrow> mem" where
  "later n m = m\<lparr>mem_clock := mem_clock m + n\<rparr>"

definition record1 :: RefreshRecord where
  "record1 = \<lparr>rr_chain = chain1, rr_uid = ''u1'', rr_email = JStr ''a@b'', rr_name = JStr ''A''\<rparr>"

lemma sign_in_runs:
  "createChain mem_redis (\<lambda>x. x) 100 user_claims ''r1'' ''r2'' empty_mem =
     (Inr (token1, user_claims\<lparr>ac_sid := Some chain1\<rparr>), signed_in)"
  "rotate mem_redis (\<lambda>x. x) token1 ''r3'' signed_in = (Inr (Rotated token2 (record_claims record1)), rotated)"
proof -
  have "fst (createChain mem_redis (\<lambda>x. x) 100 user_claims ''r1'' ''r2'' empty_mem) =
      Inr (token1, user_claims\<lparr>ac_sid := Some chain1\<rparr>)"
    "fst (rotate mem_redis (\<lambda>x. x) token1 ''r3'' signed_in) = Inr (Rotated token2 (record_claims record1))"
    by code_simp+
  then show "createChain mem_redis (\<lambda>x. x) 100 user_claims ''r1'' ''r2'' empty_mem =
     (Inr (token1, user_claims\<lparr>ac_sid := Some chain1\<rparr>), signed_in)"
    "rotate mem_redis (\<lambda>x. x) token1 ''r3'' signed_in = (Inr (Rotated token2 (record_claims record1)), rotated)"
    unfolding signed_in_def rotated_def by (metis prod.collapse)+
qed

lemma later_step: "mem_step ok m (later n m)"
  by (rule step_other) (simp_all add: later_def)

lemma later_later [simp]: "later n (later m x) = later (n + m) x"
  by (simp add: later_def)

lemma later_run: "rtranclp (mem_step ok) m (later n m)"
  by (rule r_into_rtranclp) (rule later_step)

section \<open>Properties\<close>

text \<open>A login code is good for one use: once it was taken, every later attempt gets nothing,
  unless a new code with the same random value is issued.\<close>

theorem code_single_use:
  assumes "redis_server R entry clock inc" "consumeCode R code s = (Inr x, s1)"
    "rtranclp (ts_step R entry clock sha256 ttl codeTtl (\<lambda>t _. t \<noteq> code)) s1 s2" "consumeCode R code s2 = (Inr y, s3)"
  shows "y = None"
  using redis_server.consumeCode_None [OF assms(1,4)] redis_server.consumeCode_gone [OF assms(1,2)]
    redis_server.gone_run [OF assms(1,3)] by blast

definition with_code :: mem where
  "with_code = snd (createCode mem_redis 60 user_claims ''ch'' ''r1'' empty_mem)"

lemma with_code_taken: "fst (consumeCode mem_redis chain1 with_code) = Inr (Some \<lparr>lc_claims = user_claims, lc_challenge = ''ch''\<rparr>)"
  by code_simp

theorem code_single_use_witness:
  "fst (consumeCode mem_redis chain1 with_code) \<noteq> Inr None \<and>
   fst (consumeCode mem_redis chain1 (snd (consumeCode mem_redis chain1 with_code))) = Inr None"
proof -
  let ?s = "snd (consumeCode mem_redis chain1 with_code)"
  have 1: "consumeCode mem_redis chain1 with_code = (Inr (Some \<lparr>lc_claims = user_claims, lc_challenge = ''ch''\<rparr>), ?s)"
    using with_code_taken by (metis prod.collapse)
  have "case fst (consumeCode mem_redis chain1 ?s) of Inl _ \<Rightarrow> False | Inr _ \<Rightarrow> True" by code_simp
  then obtain y where y: "consumeCode mem_redis chain1 ?s = (Inr y, snd (consumeCode mem_redis chain1 ?s))"
    by (metis (no_types, lifting) prod.collapse old.sum.exhaust sum.case(1))
  from code_single_use [OF mem.redis_server_axioms 1 rtranclp.rtrancl_refl this] show ?thesis
    using with_code_taken y by (metis fst_conv option.distinct(1) sum.inject(2))
qed

text \<open>A sign-in session that has ended, by signing out, by expiry or by the reuse of a refresh
  token, stays ended: in no later state is it active and no refresh token rotates into it.\<close>

theorem session_ended_for_good:
  assumes "redis_server R entry clock inc" "live (entry s) (clock s) (key_chain c) = None"
    "rtranclp (ts_step R entry clock sha256 ttl codeTtl (\<lambda>t _. t \<noteq> c)) s s'"
  shows "(\<forall>s2. sessionActive R c s' \<noteq> (Inr True, s2)) \<and>
    (\<forall>token rnd t cl s2. rotate R sha256 token rnd s' = (Inr (Rotated t cl), s2) \<longrightarrow> ac_sid cl \<noteq> Some c)"
proof -
  have "gone (key_chain c) (entry s') (clock s')"
    using redis_server.gone_run [OF assms(1,3)] assms(2) by (simp add: gone_def)
  then show ?thesis
    using redis_server.sessionActive_ended [OF assms(1)] redis_server.rotate_record [OF assms(1)]
    by (fastforce simp: record_claims_def)
qed

theorem session_ended_for_good_witness:
  "\<forall>s2. sessionActive mem_redis chain1 (later 200000 signed_in) \<noteq> (Inr True, s2)"
proof -
  have "live (mem_entries (later 100000 signed_in)) (mem_clock (later 100000 signed_in)) (key_chain chain1) = None"
    by code_simp
  from session_ended_for_good [OF mem.redis_server_axioms this later_run [of _ _ 100000]]
  show ?thesis by simp
qed

text \<open>Refreshing does not prolong a sign-in session: once its lifetime has passed since the
  sign-in, it is over in every state that can be reached.\<close>

theorem session_lifetime:
  assumes "redis_server R entry clock inc" "createChain R sha256 ttl claims rnd rnd' s = (Inr (t, cl), s1)"
    "rtranclp (ts_step R entry clock sha256 ttl codeTtl (\<lambda>t _. t \<noteq> randomToken rnd)) s1 s2"
    "clock s1 + 1000 * ttl \<le> clock s2"
  shows "ac_sid cl = Some (randomToken rnd) \<and> (\<forall>s3. sessionActive R (randomToken rnd) s2 \<noteq> (Inr True, s3)) \<and>
    (\<forall>token rnd' t cl' s3. rotate R sha256 token rnd' s2 = (Inr (Rotated t cl'), s3) \<longrightarrow> ac_sid cl' \<noteq> ac_sid cl)"
proof -
  obtain b where b: "b \<le> clock s1" "redis_server.ends_by entry (randomToken rnd) (b + 1000 * ttl) s1"
    using redis_server.createChain_ends_by [OF assms(1,2)] by blast
  have "redis_server.ends_by entry (randomToken rnd) (b + 1000 * ttl) s2"
    using redis_server.about_key_run [OF assms(1,3) redis_server.about_key_ends_by [OF assms(1)] b(2)] by blast
  then have "gone (key_chain (randomToken rnd)) (entry s2) (clock s2)"
    using redis_server.ends_by_ended [OF assms(1)] b(1) assms(4) by (meson add_le_mono1 order_trans)
  moreover have "ac_sid cl = Some (randomToken rnd)"
    using assms(2) by (auto simp: createChain_def Let_def io_bind_Inr)
  ultimately show ?thesis
    using redis_server.sessionActive_ended [OF assms(1)] redis_server.rotate_record [OF assms(1)]
    by (fastforce simp: record_claims_def)
qed

theorem session_lifetime_witness: "\<forall>s3. sessionActive mem_redis chain1 (later 100000 signed_in) \<noteq> (Inr True, s3)"
  using session_lifetime [OF mem.redis_server_axioms sign_in_runs(1) later_run [of _ _ 100000]]
  by (simp add: later_def chain1_def)

text \<open>Signing out is final: after \<open>revoke\<close> of a refresh token of a session, whichever
  one it is, no refresh token of that session works any more.\<close>

theorem logout_is_final:
  assumes "redis_server R entry clock inc" "revoke R sha256 token s = (Inr (), s1)"
    "live (entry s) (clock s) (key_rt (hashToken sha256 token)) = Some raw" "read_record raw = Inr r"
    "rtranclp (ts_step R entry clock sha256 ttl codeTtl (\<lambda>t _. t \<noteq> rr_chain r)) s1 s2"
    "rotate R sha256 token' rnd s2 = (Inr (Rotated t cl), s3)"
  shows "ac_sid cl \<noteq> Some (rr_chain r)"
proof -
  have "gone (key_chain (rr_chain r)) (entry s2) (clock s2)"
    using redis_server.gone_run [OF assms(1,5)] redis_server.revoke_ends [OF assms(1-4)] by blast
  then show ?thesis using redis_server.rotate_record [OF assms(1,6)] by (auto simp: record_claims_def)
qed

definition signed_in_twice :: mem where
  "signed_in_twice = snd (createChain mem_redis (\<lambda>x. x) 100 user_claims ''s1'' ''s2'' signed_in)"

theorem logout_is_final_witness:
  "\<exists>cl s3. rotate mem_redis (\<lambda>x. x) (randomToken ''s2'') ''s3'' (snd (revoke mem_redis (\<lambda>x. x) token1 signed_in_twice)) =
      (Inr (Rotated (randomToken ''s3'') cl), s3) \<and> ac_sid cl \<noteq> Some chain1"
proof -
  let ?s1 = "snd (revoke mem_redis (\<lambda>x. x) token1 signed_in_twice)"
  let ?m = "rotate mem_redis (\<lambda>x. x) (randomToken ''s2'') ''s3'' ?s1"
  have "fst (revoke mem_redis (\<lambda>x. x) token1 signed_in_twice) = Inr ()" by code_simp
  then have 1: "revoke mem_redis (\<lambda>x. x) token1 signed_in_twice = (Inr (), ?s1)" by (metis prod.collapse)
  have 2: "live (mem_entries signed_in_twice) (mem_clock signed_in_twice) (key_rt (hashToken (\<lambda>x. x) token1)) =
      Some (jprint (refresh_json record1))" by code_simp
  have 3: "read_record (jprint (refresh_json record1)) = Inr record1" by code_simp
  have "fst ?m = Inr (Rotated (randomToken ''s3'') (record_claims (record1\<lparr>rr_chain := randomToken ''s1''\<rparr>)))" by code_simp
  then have 4: "?m = (Inr (Rotated (randomToken ''s3'') (record_claims (record1\<lparr>rr_chain := randomToken ''s1''\<rparr>))), snd ?m)"
    by (metis prod.collapse)
  from logout_is_final [OF mem.redis_server_axioms 1 2 3 rtranclp.rtrancl_refl 4]
  show ?thesis using 4 by (auto simp: record1_def)
qed

text \<open>C7. A refresh token that is used again after the grace time of its first use ends the
  session (or finds it in its last second): the reuse is refused and, from the end of the session
  on, so is every refresh token of it.\<close>

theorem replay_ends_session:
  assumes "redis_server R entry clock inc" "rotate R sha256 token rnd s = (Inr x, s1)" "h = hashToken sha256 token"
    "live (entry s) (clock s) (key_rt h) = Some raw" "read_record raw = Inr r"
    "live (entry s) (clock s) (key_grace h) = None" "live (entry s) (clock s1) (key_used h) = Some ''1''"
    "\<forall>u. entry s (key_chain (rr_chain r)) \<noteq> Some (u, None)"
    "rtranclp (ts_step R entry clock sha256 ttl codeTtl (\<lambda>t _. t \<noteq> rr_chain r)) s1 s2" "clock s1 + 1000 \<le> clock s2"
    "rotate R sha256 token' rnd' s2 = (Inr (Rotated t cl), s3)"
  shows "x = NotRotated \<and> ac_sid cl \<noteq> Some (rr_chain r)"
proof -
  have r: "x = NotRotated \<and> redis_server.ends_by entry (rr_chain r) (clock s1 + 1000) s1"
    using redis_server.rotate_replay [OF assms(1-5) _ assms(7) _ assms(8)] assms(6) by (simp add: gone_def)
  then have "redis_server.ends_by entry (rr_chain r) (clock s1 + 1000) s2"
    using redis_server.about_key_run [OF assms(1,9) redis_server.about_key_ends_by [OF assms(1)]] by blast
  then have "gone (key_chain (rr_chain r)) (entry s2) (clock s2)"
    using redis_server.ends_by_ended [OF assms(1)] assms(10) by blast
  then show ?thesis using r redis_server.rotate_record [OF assms(1,11)] by (auto simp: record_claims_def)
qed

text \<open>A reused token of the first of two sessions.\<close>

definition rotated_twice :: mem where
  "rotated_twice = later 40000 (snd (rotate mem_redis (\<lambda>x. x) token1 ''r3'' signed_in_twice))"

definition replayed :: mem where
  "replayed = snd (rotate mem_redis (\<lambda>x. x) token1 ''r4'' rotated_twice)"

lemma replay_runs:
  "rotate mem_redis (\<lambda>x. x) token1 ''r4'' rotated_twice = (Inr NotRotated, replayed)"
  "rotate mem_redis (\<lambda>x. x) (randomToken ''s2'') ''s3'' (later 1000 replayed) =
     (Inr (Rotated (randomToken ''s3'') (record_claims (record1\<lparr>rr_chain := randomToken ''s1''\<rparr>))),
      snd (rotate mem_redis (\<lambda>x. x) (randomToken ''s2'') ''s3'' (later 1000 replayed)))"
proof -
  have "fst (rotate mem_redis (\<lambda>x. x) token1 ''r4'' rotated_twice) = Inr NotRotated"
    "fst (rotate mem_redis (\<lambda>x. x) (randomToken ''s2'') ''s3'' (later 1000 replayed)) =
       Inr (Rotated (randomToken ''s3'') (record_claims (record1\<lparr>rr_chain := randomToken ''s1''\<rparr>)))"
    by code_simp+
  then show "rotate mem_redis (\<lambda>x. x) token1 ''r4'' rotated_twice = (Inr NotRotated, replayed)"
    "rotate mem_redis (\<lambda>x. x) (randomToken ''s2'') ''s3'' (later 1000 replayed) =
     (Inr (Rotated (randomToken ''s3'') (record_claims (record1\<lparr>rr_chain := randomToken ''s1''\<rparr>))),
      snd (rotate mem_redis (\<lambda>x. x) (randomToken ''s2'') ''s3'' (later 1000 replayed)))"
    unfolding replayed_def by (metis prod.collapse)+
qed

theorem replay_ends_session_witness:
  "ac_sid (record_claims (record1\<lparr>rr_chain := randomToken ''s1''\<rparr>)) \<noteq> Some chain1"
proof -
  let ?h = "hashToken (\<lambda>x. x) token1"
  have s: "live (mem_entries rotated_twice) (mem_clock rotated_twice) (key_rt ?h) = Some (jprint (refresh_json record1))"
    "read_record (jprint (refresh_json record1)) = Inr record1"
    "live (mem_entries rotated_twice) (mem_clock rotated_twice) (key_grace ?h) = None"
    "live (mem_entries rotated_twice) (mem_clock replayed) (key_used ?h) = Some ''1''"
    by code_simp+
  have "mem_entries rotated_twice (key_chain (rr_chain record1)) = Some (''u1'', Some 100000)" by code_simp
  then have "\<forall>u. mem_entries rotated_twice (key_chain (rr_chain record1)) \<noteq> Some (u, None)" by simp
  from replay_ends_session [OF mem.redis_server_axioms replay_runs(1) refl s this later_run [of _ _ 1000] _ replay_runs(2)]
  show ?thesis by (simp add: later_def record1_def)
qed

text \<open>A lost reply: a client that repeats a refresh within the grace time gets the same
  refresh token again, with the same claims.\<close>

theorem lost_reply_repeats:
  assumes "redis_server R entry clock inc" "rotate R sha256 token rnd s = (Inr (Rotated t cl), s1)"
    "h = hashToken sha256 token" "live (entry s) (clock s) (key_used h) = None" "live (entry s) (clock s) (key_grace h) = None"
    "entry s (key_rt h) = Some (raw, Some e)" "read_record raw = Inr r" "entry s (key_chain (rr_chain r)) = Some (u, Some E)"
    "rotate R sha256 token rnd' s1 = (Inr x, s2)" "clock s2 < clock s + 1000 * REFRESH_GRACE_SECONDS"
    "clock s2 + 1000 < E" "clock s2 < e" "rnd \<noteq> []" "hashToken sha256 t \<noteq> h"
  shows "x = Rotated t cl"
  using redis_server.rotate_again [OF assms(1-3) _ _ assms(6-14)] assms(4,5) by (simp add: gone_def)

theorem lost_reply_repeats_witness:
  "fst (rotate mem_redis (\<lambda>x. x) token1 ''r4'' (later 20000 rotated)) = Inr (Rotated token2 (record_claims record1)) \<and>
   fst (rotate mem_redis (\<lambda>x. x) token1 ''r4'' rotated) = Inr (Rotated token2 (record_claims record1))"
proof -
  let ?h = "hashToken (\<lambda>x. x) token1"
  have s: "live (mem_entries signed_in) (mem_clock signed_in) (key_used ?h) = None"
    "live (mem_entries signed_in) (mem_clock signed_in) (key_grace ?h) = None"
    "mem_entries signed_in (key_rt ?h) = Some (jprint (refresh_json record1), Some 100000)"
    "read_record (jprint (refresh_json record1)) = Inr record1"
    "mem_entries signed_in (key_chain (rr_chain record1)) = Some (''u1'', Some 100000)"
    "mem_clock (snd (rotate mem_redis (\<lambda>x. x) token1 ''r4'' rotated)) < mem_clock signed_in + 1000 * REFRESH_GRACE_SECONDS"
    "mem_clock (snd (rotate mem_redis (\<lambda>x. x) token1 ''r4'' rotated)) + 1000 < 100000"
    "hashToken (\<lambda>x. x) token2 \<noteq> ?h"
    by code_simp+
  have "case fst (rotate mem_redis (\<lambda>x. x) token1 ''r4'' rotated) of Inl _ \<Rightarrow> False | Inr _ \<Rightarrow> True" by code_simp
  then obtain x where x: "rotate mem_redis (\<lambda>x. x) token1 ''r4'' rotated =
      (Inr x, snd (rotate mem_redis (\<lambda>x. x) token1 ''r4'' rotated))"
    by (metis (no_types, lifting) prod.collapse old.sum.exhaust sum.case(1))
  have "x = Rotated token2 (record_claims record1)"
    using lost_reply_repeats [OF mem.redis_server_axioms sign_in_runs(2) refl s(1-5) x s(6,7)] s(7,8) by simp
  moreover have "fst (rotate mem_redis (\<lambda>x. x) token1 ''r4'' (later 20000 rotated)) = Inr (Rotated token2 (record_claims record1))"
    by code_simp
  ultimately show ?thesis using x by (metis fst_conv)
qed

text \<open>C21. Refreshing never changes the user: in every state that can be reached from an empty store,
  a refresh token rotates to claims of the user its session was made for.\<close>

theorem refresh_keeps_user:
  assumes "redis_server R entry clock inc" "entry s = (\<lambda>_. None)"
    "rtranclp (ts_step R entry clock sha256 ttl codeTtl (\<lambda>t s. unmentioned t (entry s))) s s1"
    "rotate R sha256 token rnd s1 = (Inr (Rotated t cl), s2)"
  shows "\<exists>c e. ac_sid cl = Some c \<and> entry s1 (key_chain c) = Some (ac_uid cl, e)"
proof -
  have "records_ok (entry s1)"
    using redis_server.keeps_records_run [OF assms(1,3)] assms(2) by (simp add: records_ok_def)
  moreover obtain raw r e where r: "entry s1 (key_rt (hashToken sha256 token)) = Some (raw, e)" "read_record raw = Inr r"
    "cl = record_claims r" "live (entry s1) (clock s1) (key_chain (rr_chain r)) \<noteq> None"
    using redis_server.rotate_record [OF assms(1,4)] by (auto simp: gone_def)
  ultimately have "record_ok r (entry s1)"
    unfolding records_ok_def by (metis record_ok_def read_record_print sum.inject(2))
  moreover obtain u e' where "entry s1 (key_chain (rr_chain r)) = Some (u, e')"
    using r(4) live_entry by blast
  ultimately show ?thesis using r(3) by (auto simp: record_ok_def record_claims_def)
qed

theorem refresh_keeps_user_witness:
  "\<exists>c e. ac_sid (record_claims record1) = Some c \<and> mem_entries signed_in (key_chain c) = Some (''u1'', e)"
proof -
  have "wf_claims user_claims" by code_simp
  then have "mem_step (\<lambda>t s. unmentioned t (mem_entries s)) empty_mem signed_in"
    by (intro step_chain [OF sign_in_runs(1)]) (simp_all add: unmentioned_def empty_mem_def)
  from refresh_keeps_user [OF mem.redis_server_axioms _ r_into_rtranclp [of "mem_step (\<lambda>t s. unmentioned t (mem_entries s))", OF this] sign_in_runs(2)]
  show ?thesis by (simp add: empty_mem_def record_claims_def record1_def)
qed

end
