(* ===== verification/Settings.thy ===== *)
theory Settings
  imports Token
begin

text \<open>
  \<open>api/src/config.ts\<close>: the API's settings, read from the environment (a map from names to
  values) and checked before anything starts. A missing or malformed variable is the error the
  process stops with; the first one in the order of the code wins. Durations are whole seconds; a
  port that is not a number (\<open>NaN\<close>) is \<open>None\<close>.
\<close>

type_synonym environment = "str \<Rightarrow> str option"

record Config =
  cf_port :: "int option"
  cf_oidcIssuer :: str
  cf_oidcClientId :: str
  cf_oidcClientSecret :: str
  cf_oidcCliClientId :: str
  cf_oidcAppClientId :: str
  cf_oidcUserClaim :: str
  cf_oidcRedirectUri :: str
  cf_oidcIssuerOverride :: str
  cf_oidcAuthorizationEndpoint :: str
  cf_oidcTokenEndpoint :: str
  cf_oidcJwksUri :: str
  cf_tokenSecret :: str
  cf_accessTokenTtl :: nat
  cf_sessionTtl :: nat
  cf_allowedOrigins :: "str list"
  cf_appLoginPrompt :: str
  cf_secureCookies :: bool
  cf_redisUrl :: str
  cf_gatewayUrl :: str
  cf_tlsInsecureSkipVerify :: bool
  cf_authzWebhookUrl :: str
  cf_authzWebhookToken :: str
  cf_authzTimeout :: nat
  cf_authzAllowedTtl :: nat
  cf_authzDeniedTtl :: nat
  cf_adminToken :: str

text \<open>\<open>process.env.X || d\<close> and \<open>process.env.X ?? d\<close>.\<close>

definition env_or :: "environment \<Rightarrow> str \<Rightarrow> str \<Rightarrow> str" where
  "env_or env name d = (case env name of None \<Rightarrow> d | Some v \<Rightarrow> if v = [] then d else v)"

definition env_nullish :: "environment \<Rightarrow> str \<Rightarrow> str \<Rightarrow> str" where
  "env_nullish env name d = (case env name of None \<Rightarrow> d | Some v \<Rightarrow> v)"

definition requireEnv :: "environment \<Rightarrow> str \<Rightarrow> str + str" where
  "requireEnv env name = (let v = env_or env name [] in if v = [] then Inl (name @ '' is required'') else Inr v)"

section \<open>Durations\<close>

definition UNITS :: "char \<Rightarrow> nat" where
  "UNITS c = (if c = CHR ''s'' then 1 else if c = CHR ''m'' then 60 else if c = CHR ''h'' then 3600 else 86400)"

definition duration_rx :: rx where
  "duration_rx = rx_seq [rx_plus (RSet is_digit), RSet (\<lambda>c. c \<in> {CHR ''s'', CHR ''m'', CHR ''h'', CHR ''d''})]"

definition parseDuration :: "str \<Rightarrow> str + nat" where
  "parseDuration value =
     (let t = trim value
      in if \<not> rx_test duration_rx t then Inl (''invalid duration: '' @ value)
         else let seconds = digits_value (butlast t) * UNITS (last t)
              in if seconds = 0 then Inl (''duration must be positive: '' @ value) else Inr seconds)"

section \<open>The prompt of app sign-ins\<close>

definition APP_LOGIN_PROMPTS :: "str list" where
  "APP_LOGIN_PROMPTS = [''select_account'', ''login'', ''consent'', [] ]"

definition appLoginPrompt :: "str option \<Rightarrow> str + str" where
  "appLoginPrompt value =
     (let prompt = (case value of None \<Rightarrow> ''select_account'' | Some v \<Rightarrow> v)
      in if prompt \<notin> set APP_LOGIN_PROMPTS then
           Inl (''APP_LOGIN_PROMPT must be one of select_account, login, consent or empty, got '' @ CHR 34 # prompt @ [CHR 34])
         else Inr prompt)"

section \<open>Numbers and bytes\<close>

text \<open>\<open>parseInt(s, 10)\<close>.\<close>

definition js_parseInt :: "str \<Rightarrow> int option" where
  "js_parseInt s =
     (let t = trim_start s;
          neg = startsWith t ''-'';
          u = (if neg \<or> startsWith t ''+'' then tl t else t);
          ds = takeWhile is_digit u
      in if ds = [] then None else Some (if neg then - int (digits_value ds) else int (digits_value ds)))"

text \<open>\<open>Buffer.from(s, "hex")\<close> stops at the first pair that is not hexadecimal.\<close>

fun hex_decode :: "str \<Rightarrow> str" where
  "hex_decode (a # b # r) =
     (case (hex_value a, hex_value b) of
        (Some x, Some y) \<Rightarrow> char_of (16 * x + y) # hex_decode r
      | _ \<Rightarrow> [])"
| "hex_decode _ = []"

section \<open>Loading\<close>

definition allowed_origins :: "str \<Rightarrow> str list" where
  "allowed_origins s = filter (\<lambda>o'. o' \<noteq> []) (map trim (split_on (CHR '','') s))"

definition token_secret :: "environment \<Rightarrow> str + str" where
  "token_secret env =
     (let secretHex = env_or env ''TOKEN_SECRET'' (env_or env ''COOKIE_SECRET'' [])
      in if secretHex = [] then Inl ''TOKEN_SECRET is required''
         else let secret = hex_decode secretHex
              in if length secret \<noteq> 32 then Inl ''TOKEN_SECRET must be a 64-char hex string (32 bytes)''
                 else Inr secret)"

definition loadConfig :: "environment \<Rightarrow> str + Config" where
  "loadConfig env =
     (let port = (if env_or env ''PORT'' [] \<noteq> [] then js_parseInt (env_or env ''PORT'' []) else Some 8080)
      in andThen (token_secret env) (\<lambda>secret.
         andThen (requireEnv env ''OIDC_ISSUER'') (\<lambda>issuer.
         andThen (requireEnv env ''OIDC_CLIENT_ID'') (\<lambda>clientId.
         andThen (requireEnv env ''OIDC_REDIRECT_URI'') (\<lambda>redirectUri.
         andThen (parseDuration (env_or env ''ACCESS_TOKEN_TTL'' ''15m'')) (\<lambda>accessTtl.
         andThen (parseDuration (env_or env ''SESSION_TTL'' ''7d'')) (\<lambda>sessionTtl.
         andThen (appLoginPrompt (env ''APP_LOGIN_PROMPT'')) (\<lambda>prompt.
         andThen (requireEnv env ''REDIS_URL'') (\<lambda>redisUrl.
         andThen (parseDuration (env_or env ''AUTHZ_TIMEOUT'' ''5s'')) (\<lambda>authzTimeout.
         andThen (parseDuration (env_or env ''AUTHZ_CACHE_TTL_ALLOWED'' ''60s'')) (\<lambda>allowedTtl.
         andThen (parseDuration (env_or env ''AUTHZ_CACHE_TTL_DENIED'' ''10s'')) (\<lambda>deniedTtl.
         Inr \<lparr>cf_port = port, cf_oidcIssuer = issuer, cf_oidcClientId = clientId,
              cf_oidcClientSecret = env_nullish env ''OIDC_CLIENT_SECRET'' [],
              cf_oidcCliClientId = env_nullish env ''OIDC_CLI_CLIENT_ID'' [],
              cf_oidcAppClientId = env_nullish env ''OIDC_APP_CLIENT_ID'' [],
              cf_oidcUserClaim = env_or env ''OIDC_USER_CLAIM'' ''sub'',
              cf_oidcRedirectUri = redirectUri,
              cf_oidcIssuerOverride = env_nullish env ''OIDC_ISSUER_OVERRIDE'' [],
              cf_oidcAuthorizationEndpoint = env_nullish env ''OIDC_AUTHORIZATION_ENDPOINT'' [],
              cf_oidcTokenEndpoint = env_nullish env ''OIDC_TOKEN_ENDPOINT'' [],
              cf_oidcJwksUri = env_nullish env ''OIDC_JWKS_URI'' [],
              cf_tokenSecret = secret, cf_accessTokenTtl = accessTtl, cf_sessionTtl = sessionTtl,
              cf_allowedOrigins = allowed_origins (env_nullish env ''ALLOWED_ORIGINS'' []),
              cf_appLoginPrompt = prompt,
              cf_secureCookies = (env ''COOKIE_SECURE'' \<noteq> Some ''false''),
              cf_redisUrl = redisUrl,
              cf_gatewayUrl = env_nullish env ''GATEWAY_URL'' [],
              cf_tlsInsecureSkipVerify = (env ''TLS_INSECURE_SKIP_VERIFY'' = Some ''true''),
              cf_authzWebhookUrl = env_nullish env ''AUTHZ_WEBHOOK_URL'' [],
              cf_authzWebhookToken = env_nullish env ''AUTHZ_WEBHOOK_TOKEN'' [],
              cf_authzTimeout = authzTimeout, cf_authzAllowedTtl = allowedTtl, cf_authzDeniedTtl = deniedTtl,
              cf_adminToken = env_nullish env ''ADMIN_TOKEN'' []\<rparr>))))))))))))"

section \<open>What accepted settings guarantee\<close>

lemma parseDuration_pos: "parseDuration v = Inr n \<Longrightarrow> 0 < n"
  by (auto simp: parseDuration_def Let_def split: if_splits)

lemma requireEnv_Inr: "requireEnv env name = Inr v \<Longrightarrow> env name = Some v \<and> v \<noteq> []"
  by (auto simp: requireEnv_def env_or_def Let_def split: if_splits option.splits)

lemma appLoginPrompt_Inr: "appLoginPrompt v = Inr p \<Longrightarrow> p \<in> set APP_LOGIN_PROMPTS"
  by (auto simp: appLoginPrompt_def Let_def split: if_splits)

lemma token_secret_Inr: "token_secret env = Inr k \<Longrightarrow> length k = 32"
  by (auto simp: token_secret_def Let_def split: if_splits)

lemma in_lang_duration:
  "rx_test duration_rx t \<longleftrightarrow> (\<exists>ds u. t = ds @ [u] \<and> ds \<noteq> [] \<and> list_all is_digit ds \<and> u \<in> {CHR ''s'', CHR ''m'', CHR ''h'', CHR ''d''})"
  unfolding duration_rx_def rx_test_iff in_lang_seq_Cons [of "rx_plus (RSet is_digit)"] in_lang_plus_set in_lang_seq_last in_lang_Set
  by blast

text \<open>Durations: \<open>parseDuration\<close> reads a number followed by a unit, with white space
  around it, and accepts nothing else.\<close>

theorem parseDuration_iff:
  "parseDuration value = Inr n \<longleftrightarrow>
     (\<exists>ds u. trim value = ds @ [u] \<and> ds \<noteq> [] \<and> list_all is_digit ds \<and>
        u \<in> {CHR ''s'', CHR ''m'', CHR ''h'', CHR ''d''} \<and> n = digits_value ds * UNITS u \<and> 0 < n)"
  by (auto simp: parseDuration_def Let_def in_lang_duration)

text \<open>The API starts only with usable settings: a 32-byte key, positive lifetimes, a known
  prompt, a user claim, and every required variable set; and with those it always starts.\<close>

theorem loadConfig_checked:
  "(case loadConfig env of
      Inr c \<Rightarrow>
        length (cf_tokenSecret c) = 32 \<and> 0 < cf_accessTokenTtl c \<and> 0 < cf_sessionTtl c \<and> 0 < cf_authzTimeout c \<and>
        0 < cf_authzAllowedTtl c \<and> 0 < cf_authzDeniedTtl c \<and> cf_appLoginPrompt c \<in> set APP_LOGIN_PROMPTS \<and>
        cf_oidcUserClaim c \<noteq> [] \<and> [] \<notin> set (cf_allowedOrigins c) \<and>
        env ''OIDC_ISSUER'' = Some (cf_oidcIssuer c) \<and> cf_oidcIssuer c \<noteq> [] \<and>
        env ''OIDC_CLIENT_ID'' = Some (cf_oidcClientId c) \<and> cf_oidcClientId c \<noteq> [] \<and>
        env ''OIDC_REDIRECT_URI'' = Some (cf_oidcRedirectUri c) \<and> cf_oidcRedirectUri c \<noteq> [] \<and>
        env ''REDIS_URL'' = Some (cf_redisUrl c) \<and> cf_redisUrl c \<noteq> []
    | Inl e \<Rightarrow>
        token_secret env = Inl e \<or> requireEnv env ''OIDC_ISSUER'' = Inl e \<or> requireEnv env ''OIDC_CLIENT_ID'' = Inl e \<or>
        requireEnv env ''OIDC_REDIRECT_URI'' = Inl e \<or> requireEnv env ''REDIS_URL'' = Inl e \<or>
        appLoginPrompt (env ''APP_LOGIN_PROMPT'') = Inl e \<or>
        (\<exists>v \<in> {env_or env ''ACCESS_TOKEN_TTL'' ''15m'', env_or env ''SESSION_TTL'' ''7d'', env_or env ''AUTHZ_TIMEOUT'' ''5s'',
           env_or env ''AUTHZ_CACHE_TTL_ALLOWED'' ''60s'', env_or env ''AUTHZ_CACHE_TTL_DENIED'' ''10s''}. parseDuration v = Inl e))"
proof (cases "loadConfig env")
  case (Inl e)
  then show ?thesis
    unfolding loadConfig_def Let_def by (auto simp: andThen_eq_Inl)
next
  case (Inr c)
  then have
    "token_secret env = Inr (cf_tokenSecret c) \<and>
     requireEnv env ''OIDC_ISSUER'' = Inr (cf_oidcIssuer c) \<and>
     requireEnv env ''OIDC_CLIENT_ID'' = Inr (cf_oidcClientId c) \<and>
     requireEnv env ''OIDC_REDIRECT_URI'' = Inr (cf_oidcRedirectUri c) \<and>
     parseDuration (env_or env ''ACCESS_TOKEN_TTL'' ''15m'') = Inr (cf_accessTokenTtl c) \<and>
     parseDuration (env_or env ''SESSION_TTL'' ''7d'') = Inr (cf_sessionTtl c) \<and>
     appLoginPrompt (env ''APP_LOGIN_PROMPT'') = Inr (cf_appLoginPrompt c) \<and>
     requireEnv env ''REDIS_URL'' = Inr (cf_redisUrl c) \<and>
     parseDuration (env_or env ''AUTHZ_TIMEOUT'' ''5s'') = Inr (cf_authzTimeout c) \<and>
     parseDuration (env_or env ''AUTHZ_CACHE_TTL_ALLOWED'' ''60s'') = Inr (cf_authzAllowedTtl c) \<and>
     parseDuration (env_or env ''AUTHZ_CACHE_TTL_DENIED'' ''10s'') = Inr (cf_authzDeniedTtl c) \<and>
     cf_oidcUserClaim c = env_or env ''OIDC_USER_CLAIM'' ''sub'' \<and>
     cf_allowedOrigins c = allowed_origins (env_nullish env ''ALLOWED_ORIGINS'' [])"
    unfolding loadConfig_def Let_def andThen_eq_Inr
    by (elim exE conjE, simp only: sum.inject, hypsubst, simp)
  moreover have "env_or env ''OIDC_USER_CLAIM'' ''sub'' \<noteq> []" by (simp add: env_or_def split: option.split)
  moreover have "[] \<notin> set (allowed_origins x)" for x by (simp add: allowed_origins_def)
  ultimately show ?thesis
    using Inr by (auto simp del: neq0_conv dest!: parseDuration_pos requireEnv_Inr appLoginPrompt_Inr token_secret_Inr)
qed

end
