(* ===== verification/Origins.thy ===== *)
theory Origins
  imports Query BodyGuard
begin

text \<open>
  \<open>api/src/origins.ts\<close>: the origins the browser may call from and the places a sign-in may
  return to. The URL parser is modelled up to the host: \<open>host_of scheme authority\<close> is the
  serialized host (with its port) of a non-empty authority, \<open>None\<close> when it is not valid. The
  result is that a sign-in never returns to a foreign site, \<open>return_to_is_safe\<close>.
\<close>

type_synonym host_of = "str \<Rightarrow> str \<Rightarrow> str option"

definition APP_ORIGINS :: "str list" where
  "APP_ORIGINS = [''opencode-rc://localhost'', ''https://localhost'']"

definition APP_REDIRECT_URI :: str where
  "APP_REDIRECT_URI = ''com.opencode.rc:/auth/callback''"

section \<open>The origin of a URL\<close>

definition scheme_char :: "char \<Rightarrow> bool" where
  "scheme_char c \<longleftrightarrow>
     97 \<le> byte (lower_char c) \<and> byte (lower_char c) \<le> 122 \<or> 48 \<le> byte c \<and> byte c \<le> 57 \<or> byte c \<in> {43, 45, 46}"

text \<open>The scheme, in lower case, and what follows its colon.\<close>

definition url_scheme :: "str \<Rightarrow> (str \<times> str) option" where
  "url_scheme t =
     (let s = takeWhile scheme_char t
      in case s of
           [] \<Rightarrow> None
         | c # _ \<Rightarrow>
             if 97 \<le> byte (lower_char c) \<and> byte (lower_char c) \<le> 122 \<and> startsWith (drop (length s) t) '':''
             then Some (lower s, drop (Suc (length s)) t)
             else None)"

definition special_scheme :: "str \<Rightarrow> bool" where
  "special_scheme s \<longleftrightarrow> s \<in> {''http'', ''https'', ''ws'', ''wss'', ''ftp''}"

definition any_slash :: "char \<Rightarrow> bool" where
  "any_slash c \<longleftrightarrow> c = slash \<or> c = CHR 92"

text \<open>The authority of a URL; empty when it has none.\<close>

definition url_authority :: "str \<Rightarrow> str \<Rightarrow> str" where
  "url_authority scheme rest =
     (if special_scheme scheme then takeWhile (\<lambda>c. \<not> ends_authority c) (dropWhile any_slash rest)
      else if scheme = ''file'' then
        (if list_all any_slash (take 2 rest) \<and> length (take 2 rest) = 2 then
           (let a = takeWhile (\<lambda>c. \<not> ends_authority c) (drop 2 rest) in if windows_drive a then [] else a)
         else [])
      else if startsWith rest ''//'' then takeWhile (\<lambda>c. c \<notin> {slash, CHR ''?'', CHR ''#''}) (drop 2 rest)
      else [])"

definition originOf :: "host_of \<Rightarrow> str \<Rightarrow> str option" where
  "originOf host_of url =
     (case url_scheme (url_strip url) of
        None \<Rightarrow> None
      | Some (scheme, rest) \<Rightarrow>
          (let a = url_authority scheme rest
           in if a = [] then None
              else case host_of scheme a of
                None \<Rightarrow> None
              | Some h \<Rightarrow> if h = [] then None else Some (scheme @ ''://'' @ h)))"

section \<open>Allowed origins\<close>

definition allowed_extra :: "str list \<Rightarrow> str list" where
  "allowed_extra extra = filter (\<lambda>o'. o' \<noteq> []) (map (\<lambda>o'. strip_trailing_slashes (trim o')) extra)"

definition makeOriginCheck :: "str option \<Rightarrow> str list \<Rightarrow> str option \<Rightarrow> bool" where
  "makeOriginCheck serverOrigin extra origin =
     (let allowed = APP_ORIGINS @ allowed_extra extra @
            (case serverOrigin of None \<Rightarrow> [] | Some s \<Rightarrow> if s = [] then [] else [s])
      in case origin of None \<Rightarrow> False | Some o' \<Rightarrow> o' \<noteq> [] \<and> o' \<in> set allowed)"

text \<open>The origin \<open>corsMiddleware\<close> answers with.\<close>

definition cors_origin :: "(str \<Rightarrow> bool) \<Rightarrow> str \<Rightarrow> str option" where
  "cors_origin isAllowed origin = (if isAllowed origin then Some origin else None)"

section \<open>Where a sign-in returns to\<close>

definition PATH_BASE_HOST :: str where
  "PATH_BASE_HOST = ''placeholder.invalid''"

definition unsafe_char :: "char \<Rightarrow> bool" where
  "unsafe_char c \<longleftrightarrow> byte c \<le> 31 \<or> byte c = 127 \<or> byte c = 92"

definition hasUnsafeChars :: "str \<Rightarrow> bool" where
  "hasUnsafeChars value = list_ex unsafe_char value"

text \<open>
  \<open>new URL(path, "https://placeholder.invalid")\<close> for a path that begins with a slash: the
  host and the path name. Two slashes begin an authority.
\<close>

definition parse_on_base :: "host_of \<Rightarrow> str \<Rightarrow> (str \<times> str) option" where
  "parse_on_base host_of path =
     (let t = url_strip path
      in if list_all any_slash (take 2 t) \<and> length (take 2 t) = 2 then
           (let r = dropWhile any_slash t;
                a = takeWhile (\<lambda>c. \<not> ends_authority c) r
            in if a = [] then None
               else map_option (\<lambda>h. (h, url_pathname (drop (length a) r))) (host_of ''https'' a))
         else Some (PATH_BASE_HOST, url_pathname t))"

definition validateReturnTo :: "host_of \<Rightarrow> str option \<Rightarrow> (str \<Rightarrow> bool) \<Rightarrow> str option" where
  "validateReturnTo host_of returnTo isAllowed =
     (case returnTo of
        None \<Rightarrow> Some ''/''
      | Some r \<Rightarrow>
          if r = [] then Some ''/''
          else if hasUnsafeChars r then None
          else
            let withoutFragment = hd (split_on (CHR ''#'') r)
            in if startsWith withoutFragment ''/'' then
                 (case parse_on_base host_of withoutFragment of
                    None \<Rightarrow> None
                  | Some (host, pathname) \<Rightarrow>
                      if host \<noteq> PATH_BASE_HOST then None
                      else if startsWith pathname ''//'' then None
                      else Some (pathname @ url_search_of withoutFragment))
               else
                 (case originOf host_of withoutFragment of
                    None \<Rightarrow> None
                  | Some origin \<Rightarrow>
                      if origin \<in> set APP_ORIGINS \<or> \<not> isAllowed origin then None else Some withoutFragment))"

section \<open>Lemmas on the parsed path\<close>

lemma serialize_path_starts: "segs \<noteq> [] \<Longrightarrow> startsWith (serialize_path segs) ''/''"
  by (cases segs) auto

lemma resolve_segments_not_Nil: "segs \<noteq> [] \<Longrightarrow> resolve_segments acc segs \<noteq> []"
  by (induction acc segs rule: resolve_segments.induct) auto

lemma url_pathname_starts: "startsWith (url_pathname s) ''/''"
  unfolding url_pathname_def Let_def by (rule serialize_path_starts) (simp add: resolve_segments_not_Nil)

definition path_char :: "char \<Rightarrow> bool" where
  "path_char c \<longleftrightarrow> 32 < byte c \<and> byte c < 127 \<and> c \<noteq> CHR 92 \<and> c \<noteq> CHR ''#''"

lemma path_char_hex: "n < 16 \<Longrightarrow> path_char (upper_hex n)"
  by (auto simp: path_char_def upper_hex_def simp flip: byte_inject) (simp_all add: byte_lit)

lemma path_char_encoded: "list_all path_char (percent_encode_char c)"
  by (simp add: percent_encode_char_def path_char_hex) (simp add: path_char_def byte_lit)

lemma not_encoded_path_char: "\<not> path_encoded c \<Longrightarrow> c \<noteq> CHR 92 \<Longrightarrow> path_char c"
proof -
  assume a: "\<not> path_encoded c" "c \<noteq> CHR 92"
  then have "c \<noteq> CHR ''#''" by (auto simp: path_encoded_def)
  moreover have "\<not> byte c < 32" "\<not> 126 < byte c" "byte c \<noteq> 32" using a(1) by (simp_all add: path_encoded_byte)
  then have "32 < byte c" "byte c < 127" by linarith+
  ultimately show ?thesis using a(2) by (simp add: path_char_def)
qed

lemma percent_encode_path_chars: "CHR 92 \<notin> set s \<Longrightarrow> list_all path_char (percent_encode_path s)"
  by (induction s) (auto simp: path_char_encoded not_encoded_path_char)

lemma Ball_tl: "\<forall>x \<in> set xs. P x \<Longrightarrow> \<forall>x \<in> set (tl xs). P x"
  by (cases xs) auto

lemma resolve_segments_chars:
  "\<forall>seg \<in> set acc. list_all path_char seg \<Longrightarrow> \<forall>seg \<in> set segs. CHR 92 \<notin> set seg \<Longrightarrow>
    \<forall>seg \<in> set (resolve_segments acc segs). list_all path_char seg"
proof (induction acc segs rule: resolve_segments.induct)
  case (2 acc seg)
  have "\<forall>x \<in> set (tl acc). list_all path_char x" by (rule Ball_tl [OF 2(1)])
  then show ?case using 2(1) percent_encode_path_chars [of seg] 2(2) by simp
next
  case (3 acc seg seg' segs)
  have "\<forall>x \<in> set (tl acc). list_all path_char x" by (rule Ball_tl [OF 3(4)])
  then show ?case using 3(1-4) percent_encode_path_chars [of seg] 3(5) by simp
qed simp

lemma url_pathname_chars: "list_all path_char (url_pathname s)"
proof -
  let ?segs = "split_on slash (drop 1 (special_slashes (url_path_part (url_strip s))))"
  have "CHR 92 \<notin> set (special_slashes x)" for x by (auto simp: special_slashes_def)
  then have "CHR 92 \<notin> set (drop 1 (special_slashes x))" for x using in_set_dropD by metis
  then have "\<forall>seg \<in> set ?segs. CHR 92 \<notin> set seg" using split_on_set by blast
  then have "\<forall>seg \<in> set (resolve_segments [] ?segs). list_all path_char seg"
    by (intro resolve_segments_chars) auto
  moreover have "path_char slash" by (simp add: path_char_def byte_lit)
  ultimately show ?thesis by (auto simp: url_pathname_def Let_def serialize_path_def list_all_iff)
qed

lemma query_encode_chars: "CHR 92 \<notin> set s \<Longrightarrow> list_all path_char (query_encode s)"
proof (induction s)
  case (Cons c s)
  have "\<not> query_encoded c \<Longrightarrow> path_char c"
    using Cons.prems by (auto simp: query_encoded_def path_char_def simp flip: byte_inject) (auto simp: byte_lit)
  then show ?case using Cons path_char_encoded by (auto simp: query_encode_def)
qed (simp add: query_encode_def)

lemma url_search_chars: "CHR 92 \<notin> set s \<Longrightarrow> list_all path_char (url_search_of s)"
proof -
  assume a: "CHR 92 \<notin> set s"
  have "set (url_strip s) \<subseteq> set s" by (auto simp: url_strip_def dest!: set_dropWhileD)
  then have "CHR 92 \<notin> set (tl (dropWhile (\<lambda>c. c \<noteq> CHR ''?'') (takeWhile (\<lambda>c. c \<noteq> CHR ''#'') (url_strip s))))"
    using a by (auto dest!: in_set_tl set_dropWhileD set_takeWhileD)
  moreover have "path_char (CHR ''?'')" by (simp add: path_char_def byte_lit)
  ultimately show ?thesis using query_encode_chars by (simp add: url_search_of_def Let_def)
qed

lemma url_search_start: "\<not> startsWith (url_search_of s) ''/''"
  by (simp add: url_search_of_def Let_def)

lemma set_hd_split_on: "set (hd (split_on c s)) \<subseteq> set s - {c}"
  using split_on_set [of "hd (split_on c s)" c s] hd_in_set [of "split_on c s"] by auto

lemma unsafe_backslash: "unsafe_char (CHR 92)"
  by (simp add: unsafe_char_def byte_lit)

section \<open>Properties\<close>

text \<open>C34. A sign-in returns to a path of the site itself, that no browser reads as another host, or
  to an address whose origin is allowed and is not one of the apps' (no open redirect).\<close>

theorem return_to_is_safe:
  assumes "validateReturnTo host_of r isAllowed = Some t"
  shows "startsWith t ''/'' \<and> \<not> startsWith t ''//'' \<and> list_all path_char t \<or>
    (\<exists>origin. originOf host_of t = Some origin \<and> isAllowed origin \<and> origin \<notin> set APP_ORIGINS) \<and>
    \<not> hasUnsafeChars t \<and> CHR ''#'' \<notin> set t"
proof -
  have root: "startsWith ''/'' ''/'' \<and> \<not> startsWith ''/'' ''//'' \<and> list_all path_char ''/''"
    by (simp add: path_char_def byte_lit)
  consider "t = ''/''" | v where "r = Some v" "v \<noteq> []" "\<not> hasUnsafeChars v"
    using assms by (auto simp: validateReturnTo_def split: option.splits if_splits)
  then show ?thesis
  proof cases
    case 1
    then show ?thesis using root by simp
  next
    case 2
    let ?w = "hd (split_on (CHR ''#'') v)"
    have w: "\<not> hasUnsafeChars ?w" "CHR ''#'' \<notin> set ?w" "CHR 92 \<notin> set ?w"
      using 2(3) set_hd_split_on [of "CHR ''#''" v]
      unfolding hasUnsafeChars_def list_ex_iff using unsafe_backslash by blast+
    show ?thesis
    proof (cases "startsWith ?w ''/''")
      case True
      then obtain host pathname where p: "parse_on_base host_of ?w = Some (host, pathname)"
        "\<not> startsWith pathname ''//''" "t = pathname @ url_search_of ?w"
        using assms 2 by (auto simp: validateReturnTo_def Let_def split: option.splits if_splits)
      obtain s where s: "pathname = url_pathname s"
        using p(1) by (auto simp: parse_on_base_def Let_def split: if_splits)
      have "startsWith t ''/''" "list_all path_char t"
        using p(3) s url_pathname_starts [of s] url_pathname_chars url_search_chars [OF w(3)]
        by (auto simp: startsWith_iff)
      moreover have "\<not> startsWith t ''//''"
      proof
        assume a: "startsWith t ''//''"
        obtain x where x: "pathname = slash # x" using url_pathname_starts [of s] s by (auto simp: startsWith_iff)
        then show False
          using a p(2,3) url_search_start [of ?w] by (cases x) auto
      qed
      ultimately show ?thesis by simp
    next
      case False
      then show ?thesis
        using assms 2 w by (auto simp: validateReturnTo_def Let_def split: option.splits if_splits)
    qed
  qed
qed

definition any_host_name :: host_of where
  "any_host_name scheme a = Some a"

theorem return_to_is_safe_witness:
  "validateReturnTo any_host_name (Some ''/a/../s/x?y=1#z'') (\<lambda>_. False) = Some ''/s/x?y=1'' \<and>
   \<not> startsWith ''/s/x?y=1'' ''//''"
proof -
  have v: "validateReturnTo any_host_name (Some ''/a/../s/x?y=1#z'') (\<lambda>_. False) = Some ''/s/x?y=1''" by code_simp
  show ?thesis using return_to_is_safe [OF v] v by blast
qed

text \<open>The origins that may call the API from a browser are exactly those of the apps, of the
  server and the configured ones, compared as whole origins.\<close>

theorem origin_check_iff:
  "makeOriginCheck serverOrigin extra (Some origin) \<longleftrightarrow>
     origin \<noteq> [] \<and> (origin \<in> {''opencode-rc://localhost'', ''https://localhost''} \<or> serverOrigin = Some origin \<or>
       (\<exists>e \<in> set extra. origin = strip_trailing_slashes (trim e)))"
  by (auto simp: makeOriginCheck_def APP_ORIGINS_def allowed_extra_def Let_def split: option.splits)

end
