(* ===== verification/Machines.thy ===== *)
theory Machines
  imports Prelude
begin

text \<open>
  Step functions. The components of the program that live on events (the multiplexer and the
  connection of the tunnel, the reconnection loop, the event stream, the child process, the patched
  XMLHttpRequest, the bridge and the sockets of the apps) are functions from a state and an event to
  the next state and the actions taken. \<open>feed\<close> feeds them a list of events. The locale
  \<open>machine\<close> is the contract the safety proofs of these components share: on permitted events
  the invariant is kept and only harmless actions are taken, hence in whole runs.
\<close>

fun feed :: "('s \<Rightarrow> 'e \<Rightarrow> 's \<times> 'a list) \<Rightarrow> 's \<Rightarrow> 'e list \<Rightarrow> 's \<times> 'a list" where
  "feed step s [] = (s, [])"
| "feed step s (e # es) = (let (s', acts) = step s e; (s'', rest) = feed step s' es in (s'', acts @ rest))"

declare feed.simps(2) [simp del]

lemma feed_Cons [simp]:
  "fst (feed step s (e # es)) = fst (feed step (fst (step s e)) es)"
  "snd (feed step s (e # es)) = snd (step s e) @ snd (feed step (fst (step s e)) es)"
  by (simp_all add: feed.simps(2) Let_def split_def)

lemma feed_append [simp]:
  "fst (feed step s (es @ fs)) = fst (feed step (fst (feed step s es)) fs)"
  "snd (feed step s (es @ fs)) = snd (feed step s es) @ snd (feed step (fst (feed step s es)) fs)"
  by (induction es arbitrary: s) simp_all

locale machine =
  fixes step :: "'s \<Rightarrow> 'e \<Rightarrow> 's \<times> 'a list"
    and inv :: "'s \<Rightarrow> bool"
    and permitted :: "'e \<Rightarrow> bool"
    and harmless :: "'a \<Rightarrow> bool"
  assumes kept: "inv s \<Longrightarrow> permitted e \<Longrightarrow> inv (fst (step s e))"
    and harmless_action: "inv s \<Longrightarrow> permitted e \<Longrightarrow> a \<in> set (snd (step s e)) \<Longrightarrow> harmless a"
begin

lemma feed_keeps: "inv s \<Longrightarrow> list_all permitted es \<Longrightarrow> inv (fst (feed step s es))"
  by (induction es arbitrary: s) (simp_all add: kept)

lemma feed_does: "inv s \<Longrightarrow> list_all permitted es \<Longrightarrow> a \<in> set (snd (feed step s es)) \<Longrightarrow> harmless a"
  by (induction es arbitrary: s) (auto intro: harmless_action kept)

end

end
