(* ===== verification/Closing.thy ===== *)
theory Closing
  imports Query Machines
begin

text \<open>
  What ends a stream that stays open: \<open>api/src/ws-close.ts\<close> (the code and the reason of a
  close frame) and \<open>endOnDenial\<close> of \<open>api/src/proxy.ts\<close> (an event stream that is
  ended when the user's access is denied). The stream is a transition function on its events; it
  refines the list \<open>spec_outputs\<close> of what the browser is to receive.
\<close>

section \<open>Close frames\<close>

definition relayCloseCode :: "nat \<Rightarrow> nat" where
  "relayCloseCode code =
     (if code = 1005 then 1000 else if code = 1006 \<or> code = 1015 then 1011 else code)"

definition drop_replacement :: "str \<Rightarrow> str" where
  "drop_replacement s = (if endsWith s replacement then take (length s - 3) s else s)"

definition closeReason :: "str \<Rightarrow> str" where
  "closeReason reason =
     (if length reason \<le> 123 then reason else drop_replacement (textDecode (take 123 reason)))"

text \<open>A well-formed string cut anywhere decodes to a prefix, with a replacement character for a cut character.\<close>

lemma utf8_replace_cut:
  "utf8_valid s \<Longrightarrow>
    \<exists>p. startsWith s p \<and> utf8_valid p \<and> length p \<le> n \<and> (utf8_replace (take n s) = p \<or> utf8_replace (take n s) = p @ replacement)"
proof (induction s arbitrary: n rule: utf8_valid_induct)
  case Nil
  show ?case by simp
next
  case (Seq c ds cs)
  have ex: "utf8_extra c = Some (length ds)" using Seq(1) by (simp add: utf8_tail_ok_def)
  show ?case
  proof (cases "Suc (length ds) \<le> n")
    case True
    then have t: "take n (c # ds @ cs) = c # ds @ take (n - Suc (length ds)) cs"
      by (cases n) auto
    obtain p where p: "startsWith cs p" "utf8_valid p" "length p \<le> n - Suc (length ds)"
      "utf8_replace (take (n - Suc (length ds)) cs) = p \<or> utf8_replace (take (n - Suc (length ds)) cs) = p @ replacement"
      using Seq.IH by blast
    have "utf8_replace (c # ds @ x) = c # ds @ utf8_replace x" for x
      using ex utf8_run_tail [OF Seq(1), of x] by (simp add: utf8_replace.simps)
    moreover have "utf8_valid (c # ds @ p)" using utf8_valid_seq [OF Seq(1)] p(2) by simp
    moreover have "startsWith (c # ds @ cs) (c # ds @ p)" using p(1) by (auto simp: startsWith_iff)
    ultimately show ?thesis using t p True by (intro exI [of _ "c # ds @ p"]) auto
  next
    case False
    show ?thesis
    proof (cases n)
      case 0
      then show ?thesis by (intro exI [of _ "[]"]) simp
    next
      case (Suc m)
      then have t: "take n (c # ds @ cs) = c # take m ds" and m: "m < length ds" using False by simp_all
      have k: "utf8_run (length ds) c (take m ds) = m"
      proof (cases "take m ds")
        case Nil
        then have "m = 0" using m by (cases ds) auto
        then show ?thesis by (simp add: utf8_run_def)
      next
        case (Cons d es)
        then have "ds \<noteq> []" by auto
        then have all: "list_all cont_byte ds" "utf8_second_ok c (hd ds)"
          using Seq(1) by (simp_all add: utf8_tail_ok_def)
        have hd: "d = hd ds" using Cons m by (cases ds; cases m) auto
        have "list_all cont_byte (take m ds)" using all(1) by (auto simp: list_all_iff dest: in_set_takeD)
        then have "cont_byte d" "list_all cont_byte es" using Cons by simp_all
        then have "length (takeWhile cont_byte es) = length es" by (metis list_all_iff takeWhile_eq_all_conv)
        moreover have "length es = m - 1" using Cons m by (metis length_Cons length_take min.absorb2 less_imp_le diff_Suc_1)
        moreover have "0 < m" using Cons by (cases m) auto
        ultimately show ?thesis
          using all(2) hd Cons \<open>cont_byte d\<close> m by (simp add: utf8_run_def)
      qed
      have "utf8_replace (c # take m ds) = replacement"
        using ex k m by (simp add: utf8_replace.simps(2) Let_def)
      then show ?thesis using t by (intro exI [of _ "[]"]) simp
    qed
  qed
qed

lemma replacement_length: "length replacement = 3"
  by (simp add: replacement_def)

lemma drop_replacement_cut:
  assumes "x = p \<or> x = p @ replacement"
  shows "startsWith p (drop_replacement x) \<or> drop_replacement x = p"
  using assms replacement_length
  by (auto simp: drop_replacement_def endsWith_iff startsWith_iff)

text \<open>The reason of a close frame fits: at most 123 bytes, a beginning of the reason that was
  given (unless that begins with a byte order mark), and the codes 1005, 1006 and 1015, which may
  not be sent, are never sent.
\<close>

theorem close_frame_valid:
  assumes "utf8_valid reason" "\<not> startsWith reason bom"
  shows "relayCloseCode code \<notin> {1005, 1006, 1015} \<and>
    startsWith reason (closeReason reason) \<and> length (closeReason reason) \<le> 123"
proof -
  have "startsWith reason (closeReason reason) \<and> length (closeReason reason) \<le> 123"
  proof (cases "length reason \<le> 123")
    case True
    then show ?thesis by (simp add: closeReason_def startsWith_def)
  next
    case False
    have "\<not> startsWith (take 123 reason) bom" using assms(2) by (auto simp: startsWith_def bom_def)
    then have c: "closeReason reason = drop_replacement (utf8_replace (take 123 reason))"
      using False by (simp add: closeReason_def textDecode_def)
    obtain p where p: "startsWith reason p" "length p \<le> 123"
      "utf8_replace (take 123 reason) = p \<or> utf8_replace (take 123 reason) = p @ replacement"
      using utf8_replace_cut [OF assms(1), of 123] by blast
    have "startsWith p (closeReason reason)"
      using drop_replacement_cut [OF p(3)] c by (auto simp: startsWith_def)
    then have "startsWith reason (closeReason reason)" "length (closeReason reason) \<le> length p"
      using p(1) by (auto simp: startsWith_iff)
    then show ?thesis using p(2) by simp
  qed
  then show ?thesis by (simp add: relayCloseCode_def)
qed

theorem close_frame_valid_witness:
  "length (replicate 200 (CHR ''a'')) = 200 \<and> length (closeReason (replicate 200 (CHR ''a''))) \<le> 123"
proof -
  have "utf8_valid (replicate 200 (CHR ''a''))" "\<not> startsWith (replicate 200 (CHR ''a'')) bom" by code_simp+
  from close_frame_valid [OF this] show ?thesis by simp
qed

section \<open>Ending an event stream\<close>

text \<open>
  The events of the stream \<open>endOnDenial\<close> makes: the watch reports a denial, a read of the
  upstream body ends, brings a chunk or fails, the browser goes away. The outputs are what the
  browser receives and the calls on the upstream reader and the watch.
\<close>

datatype stream_event = Denied | ReadDone | ReadChunk str | ReadFailed | Cancelled

datatype stream_output = Enqueue str | CloseStream | ErrorStream | CancelReader | StopWatch

fun close_stream :: "bool \<Rightarrow> bool \<times> stream_output list" where
  "close_stream shut = (if shut then (shut, []) else (True, [StopWatch, CloseStream]))"

fun stream_step :: "bool \<Rightarrow> stream_event \<Rightarrow> bool \<times> stream_output list" where
  "stream_step shut Denied = (case close_stream shut of (c, out) \<Rightarrow> (c, out @ [CancelReader]))"
| "stream_step shut ReadDone = close_stream shut"
| "stream_step shut (ReadChunk v) = (shut, if \<not> shut then [Enqueue v] else [])"
| "stream_step shut ReadFailed = (if shut then (shut, []) else (True, [StopWatch, ErrorStream]))"
| "stream_step shut Cancelled = (True, [StopWatch, CancelReader])"

abbreviation stream_run :: "bool \<Rightarrow> stream_event list \<Rightarrow> stream_output list" where
  "stream_run shut es \<equiv> snd (feed stream_step shut es)"

definition endOnDenial :: "stream_event list \<Rightarrow> stream_output list" where
  "endOnDenial events = stream_run False events"

text \<open>What the browser is to receive: the chunks before the first event that ends the stream, and its end.\<close>

definition to_browser :: "stream_output \<Rightarrow> bool" where
  "to_browser o' = (case o' of CancelReader \<Rightarrow> False | StopWatch \<Rightarrow> False | _ \<Rightarrow> True)"

definition is_chunk :: "stream_event \<Rightarrow> bool" where
  "is_chunk e = (case e of ReadChunk _ \<Rightarrow> True | _ \<Rightarrow> False)"

definition chunk_output :: "stream_event \<Rightarrow> stream_output" where
  "chunk_output e = (case e of ReadChunk v \<Rightarrow> Enqueue v | _ \<Rightarrow> CloseStream)"

definition end_output :: "stream_event list \<Rightarrow> stream_output list" where
  "end_output es =
     (case es of
        [] \<Rightarrow> []
      | e # _ \<Rightarrow> (case e of ReadFailed \<Rightarrow> [ErrorStream] | Cancelled \<Rightarrow> [] | _ \<Rightarrow> [CloseStream]))"

definition spec_outputs :: "stream_event list \<Rightarrow> stream_output list" where
  "spec_outputs events =
     map chunk_output (takeWhile is_chunk events) @ end_output (dropWhile is_chunk events)"

lemma to_browser_simps [simp]:
  "to_browser (Enqueue v)" "to_browser CloseStream" "to_browser ErrorStream" "\<not> to_browser CancelReader"
  "\<not> to_browser StopWatch"
  by (simp_all add: to_browser_def)

lemma closed_run: "filter to_browser (stream_run True es) = []"
proof (induction es)
  case (Cons e es)
  then show ?case by (cases e) auto
qed simp

text \<open>C23. An event stream ends on a denial: the browser receives the chunks that came before it (or
  before the end, the failure or its own departure), in order, then the end of the stream once,
  and nothing after it.\<close>

theorem endOnDenial_refines: "filter to_browser (endOnDenial events) = spec_outputs events"
  unfolding endOnDenial_def
proof (induction events)
  case (Cons e es)
  then show ?case
    by (cases e) (auto simp: spec_outputs_def is_chunk_def chunk_output_def end_output_def closed_run)
qed (simp add: spec_outputs_def end_output_def)

end
