(* ===== verification/Http.thy ===== *)
theory Http
  imports Middleware
begin

text \<open>
  HTTP headers (\<open>Headers\<close> of fetch: names in lower case, one value each) and the protocol
  handshake between the API and its clients: \<open>api/src/protocol.ts\<close>,
  \<open>cli/src/protocol.ts\<close> and \<open>ui/src/protocol.ts\<close>. The result is
  \<open>handshake\<close>: a client of this version is served and takes the answer as compatible,
  and an outdated one is told so.
\<close>

section \<open>Headers\<close>

type_synonym headers = "(str \<times> str) list"

definition header_get :: "str \<Rightarrow> headers \<Rightarrow> str option" where
  "header_get name hs = map_of hs (lower name)"

definition header_delete :: "str \<Rightarrow> headers \<Rightarrow> headers" where
  "header_delete name hs = filter (\<lambda>(n, _). n \<noteq> lower name) hs"

definition header_set :: "str \<Rightarrow> str \<Rightarrow> headers \<Rightarrow> headers" where
  "header_set name v hs = header_delete name hs @ [(lower name, v)]"

lemma header_get_delete: "header_get n (header_delete m hs) = (if lower n = lower m then None else header_get n hs)"
  by (induction hs) (auto simp: header_get_def header_delete_def)

lemma map_of_snoc: "map_of (xs @ [(k, v)]) n = (case map_of xs n of None \<Rightarrow> (if n = k then Some v else None) | Some w \<Rightarrow> Some w)"
  by (simp add: map_add_def split: option.splits)

lemma header_get_set: "header_get n (header_set m v hs) = (if lower n = lower m then Some v else header_get n hs)"
  using header_get_delete [of n m hs]
  by (auto simp: header_get_def header_set_def map_of_snoc simp del: map_of_append split: option.splits)

lemma header_names_delete: "fst ` set (header_delete m hs) = fst ` set hs - {lower m}"
  by (force simp: header_delete_def)

lemma header_names_set: "fst ` set (header_set m v hs) = insert (lower m) (fst ` set hs)"
  by (auto simp: header_set_def header_names_delete)

section \<open>Protocol versions\<close>

definition PROTOCOL_HEADER :: str where
  "PROTOCOL_HEADER = ''OpenCode-RC-Protocol''"

definition PROTOCOL :: nat where
  "PROTOCOL = 1"

definition MIN_CLIENT_PROTOCOL :: nat where
  "MIN_CLIENT_PROTOCOL = 1"

definition readProtocol :: "str option \<Rightarrow> nat" where
  "readProtocol value =
     (case value of
        None \<Rightarrow> 0
      | Some v \<Rightarrow> if v \<noteq> [] \<and> rx_test (rx_plus (RSet is_digit)) v then digits_value v else 0)"

text \<open>The handler's response, with the header the API adds to every response.\<close>

definition protocolHeader :: "headers \<Rightarrow> headers" where
  "protocolHeader hs = header_set PROTOCOL_HEADER (show_nat PROTOCOL) hs"

definition outdated_reply :: "nat \<Rightarrow> response" where
  "outdated_reply client =
     JsonReply 426 (JObj [(''error'', JStr ''client_outdated''), (''client'', JNum (int client) 0),
       (''minimum'', JNum (int MIN_CLIENT_PROTOCOL) 0), (''server'', JNum (int PROTOCOL) 0)])"

text \<open>The reply of the middleware, or none when it calls \<open>next\<close>.\<close>

definition requireClientProtocol :: "headers \<Rightarrow> response option" where
  "requireClientProtocol hs =
     (let client = readProtocol (header_get PROTOCOL_HEADER hs)
      in if client < MIN_CLIENT_PROTOCOL then Some (outdated_reply client) else None)"

section \<open>The clients\<close>

text \<open>The user interface.\<close>

definition MIN_SERVER_PROTOCOL :: nat where
  "MIN_SERVER_PROTOCOL = 1"

datatype ProtocolState = ProtocolOk | ClientOutdated | ServerOutdated

definition withProtocol :: "headers \<Rightarrow> headers" where
  "withProtocol hs = header_set PROTOCOL_HEADER (show_nat PROTOCOL) hs"

text \<open>A response seen by the interface: status, headers and JSON body (\<open>None\<close> when it is not JSON).\<close>

definition checkProtocol :: "nat \<Rightarrow> headers \<Rightarrow> json option \<Rightarrow> ProtocolState \<Rightarrow> ProtocolState" where
  "checkProtocol status hs body state =
     (if status = 426 \<and> (case body of Some (JObj ps) \<Rightarrow> get_prop ps ''error'' = Some (JStr ''client_outdated'') | _ \<Rightarrow> False)
      then ClientOutdated
      else if status < 500 \<and> readProtocol (header_get PROTOCOL_HEADER hs) < MIN_SERVER_PROTOCOL then ServerOutdated
      else state)"

text \<open>The command line client.\<close>

definition MIN_GATEWAY_PROTOCOL :: nat where
  "MIN_GATEWAY_PROTOCOL = 1"

definition MIN_GATEWAY_PROTOCOL_V2 :: nat where
  "MIN_GATEWAY_PROTOCOL_V2 = 2"

section \<open>Properties\<close>

lemma readProtocol_show: "readProtocol (Some (show_nat n)) = n"
  by (simp add: readProtocol_def rx_test_iff in_lang_plus_set show_nat_digits show_nat_not_Nil digits_value_show)

fun reply_status :: "response \<Rightarrow> nat" where
  "reply_status (TextReply s _) = s"
| "reply_status (JsonReply s _) = s"

fun reply_json :: "response \<Rightarrow> json option" where
  "reply_json (TextReply _ _) = None"
| "reply_json (JsonReply _ j) = Some j"

text \<open>The handshake: the interface's own requests pass the check; a request that is refused
  makes a client show that it is outdated; and no response of the API, whatever else it is, makes
  a client take the server for outdated.\<close>

theorem handshake:
  "requireClientProtocol (withProtocol hs) = None \<and>
   (case requireClientProtocol hs' of
      None \<Rightarrow> True
    | Some r \<Rightarrow> checkProtocol (reply_status r) (protocolHeader hs'') (reply_json r) st = ClientOutdated) \<and>
   checkProtocol status (protocolHeader hs'') body st \<in> {st, ClientOutdated}"
proof (intro conjI)
  show "requireClientProtocol (withProtocol hs) = None"
    by (simp add: requireClientProtocol_def withProtocol_def header_get_set readProtocol_show PROTOCOL_def MIN_CLIENT_PROTOCOL_def)
  show "case requireClientProtocol hs' of None \<Rightarrow> True
    | Some r \<Rightarrow> checkProtocol (reply_status r) (protocolHeader hs'') (reply_json r) st = ClientOutdated"
    by (simp add: requireClientProtocol_def Let_def outdated_reply_def checkProtocol_def get_prop_def)
  show "checkProtocol status (protocolHeader hs'') body st \<in> {st, ClientOutdated}"
    by (simp add: checkProtocol_def protocolHeader_def header_get_set readProtocol_show PROTOCOL_def MIN_SERVER_PROTOCOL_def)
qed

end
