(* ===== verification/Relay.thy ===== *)
theory Relay
  imports Closing Http
begin

text \<open>
  \<open>api/src/ws-relay.ts\<close>: the WebSocket relay between a browser and the gateway. Frames
  that arrive before the upstream connection is open wait in \<open>ry_pending\<close>. The handlers
  are a step relation: an event, what the handler does, and the state it leaves. The upstream
  socket's own life (\<open>readyState\<close>) is that of the WebSocket standard: it opens once, while
  connecting, brings messages while open, and after a close is called it only closes.
\<close>

definition isUpgrade :: "headers \<Rightarrow> bool" where
  "isUpgrade hs = (lower (case header_get ''upgrade'' hs of None \<Rightarrow> [] | Some v \<Rightarrow> v) = ''websocket'')"

text \<open>\<open>wsRelay\<close>: whether a request is taken by the relay.\<close>

definition wsRelay :: "str \<Rightarrow> headers \<Rightarrow> bool" where
  "wsRelay method hs = (\<not> (method \<noteq> ''GET'' \<or> \<not> isUpgrade hs))"

datatype Frame = TextFrame str | BinaryFrame str

datatype ReadyState = NoSocket | Connecting | Open | Closing | Closed

record relay =
  ry_upstream :: ReadyState
  ry_pending :: "Frame list"
  ry_watching :: bool

datatype relay_event =
    ClientOpened
  | ClientMessage Frame
  | ClientClosed nat str
  | UpstreamOpened
  | UpstreamMessage Frame
  | UpstreamClosed nat str
  | UpstreamError
  | AccessDenied "str option"

datatype relay_action =
    Connect str str
  | SendUpstream Frame
  | SendClient Frame
  | CloseClient nat str
  | CloseUpstream nat str
  | StartWatch
  | EndWatch

definition relay_target :: "ctx \<Rightarrow> str" where
  "relay_target c =
     (let meta = cv_session c
      in upstreamUrl ''ws'' (sm_gatewayAddr meta) (sm_id meta) (proxyRest (rq_path c) (sm_id meta)) (url_search_of (rq_url c)))"

definition relay_start :: relay where
  "relay_start = \<lparr>ry_upstream = NoSocket, ry_pending = [], ry_watching = False\<rparr>"

text \<open>\<open>upstream?.close(...)\<close>.\<close>

definition closing :: "ReadyState \<Rightarrow> ReadyState" where
  "closing u = (case u of Connecting \<Rightarrow> Closing | Open \<Rightarrow> Closing | _ \<Rightarrow> u)"

definition close_upstream :: "ReadyState \<Rightarrow> nat \<Rightarrow> str \<Rightarrow> relay_action list" where
  "close_upstream u code reason = (if u = NoSocket then [] else [CloseUpstream code reason])"

definition stop_watch :: "relay \<Rightarrow> relay_action list" where
  "stop_watch r = (if ry_watching r then [EndWatch] else [])"

inductive relay_step :: "ctx \<Rightarrow> bool \<Rightarrow> relay \<Rightarrow> relay_event \<Rightarrow> relay_action list \<Rightarrow> relay \<Rightarrow> bool" for c watched where
  on_open: "ry_upstream r = NoSocket \<Longrightarrow>
    relay_step c watched r ClientOpened
      ((if watched then [StartWatch] else []) @ [Connect (relay_target c) (''Bearer '' @ cv_token c)])
      (r\<lparr>ry_upstream := Connecting, ry_watching := watched\<rparr>)"
| upstream_open: "ry_upstream r = Connecting \<Longrightarrow>
    relay_step c watched r UpstreamOpened (map SendUpstream (ry_pending r)) (r\<lparr>ry_upstream := Open, ry_pending := []\<rparr>)"
| upstream_message: "ry_upstream r = Open \<Longrightarrow> relay_step c watched r (UpstreamMessage f) [SendClient f] r"
| upstream_close: "ry_upstream r \<noteq> NoSocket \<Longrightarrow>
    relay_step c watched r (UpstreamClosed code reason) (stop_watch r @ [CloseClient (relayCloseCode code) reason])
      (r\<lparr>ry_upstream := Closed, ry_watching := False\<rparr>)"
| upstream_error: "ry_upstream r \<noteq> NoSocket \<Longrightarrow>
    relay_step c watched r UpstreamError [CloseClient 1011 ''upstream error''] r"
| on_message_open: "ry_upstream r = Open \<Longrightarrow> relay_step c watched r (ClientMessage f) [SendUpstream f] r"
| on_message_wait: "ry_upstream r \<noteq> Open \<Longrightarrow>
    relay_step c watched r (ClientMessage f) [] (r\<lparr>ry_pending := ry_pending r @ [f]\<rparr>)"
| on_close: "relay_step c watched r (ClientClosed code reason)
      (stop_watch r @ close_upstream (ry_upstream r) (relayCloseCode code) reason)
      (r\<lparr>ry_upstream := closing (ry_upstream r), ry_watching := False\<rparr>)"
| denied: "ry_watching r \<Longrightarrow>
    relay_step c watched r (AccessDenied reason)
      (CloseClient 1008 (closeReason (case reason of None \<Rightarrow> ''access revoked'' | Some w \<Rightarrow> w)) #
       close_upstream (ry_upstream r) 1000 ''access revoked'')
      (r\<lparr>ry_upstream := closing (ry_upstream r)\<rparr>)"

inductive_cases relay_stepE: "relay_step c watched r e acts r'"
inductive_cases relay_deniedE: "relay_step c watched r (AccessDenied w) acts r'"

text \<open>Runs, with the events and the actions so far.\<close>

inductive relay_run :: "ctx \<Rightarrow> bool \<Rightarrow> relay \<Rightarrow> relay_event list \<Rightarrow> relay_action list \<Rightarrow> relay \<Rightarrow> bool" for c watched r where
  run_start: "relay_run c watched r [] [] r"
| run_step: "relay_run c watched r es acts r' \<Longrightarrow> relay_step c watched r' e out r'' \<Longrightarrow>
    relay_run c watched r (es @ [e]) (acts @ out) r''"

definition client_frames :: "relay_event list \<Rightarrow> Frame list" where
  "client_frames es = List.map_filter (\<lambda>e. case e of ClientMessage f \<Rightarrow> Some f | _ \<Rightarrow> None) es"

definition upstream_frames :: "relay_event list \<Rightarrow> Frame list" where
  "upstream_frames es = List.map_filter (\<lambda>e. case e of UpstreamMessage f \<Rightarrow> Some f | _ \<Rightarrow> None) es"

definition sent_upstream :: "relay_action list \<Rightarrow> Frame list" where
  "sent_upstream acts = List.map_filter (\<lambda>a. case a of SendUpstream f \<Rightarrow> Some f | _ \<Rightarrow> None) acts"

definition sent_client :: "relay_action list \<Rightarrow> Frame list" where
  "sent_client acts = List.map_filter (\<lambda>a. case a of SendClient f \<Rightarrow> Some f | _ \<Rightarrow> None) acts"

lemma map_filter_append: "List.map_filter f (xs @ ys) = List.map_filter f xs @ List.map_filter f ys"
  by (simp add: List.map_filter_def)

lemmas frame_defs = client_frames_def upstream_frames_def sent_upstream_def sent_client_def map_filter_append
  List.map_filter_simps

lemma sent_map: "List.map_filter (\<lambda>a. case a of SendUpstream f \<Rightarrow> Some f | _ \<Rightarrow> None) (map SendUpstream fs) = fs"
  "List.map_filter (\<lambda>a. case a of SendClient f \<Rightarrow> Some f | _ \<Rightarrow> None) (map SendUpstream fs) = []"
  by (induction fs) (simp_all add: List.map_filter_simps)

text \<open>The invariant of the relay.\<close>

definition relay_inv :: "relay_event list \<Rightarrow> relay_action list \<Rightarrow> relay \<Rightarrow> bool" where
  "relay_inv es acts r \<longleftrightarrow>
     sent_upstream acts @ ry_pending r = client_frames es \<and> sent_client acts = upstream_frames es \<and>
     (ry_upstream r = Open \<longrightarrow> ry_pending r = [])"

lemma relay_inv_step:
  assumes "relay_inv es acts r" "relay_step c watched r e out r'"
  shows "relay_inv (es @ [e]) (acts @ out) r'"
  using assms(2,1)
  by cases (auto simp: relay_inv_def frame_defs sent_map stop_watch_def close_upstream_def closing_def split: ReadyState.splits)

lemma relay_inv_run: "relay_run c watched relay_start es acts r \<Longrightarrow> relay_inv es acts r"
proof (induction es acts r rule: relay_run.induct)
  case run_start
  then show ?case by (simp add: relay_inv_def frame_defs relay_start_def)
qed (rule relay_inv_step)

text \<open>After a close of the upstream socket nothing is passed on any more.\<close>

definition over :: "relay \<Rightarrow> bool" where
  "over r \<longleftrightarrow> ry_upstream r = Closing \<or> ry_upstream r = Closed"

lemma over_step: "relay_step c watched r e out r' \<Longrightarrow> over r \<Longrightarrow> over r' \<and> sent_upstream out = [] \<and> sent_client out = []"
  by (erule relay_stepE) (auto simp: over_def frame_defs stop_watch_def close_upstream_def closing_def split: ReadyState.splits)

lemma over_run: "relay_run c watched r es acts r' \<Longrightarrow> over r \<Longrightarrow> over r' \<and> sent_upstream acts = [] \<and> sent_client acts = []"
proof (induction rule: relay_run.induct)
  case run_start
  then show ?case by (simp add: frame_defs)
next
  case (run_step es acts r' e out r'')
  then show ?case using over_step [OF run_step(2)] by (simp add: frame_defs)
qed

lemma watching_step: "relay_step c watched r e out r' \<Longrightarrow> (ry_watching r \<longrightarrow> ry_upstream r \<noteq> NoSocket) \<Longrightarrow>
    (ry_watching r' \<longrightarrow> ry_upstream r' \<noteq> NoSocket)"
  by (erule relay_stepE) (auto simp: closing_def split: ReadyState.splits)

lemma watching_run: "relay_run c watched relay_start es acts r \<Longrightarrow> ry_watching r \<Longrightarrow> ry_upstream r \<noteq> NoSocket"
proof (induction rule: relay_run.induct)
  case run_start
  then show ?case by (simp add: relay_start_def)
qed (use watching_step in blast)

lemma relay_run_snocE:
  assumes "relay_run c watched r (es @ [e]) acts r'"
  obtains acts1 out r1 where "relay_run c watched r es acts1 r1" "relay_step c watched r1 e out r'" "acts = acts1 @ out"
  using assms by (cases rule: relay_run.cases) auto

lemma relay_run_append:
  "relay_run c watched r (es1 @ es2) acts r' \<Longrightarrow>
    \<exists>acts1 acts2 r1. relay_run c watched r es1 acts1 r1 \<and> relay_run c watched r1 es2 acts2 r' \<and> acts = acts1 @ acts2"
proof (induction es2 arbitrary: acts r' rule: rev_induct)
  case Nil
  then show ?case using run_start by fastforce
next
  case (snoc e es2)
  from snoc.prems have "relay_run c watched r ((es1 @ es2) @ [e]) acts r'" by simp
  then obtain a out r1 where a: "relay_run c watched r (es1 @ es2) a r1" "relay_step c watched r1 e out r'" "acts = a @ out"
    by (rule relay_run_snocE)
  then show ?case using snoc.IH [OF a(1)] run_step by fastforce
qed

section \<open>Properties\<close>

text \<open>C24. The relay passes every frame on once and in order: what was sent to the gateway, followed by
  what is still waiting, is what the browser sent; nothing waits while the connection is open; and
  the browser gets exactly what the gateway sent.\<close>

theorem relay_in_order:
  assumes "relay_run c watched relay_start es acts r"
  shows "sent_upstream acts @ ry_pending r = client_frames es \<and> sent_client acts = upstream_frames es \<and>
    (ry_upstream r = Open \<longrightarrow> ry_pending r = [])"
  using relay_inv_run [OF assms] by (simp add: relay_inv_def)

text \<open>A frame sent before and one after the upstream connection opens, then a denial.\<close>

definition first_events :: "relay_event list" where
  "first_events = [ClientOpened, ClientMessage (TextFrame ''a''), UpstreamOpened, ClientMessage (TextFrame ''b'')]"

definition terminal_request :: ctx where
  "terminal_request =
     \<lparr>rq_method = ''GET'', rq_url = ''http://web/proxy/s1/pty/1/connect'', rq_path = ''/proxy/s1/pty/1/connect'',
      rq_sessionId = ''s1'', rq_content_length = None, rq_stream = None, cv_userId = ''u'', cv_token = ''t'',
      cv_session = \<lparr>sm_id = ''s1'', sm_userId = ''u'', sm_directory = ''/w'', sm_gatewayAddr = ''gw:8080'',
        sm_createdAt = ''0'', sm_opencodeVersion = None\<rparr>,
      cv_body = None, cv_rewriteJson = None\<rparr>"

definition open_relay :: relay where
  "open_relay = \<lparr>ry_upstream = Open, ry_pending = [], ry_watching = True\<rparr>"

lemma first_run: "\<exists>acts. relay_run c True relay_start first_events acts open_relay"
proof -
  let ?r1 = "\<lparr>ry_upstream = Connecting, ry_pending = [], ry_watching = True\<rparr>"
  let ?r2 = "\<lparr>ry_upstream = Connecting, ry_pending = [TextFrame ''a''], ry_watching = True\<rparr>"
  have 1: "relay_step c True relay_start ClientOpened ([StartWatch] @ [Connect (relay_target c) (''Bearer '' @ cv_token c)]) ?r1"
    using on_open [of relay_start c True] by (simp add: relay_start_def)
  have 2: "relay_step c True ?r1 (ClientMessage (TextFrame ''a'')) [] ?r2"
    using on_message_wait [of ?r1 c True "TextFrame ''a''"] by simp
  have 3: "relay_step c True ?r2 UpstreamOpened (map SendUpstream [TextFrame ''a'']) open_relay"
    using upstream_open [of ?r2 c True] by (simp add: open_relay_def)
  have 4: "relay_step c True open_relay (ClientMessage (TextFrame ''b'')) [SendUpstream (TextFrame ''b'')] open_relay"
    using on_message_open [of open_relay c True] by (simp add: open_relay_def)
  show ?thesis
    unfolding first_events_def
    using run_step [OF run_step [OF run_step [OF run_step [OF run_start 1] 2] 3] 4] by auto
qed

theorem relay_in_order_witness:
  "\<exists>acts. relay_run terminal_request True relay_start first_events acts open_relay \<and> sent_upstream acts = [TextFrame ''a'', TextFrame ''b'']"
proof -
  obtain acts where a: "relay_run terminal_request True relay_start first_events acts open_relay" using first_run by blast
  then show ?thesis using relay_in_order [OF a]
    by (auto simp: open_relay_def first_events_def client_frames_def List.map_filter_simps)
qed

text \<open>A denial ends a terminal: the browser's socket is closed with 1008 and from then on no frame
  passes in either direction.\<close>

theorem relay_denied_ends:
  assumes "relay_run c watched relay_start (es1 @ AccessDenied w # es2) acts r"
  shows "\<exists>acts1 acts2 reason. acts = acts1 @ CloseClient 1008 reason # acts2 \<and>
    (\<exists>r1. relay_run c watched relay_start es1 acts1 r1) \<and> sent_upstream acts2 = [] \<and> sent_client acts2 = []"
proof -
  from assms have "relay_run c watched relay_start ((es1 @ [AccessDenied w]) @ es2) acts r" by simp
  from relay_run_append [OF this] obtain a1 a2 r2 where
    a: "relay_run c watched relay_start (es1 @ [AccessDenied w]) a1 r2" "relay_run c watched r2 es2 a2 r" "acts = a1 @ a2"
    by blast
  from a(1) obtain b1 out r1 where b: "relay_run c watched relay_start es1 b1 r1"
    "relay_step c watched r1 (AccessDenied w) out r2" "a1 = b1 @ out"
    by (rule relay_run_snocE)
  from b(2) have d: "ry_watching r1" "r2 = r1\<lparr>ry_upstream := closing (ry_upstream r1)\<rparr>"
    "\<exists>reason. out = CloseClient 1008 reason # close_upstream (ry_upstream r1) 1000 ''access revoked''"
    by (auto elim: relay_deniedE)
  have "ry_upstream r1 \<noteq> NoSocket" using watching_run [OF b(1) d(1)] .
  then have "over r2" unfolding d(2) by (cases "ry_upstream r1") (auto simp: over_def closing_def)
  then have "sent_upstream a2 = []" "sent_client a2 = []" using over_run [OF a(2)] by auto
  moreover have "sent_upstream (close_upstream u k t) = []" "sent_client (close_upstream u k t) = []" for u k t
    by (simp_all add: close_upstream_def frame_defs)
  ultimately have "sent_upstream (close_upstream (ry_upstream r1) 1000 ''access revoked'' @ a2) = []"
    "sent_client (close_upstream (ry_upstream r1) 1000 ''access revoked'' @ a2) = []"
    by (simp_all add: frame_defs)
  moreover obtain reason where "acts = b1 @ CloseClient 1008 reason # close_upstream (ry_upstream r1) 1000 ''access revoked'' @ a2"
    using a(3) b(3) d(3) by auto
  ultimately show ?thesis using b(1) by blast
qed

theorem relay_denied_ends_witness:
  "\<exists>acts1 acts2 reason. relay_run terminal_request True relay_start (first_events @ [AccessDenied None])
      (acts1 @ CloseClient 1008 reason # acts2) (open_relay\<lparr>ry_upstream := Closing\<rparr>)"
proof -
  obtain acts where a: "relay_run terminal_request True relay_start first_events acts open_relay" using first_run by blast
  have "relay_step terminal_request True open_relay (AccessDenied None)
      (CloseClient 1008 (closeReason (case None of None \<Rightarrow> ''access revoked'' | Some w \<Rightarrow> w)) #
       close_upstream (ry_upstream open_relay) 1000 ''access revoked'') (open_relay\<lparr>ry_upstream := closing (ry_upstream open_relay)\<rparr>)"
    by (rule denied) (simp add: open_relay_def)
  from run_step [OF a this] have r: "relay_run terminal_request True relay_start (first_events @ AccessDenied None # [])
      (acts @ CloseClient 1008 (closeReason ''access revoked'') # close_upstream Open 1000 ''access revoked'')
      (open_relay\<lparr>ry_upstream := Closing\<rparr>)"
    by (simp add: open_relay_def closing_def)
  from relay_denied_ends [OF r] r show ?thesis by metis
qed

end
