(* ===== verification/RequestLog.thy ===== *)
theory RequestLog
  imports Encoding
begin

text \<open>
  \<open>api/src/request-log.ts\<close>: a WebSocket client sends its access token in the query, and the
  request log must not show it. \<open>redactAccessToken\<close> is the replacement of
  \<open>/([?&]access_token=)[^&#\s]*/gi\<close>, left to right.
\<close>

definition param_start :: "char \<Rightarrow> bool" where
  "param_start c \<longleftrightarrow> c = CHR ''?'' \<or> c = CHR ''&''"

definition token_param :: "str \<Rightarrow> bool" where
  "token_param s = (case s of [] \<Rightarrow> False | c # r \<Rightarrow> param_start c \<and> startsWith (lower r) ''access_token='')"

fun skip_value :: "str \<Rightarrow> str" where
  "skip_value [] = []"
| "skip_value (c # cs) = (if c = CHR ''&'' \<or> c = CHR ''#'' \<or> starts_space (c # cs) then c # cs else skip_value cs)"

lemma skip_value_length: "length (skip_value s) \<le> length s"
  by (induction s) auto

function redactAccessToken :: "str \<Rightarrow> str" where
  "redactAccessToken [] = []"
| "redactAccessToken (c # cs) =
     (if token_param (c # cs) then take 14 (c # cs) @ ''<redacted>'' @ redactAccessToken (skip_value (drop 13 cs))
      else c # redactAccessToken cs)"
  by pat_completeness auto
termination
proof (relation "measure length")
  fix c cs
  have "length (skip_value (drop 13 cs)) \<le> length cs"
    using skip_value_length [of "drop 13 cs"] by simp
  then show "(skip_value (drop 13 cs), c # cs) \<in> measure length" by simp
qed auto

text \<open>A pattern without \<open>?\<close> and \<open>&\<close> that the redacted line starts with, the line starts with.\<close>

lemma redact_starts:
  "startsWith (lower (redactAccessToken s)) p \<Longrightarrow> list_all (\<lambda>c. \<not> param_start c) p \<Longrightarrow> startsWith (lower s) p"
proof (induction p arbitrary: s)
  case (Cons d p)
  then obtain c cs where s: "s = c # cs" by (cases s) auto
  show ?case
  proof (cases "token_param (c # cs)")
    case True
    then have "lower_char c = d" using Cons.prems(1) by (simp add: s)
    moreover have "param_start c" using True by (simp add: token_param_def)
    then have "lower_char c = c" by (auto simp: param_start_def lower_char_def byte_lit)
    ultimately show ?thesis using Cons.prems(2) \<open>param_start c\<close> by simp
  next
    case False
    then show ?thesis using Cons by (simp add: s)
  qed
qed simp

fun shows_no_token :: "str \<Rightarrow> bool" where
  "shows_no_token [] = True"
| "shows_no_token (c # t) = ((token_param (c # t) \<longrightarrow> startsWith (drop 14 (c # t)) ''<redacted>'') \<and> shows_no_token t)"

lemma shows_no_token_suffix: "shows_no_token (a @ b) \<Longrightarrow> token_param b \<Longrightarrow> startsWith (drop 14 b) ''<redacted>''"
proof (induction a)
  case Nil
  then show ?case by (cases b) (auto simp: token_param_def)
qed simp

lemma shows_no_token_plain: "list_all (\<lambda>c. \<not> param_start c) xs \<Longrightarrow> shows_no_token t \<Longrightarrow> shows_no_token (xs @ t)"
  by (induction xs) (auto simp: token_param_def)

lemma lower_lit_plain: "startsWith (lower r) p \<Longrightarrow> list_all (\<lambda>c. \<not> param_start c) p \<Longrightarrow> list_all (\<lambda>c. \<not> param_start c) (take (length p) r)"
proof (induction p arbitrary: r)
  case (Cons d p)
  then obtain c cs where r: "r = c # cs" by (cases r) auto
  have "param_start c \<Longrightarrow> lower_char c = c" by (auto simp: param_start_def lower_char_def byte_lit)
  then show ?case using Cons by (auto simp: r)
qed simp

lemma pattern_plain: "list_all (\<lambda>c. \<not> param_start c) ''access_token=''" "list_all (\<lambda>c. \<not> param_start c) ''<redacted>''"
  by (simp_all add: param_start_def)

lemma redacted_shows_no_token: "shows_no_token (redactAccessToken s)"
proof (induction s rule: redactAccessToken.induct)
  case 1
  show ?case by simp
next
  case (2 c cs)
  show ?case
  proof (cases "token_param (c # cs)")
    case True
    let ?rest = "''<redacted>'' @ redactAccessToken (skip_value (drop 13 cs))"
    have p: "startsWith (lower cs) ''access_token=''" using True by (simp add: token_param_def)
    have "length ''access_token='' = 13" by simp
    then have plain: "list_all (\<lambda>c. \<not> param_start c) (take 13 cs)" using lower_lit_plain [OF p pattern_plain(1)] by metis
    have "13 \<le> length cs" using p by (auto simp: startsWith_iff dest!: arg_cong [where f = length])
    then have "startsWith (drop 14 (c # take 13 cs @ ?rest)) ''<redacted>''" by (simp add: startsWith_iff)
    moreover have "shows_no_token (take 13 cs @ ?rest)"
      using 2(1) [OF True] plain pattern_plain(2) by (intro shows_no_token_plain)
    ultimately show ?thesis using True by simp
  next
    case False
    have "\<not> token_param (c # redactAccessToken cs)"
      using False redact_starts [OF _ pattern_plain(1)] by (auto simp: token_param_def)
    then show ?thesis using False 2(2) by simp
  qed
qed

text \<open>No access token in the log: wherever a logged line has an \<open>access_token\<close>
  parameter, in any case, its value is the placeholder.\<close>

theorem log_shows_no_token:
  assumes "redactAccessToken line = a @ b" "param_start (hd b)" "b \<noteq> []" "startsWith (lower (tl b)) ''access_token=''"
  shows "startsWith (drop 14 b) ''<redacted>''"
proof -
  have "token_param b" using assms(2-4) by (cases b) (auto simp: token_param_def)
  then show ?thesis using redacted_shows_no_token [of line] shows_no_token_suffix unfolding assms(1) by blast
qed

theorem log_shows_no_token_witness:
  "redactAccessToken ''GET /x?a=1&Access_Token=s3cret HTTP'' = ''GET /x?a=1&Access_Token=<redacted> HTTP''"
proof -
  have r: "redactAccessToken ''GET /x?a=1&Access_Token=s3cret HTTP'' = ''GET /x?a=1'' @ ''&Access_Token=<redacted> HTTP''"
    by code_simp
  have "startsWith (drop 14 ''&Access_Token=<redacted> HTTP'') ''<redacted>''"
    by (rule log_shows_no_token [OF r]) code_simp+
  then show ?thesis using r by simp
qed

end
