(* ===== verification/Sessions.thy ===== *)
theory Sessions
  imports Redis Middleware
begin

text \<open>
  \<open>api/src/store.ts\<close>: the records of the connected machines, which the gateway writes and
  the API only reads. The commands are an argument, as in theory \<open>Redis\<close>; the locale
  \<open>session_server\<close> says what they do to the values and the sets of session ids. A record is
  JSON text; one that is not of its type stands for the errors the code would run into.
\<close>

record 's session_redis =
  sr_get :: "str \<Rightarrow> ('s, str option) io"
  sr_smembers :: "str \<Rightarrow> ('s, str list) io"
  sr_mget :: "str list \<Rightarrow> ('s, str option list) io"
  sr_srem :: "str \<Rightarrow> str list \<Rightarrow> ('s, unit) io"
  sr_ping :: "('s, unit) io"

definition session_key :: "str \<Rightarrow> str" where
  "session_key sid = ''orc:v2:session:'' @ sid"

definition user_sessions_key :: "str \<Rightarrow> str" where
  "user_sessions_key uid = ''orc:v2:user-sessions:'' @ uid"

text \<open>\<open>JSON.parse(data)\<close> as a \<open>SessionMeta | null\<close>.\<close>

definition as_session :: "json \<Rightarrow> str + SessionMeta option" where
  "as_session j =
     (case j of
        JNull \<Rightarrow> Inr None
      | JObj ps \<Rightarrow>
          (case (get_prop ps ''id'', get_prop ps ''userId'', get_prop ps ''directory'',
                 get_prop ps ''gatewayAddr'', get_prop ps ''createdAt'') of
             (Some (JStr i), Some (JStr u), Some (JStr d), Some (JStr g), Some (JStr t)) \<Rightarrow>
               (case get_prop ps ''opencodeVersion'' of
                  None \<Rightarrow> Inr (Some \<lparr>sm_id = i, sm_userId = u, sm_directory = d, sm_gatewayAddr = g, sm_createdAt = t,
                                     sm_opencodeVersion = None\<rparr>)
                | Some (JStr v) \<Rightarrow> Inr (Some \<lparr>sm_id = i, sm_userId = u, sm_directory = d, sm_gatewayAddr = g, sm_createdAt = t,
                                     sm_opencodeVersion = Some v\<rparr>)
                | _ \<Rightarrow> Inl ''TypeError'')
           | _ \<Rightarrow> Inl ''TypeError'')
      | _ \<Rightarrow> Inl ''TypeError'')"

definition read_session :: "str \<Rightarrow> str + SessionMeta option" where
  "read_session data = (case jparse data of None \<Rightarrow> Inl ''SyntaxError'' | Some j \<Rightarrow> as_session j)"

definition getSession :: "'s session_redis \<Rightarrow> str \<Rightarrow> ('s, SessionMeta option) io" where
  "getSession R sid =
     io_bind (sr_get R (session_key sid)) (\<lambda>data.
       case data of
         None \<Rightarrow> io_return None
       | Some d \<Rightarrow> if d = [] then io_return None else io_lift (read_session d))"

text \<open>The records that parse, and the ids without a record.\<close>

definition listed :: "str option list \<Rightarrow> json list" where
  "listed values = List.map_filter (\<lambda>v. Option.bind v jparse) values"

definition stale_ids :: "str list \<Rightarrow> str option list \<Rightarrow> str list" where
  "stale_ids ids values = map fst (filter (\<lambda>(_, v). v = None) (zip ids values))"

text \<open>The removal of stale ids is not awaited; its outcome does not matter.\<close>

definition listSessions :: "'s session_redis \<Rightarrow> str \<Rightarrow> ('s, json list) io" where
  "listSessions R uid =
     io_bind (sr_smembers R (user_sessions_key uid)) (\<lambda>ids.
       if ids = [] then io_return []
       else io_bind (sr_mget R (map session_key ids)) (\<lambda>values.
         let result = listed values; stale = stale_ids ids values
         in if stale \<noteq> [] then
              io_bind (io_catch (sr_srem R (user_sessions_key uid) stale) (io_return ())) (\<lambda>_. io_return result)
            else io_return result))"

definition pingStore :: "'s session_redis \<Rightarrow> ('s, bool) io" where
  "pingStore R = io_catch (io_bind (sr_ping R) (\<lambda>_. io_return True)) (io_return False)"

locale session_server =
  fixes R :: "'s session_redis" and val :: "'s \<Rightarrow> str \<Rightarrow> str option" and members :: "'s \<Rightarrow> str \<Rightarrow> str set"
  assumes sget: "sr_get R k s = (rv, s') \<Longrightarrow> val s' = val s \<and> members s' = members s \<and> (\<forall>v. rv = Inr v \<longrightarrow> v = val s k)"
    and smembers: "sr_smembers R k s = (rm, s') \<Longrightarrow>
      val s' = val s \<and> members s' = members s \<and> (\<forall>xs. rm = Inr xs \<longrightarrow> set xs = members s k)"
    and mget: "sr_mget R ks s = (rl, s') \<Longrightarrow>
      val s' = val s \<and> members s' = members s \<and> (\<forall>vs. rl = Inr vs \<longrightarrow> vs = map (val s) ks)"
    and srem: "sr_srem R k xs s = (ru, s') \<Longrightarrow> val s' = val s \<and>
      (members s' = (members s)(k := members s k - set xs) \<or> (\<exists>e. ru = Inl e) \<and> members s' = members s)"
begin

lemma getSession_result:
  "getSession R sid s = (Inr m, s') \<Longrightarrow>
     (case val s (session_key sid) of None \<Rightarrow> m = None | Some d \<Rightarrow> d = [] \<and> m = None \<or> read_session d = Inr m)"
  by (auto simp: getSession_def io_bind_Inr dest!: sget split: option.splits if_splits)

lemma stale_members: "set (stale_ids ids (map f ids)) = {i \<in> set ids. f i = None}"
  by (force simp: stale_ids_def zip_map2 zip_same_conv_map)

lemma listSessions_result:
  assumes "listSessions R uid s = (Inr js, s')"
  shows "(\<exists>ids. set ids = members s (user_sessions_key uid) \<and> js = listed (map (val s \<circ> session_key) ids)) \<and>
    val s' = val s \<and> (\<forall>k. members s' k \<subseteq> members s k) \<and>
    (\<forall>k. \<forall>i \<in> members s k - members s' k. k = user_sessions_key uid \<and> val s (session_key i) = None)"
proof -
  let ?k = "user_sessions_key uid"
  from assms obtain ids s1 where m: "sr_smembers R ?k s = (Inr ids, s1)"
    and rest: "(if ids = [] then io_return []
       else io_bind (sr_mget R (map session_key ids)) (\<lambda>values.
         let result = listed values; stale = stale_ids ids values
         in if stale \<noteq> [] then
              io_bind (io_catch (sr_srem R ?k stale) (io_return ())) (\<lambda>_. io_return result)
            else io_return result)) s1 = (Inr js, s')"
    unfolding listSessions_def io_bind_Inr [of "sr_smembers R k" for k] by blast
  note e = smembers [OF m]
  show ?thesis
  proof (cases "ids = []")
    case True
    then have "js = listed (map (val s \<circ> session_key) ids)" "s' = s1" using rest by (auto simp: listed_def List.map_filter_simps)
    moreover have "set ids = members s ?k" using e by simp
    ultimately show ?thesis using e by (metis Diff_cancel empty_iff order_refl)
  next
    case False
    then obtain vs s2 where g: "sr_mget R (map session_key ids) s1 = (Inr vs, s2)"
      and rest2: "(let result = listed vs; stale = stale_ids ids vs
         in if stale \<noteq> [] then
              io_bind (io_catch (sr_srem R ?k stale) (io_return ())) (\<lambda>_. io_return result)
            else io_return result) s2 = (Inr js, s')"
      using rest by (auto simp: io_bind_Inr)
    have vs: "vs = map (val s \<circ> session_key) ids" and e2: "val s2 = val s" "members s2 = members s"
      using mget [OF g] e by simp_all
    have stale: "set (stale_ids ids vs) = {i \<in> members s ?k. val s (session_key i) = None}"
      using stale_members [of ids "val s \<circ> session_key"] e vs by simp
    have "js = listed vs" and m': "val s' = val s" "members s' = members s \<or>
        members s' = (members s)(?k := members s ?k - set (stale_ids ids vs))"
      using rest2 e2 srem [of ?k "stale_ids ids vs" s2]
      by (auto simp: Let_def io_bind_Inr io_catch_def split: if_splits prod.splits sum.splits)
    then show ?thesis using e vs stale by (intro conjI) (auto split: if_splits)
  qed
qed

end

section \<open>A store in memory\<close>

record session_mem =
  smem_values :: "str \<Rightarrow> str option"
  smem_sets :: "str \<Rightarrow> str list"

definition session_mem_redis :: "session_mem session_redis" where
  "session_mem_redis =
     \<lparr>sr_get = (\<lambda>k s. (Inr (smem_values s k), s)),
      sr_smembers = (\<lambda>k s. (Inr (smem_sets s k), s)),
      sr_mget = (\<lambda>ks s. (Inr (map (smem_values s) ks), s)),
      sr_srem = (\<lambda>k xs s. (Inr (), s\<lparr>smem_sets := (smem_sets s)(k := filter (\<lambda>x. x \<notin> set xs) (smem_sets s k))\<rparr>)),
      sr_ping = (\<lambda>s. (Inr (), s))\<rparr>"

interpretation smem: session_server session_mem_redis smem_values "\<lambda>s k. set (smem_sets s k)"
  by unfold_locales (auto simp: session_mem_redis_def fun_eq_iff)

section \<open>Properties\<close>

text \<open>The list of a user's sessions has the record of each of the user's session ids that has a
  readable one, in the order of the ids; listing forgets no session that has a record, and touches
  no other user's.\<close>

theorem sessions_listed:
  assumes "session_server R val members" "listSessions R uid s = (Inr js, s')"
  shows "(\<exists>ids. set ids = members s (user_sessions_key uid) \<and> js = listed (map (val s \<circ> session_key) ids)) \<and>
    val s' = val s \<and> (\<forall>k. members s' k \<subseteq> members s k) \<and>
    (\<forall>k. \<forall>i \<in> members s k - members s' k. k = user_sessions_key uid \<and> val s (session_key i) = None)"
  by (rule session_server.listSessions_result [OF assms])

definition two_sessions :: session_mem where
  "two_sessions =
     \<lparr>smem_values = (\<lambda>k. if k = session_key ''a'' then Some ''{\"id\":\"a\"}'' else None),
      smem_sets = (\<lambda>k. if k = user_sessions_key ''u'' then [''a'', ''b''] else [])\<rparr>"

theorem sessions_listed_witness:
  "\<exists>js. fst (listSessions session_mem_redis ''u'' two_sessions) = Inr js \<and> js = [JObj [(''id'', JStr ''a'')]] \<and>
     (\<exists>ids. set ids = {''a'', ''b''} \<and> js = listed (map (smem_values two_sessions \<circ> session_key) ids))"
proof -
  have "fst (listSessions session_mem_redis ''u'' two_sessions) = Inr [JObj [(''id'', JStr ''a'')]]" by code_simp
  then have r: "listSessions session_mem_redis ''u'' two_sessions =
      (Inr [JObj [(''id'', JStr ''a'')]], snd (listSessions session_mem_redis ''u'' two_sessions))"
    by (metis prod.collapse)
  have "set (smem_sets two_sessions (user_sessions_key ''u'')) = {''a'', ''b''}" by (simp add: two_sessions_def)
  with sessions_listed [OF smem.session_server_axioms r] r show ?thesis by (metis fst_conv)
qed

end
