(* ===== verification/Proxy.thy ===== *)
theory Proxy
  imports Sessions Closing Http
begin

text \<open>
  The rest of \<open>api/src/proxy.ts\<close>: the check that a session belongs to the caller, and the
  handler that forwards a request to the gateway and hands its response on, rewritten when a guard
  asked for it. \<open>fetch\<close> is the network: a response, or \<open>None\<close> when it throws.
\<close>

section \<open>Whose session it is\<close>

definition sessionAccess :: "'s session_redis \<Rightarrow> ctx \<Rightarrow> ('s, response + ctx) io" where
  "sessionAccess R c =
     io_bind (getSession R (rq_sessionId c)) (\<lambda>meta.
       io_return
         (case meta of
            None \<Rightarrow> Inl (TextReply 404 ''session not found'')
          | Some m \<Rightarrow>
              if sm_userId m \<noteq> cv_userId c then Inl (TextReply 404 ''session not found'')
              else if sm_gatewayAddr m = [] then Inl (TextReply 502 ''session has no gateway'')
              else Inr (c\<lparr>cv_session := m\<rparr>)))"

section \<open>Forwarding\<close>

record upstream_request =
  ur_url :: str
  ur_method :: str
  ur_headers :: headers
  ur_body :: "str option"

record upstream_response =
  us_status :: nat
  us_headers :: headers
  us_body :: "str list option"

text \<open>The body of a response: text, the upstream body as it comes, or that body ended on a denial.\<close>

datatype proxied_body = TextBody str | UpstreamBody "str list option" | WatchedBody "str list"

record proxied =
  px_status :: nat
  px_headers :: headers
  px_body :: proxied_body

definition no_body_method :: "str \<Rightarrow> bool" where
  "no_body_method m \<longleftrightarrow> m = ''GET'' \<or> m = ''HEAD''"

definition proxy_headers :: "ctx \<Rightarrow> headers \<Rightarrow> headers" where
  "proxy_headers c raw =
     (let h = header_set ''X-Opencode-Directory'' (sm_directory (cv_session c)) raw;
          h = header_set ''Authorization'' (''Bearer '' @ cv_token c) h;
          h = header_delete ''origin'' (header_delete ''host'' h)
      in if cv_rewriteJson c \<noteq> None then header_set ''accept-encoding'' ''identity'' h else h)"

definition proxy_request :: "ctx \<Rightarrow> headers \<Rightarrow> upstream_request" where
  "proxy_request c raw =
     (let meta = cv_session c
      in \<lparr>ur_url = upstreamUrl ''http'' (sm_gatewayAddr meta) (sm_id meta) (proxyRest (rq_path c) (sm_id meta))
                     (url_search_of (rq_url c)),
          ur_method = rq_method c,
          ur_headers = proxy_headers c raw,
          ur_body = (if no_body_method (rq_method c) then None
                     else case cv_body c of Some b \<Rightarrow> Some b | None \<Rightarrow> map_option concat (rq_stream c))\<rparr>)"

definition drop_cors :: "headers \<Rightarrow> headers" where
  "drop_cors hs = filter (\<lambda>(n, _). \<not> startsWith n ''access-control-'') hs"

text \<open>\<open>new TextDecoder("utf-8", \{fatal: true\})\<close>.\<close>

definition fatal_decode :: "str \<Rightarrow> str option" where
  "fatal_decode bytes =
     (let b = (if startsWith bytes bom then drop 3 bytes else bytes) in if utf8_valid b then Some b else None)"

definition bad_upstream :: proxied where
  "bad_upstream =
     \<lparr>px_status = 502, px_headers = [(''content-type'', ''text/plain;charset=UTF-8'')],
      px_body = TextBody ''unexpected response from opencode''\<rparr>"

definition rewriteResponse :: "upstream_response \<Rightarrow> headers \<Rightarrow> (json \<Rightarrow> json) \<Rightarrow> proxied option" where
  "rewriteResponse up hs rewrite =
     (if us_status up < 200 \<or> us_status up > 299 then None
      else
        let bytes = (case us_body up of None \<Rightarrow> [] | Some cs \<Rightarrow> concat cs);
            hs' = header_delete ''content-length'' (header_delete ''content-encoding'' hs)
        in case Option.bind (fatal_decode bytes) jparse of
             None \<Rightarrow> Some bad_upstream
           | Some j \<Rightarrow> Some \<lparr>px_status = us_status up, px_headers = hs', px_body = TextBody (jprint (rewrite j))\<rparr>)"

definition is_event_stream :: "headers \<Rightarrow> bool" where
  "is_event_stream hs = (case header_get ''content-type'' hs of None \<Rightarrow> False | Some v \<Rightarrow> startsWith v ''text/event-stream'')"

definition pass_response :: "bool \<Rightarrow> upstream_response \<Rightarrow> headers \<Rightarrow> proxied" where
  "pass_response watched up out =
     \<lparr>px_status = us_status up, px_headers = out,
      px_body = (case us_body up of
                   Some cs \<Rightarrow> if is_event_stream out \<and> watched then WatchedBody cs else UpstreamBody (Some cs)
                 | None \<Rightarrow> UpstreamBody None)\<rparr>"

definition proxyHttp :: "(upstream_request \<Rightarrow> upstream_response option) \<Rightarrow> headers \<Rightarrow> bool \<Rightarrow> ctx \<Rightarrow> str + proxied" where
  "proxyHttp fetch raw watched c =
     (case fetch (proxy_request c raw) of
        None \<Rightarrow> Inl ''fetch failed''
      | Some up \<Rightarrow>
          let out = drop_cors (us_headers up)
          in case cv_rewriteJson c of
               None \<Rightarrow> Inr (pass_response watched up out)
             | Some rewrite \<Rightarrow>
                 (case rewriteResponse up out rewrite of
                    Some p \<Rightarrow> Inr p
                  | None \<Rightarrow> Inr (pass_response watched up out)))"

lemma lower_names:
  "lower ''Authorization'' = ''authorization''" "lower ''X-Opencode-Directory'' = ''x-opencode-directory''"
  "lower ''Host'' = ''host''" "lower ''Origin'' = ''origin''" "lower ''host'' = ''host''" "lower ''origin'' = ''origin''"
  "lower ''accept-encoding'' = ''accept-encoding''"
  by code_simp+

lemma header_get_proxy:
  "header_get n (proxy_headers c raw) =
     (if cv_rewriteJson c \<noteq> None \<and> lower n = ''accept-encoding'' then Some ''identity''
      else if lower n = ''origin'' then None
      else if lower n = ''host'' then None
      else if lower n = ''authorization'' then Some (''Bearer '' @ cv_token c)
      else if lower n = ''x-opencode-directory'' then Some (sm_directory (cv_session c))
      else header_get n raw)"
proof -
  have base: "header_get n (header_delete ''origin'' (header_delete ''host'' (header_set ''Authorization'' v
      (header_set ''X-Opencode-Directory'' d raw)))) =
    (if lower n = ''origin'' then None else if lower n = ''host'' then None
     else if lower n = ''authorization'' then Some v
     else if lower n = ''x-opencode-directory'' then Some d else header_get n raw)" for v d
    by (simp only: header_get_set header_get_delete lower_names)
  show ?thesis
  proof (cases "cv_rewriteJson c = None")
    case True
    then show ?thesis by (simp only: proxy_headers_def Let_def base simp_thms if_False)
  next
    case False
    then show ?thesis by (simp only: proxy_headers_def Let_def base header_get_set lower_names simp_thms if_True)
  qed
qed

lemma proxy_request_parts:
  "header_get ''Authorization'' (ur_headers (proxy_request c raw)) = Some (''Bearer '' @ cv_token c) \<and>
   header_get ''X-Opencode-Directory'' (ur_headers (proxy_request c raw)) = Some (sm_directory (cv_session c)) \<and>
   ur_method (proxy_request c raw) = rq_method c \<and>
   (ur_body (proxy_request c raw) = None \<or> ur_body (proxy_request c raw) = Some (forwarded_body c))"
proof -
  have h: "ur_headers (proxy_request c raw) = proxy_headers c raw" by (simp add: proxy_request_def Let_def)
  have "header_get ''Authorization'' (proxy_headers c raw) = Some (''Bearer '' @ cv_token c)"
    "header_get ''X-Opencode-Directory'' (proxy_headers c raw) = Some (sm_directory (cv_session c))"
    unfolding header_get_proxy lower_names by simp_all
  moreover have "ur_body (proxy_request c raw) = None \<or> ur_body (proxy_request c raw) = Some (forwarded_body c)"
    "ur_method (proxy_request c raw) = rq_method c"
    by (auto simp: proxy_request_def Let_def forwarded_body_def split: option.splits)
  ultimately show ?thesis unfolding h by blast
qed

section \<open>Properties\<close>

text \<open>What goes to the gateway: the caller's request with the user's token and the session's
  directory in place of whatever the browser sent under those names, without the browser's host
  and origin, every other header untouched, and the very bytes the guards saw.\<close>

theorem proxy_request_faithful:
  assumes "lower n \<notin> {''x-opencode-directory'', ''authorization'', ''host'', ''origin'', ''accept-encoding''}"
  shows "header_get ''Authorization'' (ur_headers (proxy_request c raw)) = Some (''Bearer '' @ cv_token c) \<and>
    header_get ''X-Opencode-Directory'' (ur_headers (proxy_request c raw)) = Some (sm_directory (cv_session c)) \<and>
    header_get ''Host'' (ur_headers (proxy_request c raw)) = None \<and>
    header_get ''Origin'' (ur_headers (proxy_request c raw)) = None \<and>
    header_get n (ur_headers (proxy_request c raw)) = header_get n raw \<and>
    ur_method (proxy_request c raw) = rq_method c \<and>
    (ur_body (proxy_request c raw) = None \<or> ur_body (proxy_request c raw) = Some (forwarded_body c))"
proof -
  have h: "ur_headers (proxy_request c raw) = proxy_headers c raw" by (simp add: proxy_request_def Let_def)
  have "header_get n (proxy_headers c raw) = header_get n raw"
    unfolding header_get_proxy using assms by simp
  moreover have "header_get ''Host'' (proxy_headers c raw) = None" "header_get ''Origin'' (proxy_headers c raw) = None"
    unfolding header_get_proxy lower_names by simp_all
  ultimately show ?thesis using proxy_request_parts [of c raw] unfolding h by blast
qed

definition rewriting_request :: ctx where
  "rewriting_request = 
     \<lparr>rq_method = ''GET'', rq_url = ''http://web/sessions/s1/proxy/config'', rq_path = ''/sessions/s1/proxy/config'',
      rq_sessionId = ''s1'', rq_content_length = None, rq_stream = None, cv_userId = ''u'', cv_token = ''t'',
      cv_session = \<lparr>sm_id = ''s1'', sm_userId = ''u'', sm_directory = ''/w'', sm_gatewayAddr = ''gw:8080'',
        sm_createdAt = ''0'', sm_opencodeVersion = None\<rparr>,
      cv_body = None, cv_rewriteJson = Some (\<lambda>j. JNull)\<rparr>"

theorem proxy_request_faithful_witness: "lower ''Accept'' \<notin> {''authorization'', ''host''} \<and>
  header_get ''Accept'' (ur_headers (proxy_request rewriting_request [(''accept'', ''a/b''), (''authorization'', ''x'')])) = Some ''a/b''"
proof -
  have l: "lower ''Accept'' = ''accept''" by code_simp
  then have "lower ''Accept'' \<notin> {''x-opencode-directory'', ''authorization'', ''host'', ''origin'', ''accept-encoding''}" by simp
  from proxy_request_faithful [OF this, of rewriting_request "[(''accept'', ''a/b''), (''authorization'', ''x'')]"] l
  show ?thesis by (simp add: header_get_def)
qed

text \<open>What comes back: never a CORS header of opencode's; and when a guard asked for a rewrite, a
  successful response is either the rewritten JSON, without the length and the encoding of the
  original, or a 502; the original body is never passed on.\<close>

theorem proxy_response_rewritten:
  assumes "proxyHttp fetch raw watched c = Inr p" "fetch (proxy_request c raw) = Some up"
  shows "(\<forall>n \<in> fst ` set (px_headers p). \<not> startsWith n ''access-control-'') \<and>
    (\<forall>rewrite. cv_rewriteJson c = Some rewrite \<longrightarrow> 200 \<le> us_status up \<longrightarrow> us_status up \<le> 299 \<longrightarrow>
       p = bad_upstream \<or>
       (\<exists>j. px_body p = TextBody (jprint (rewrite j)) \<and> px_status p = us_status up \<and>
          header_get ''content-length'' (px_headers p) = None \<and> header_get ''content-encoding'' (px_headers p) = None))"
proof -
  have d: "\<forall>n \<in> fst ` set (drop_cors hs). \<not> startsWith n ''access-control-''" for hs
    by (auto simp: drop_cors_def)
  have l: "lower ''content-length'' = ''content-length''" "lower ''content-encoding'' = ''content-encoding''"
    by code_simp+
  have r: "q = bad_upstream \<or> (\<exists>j. px_body q = TextBody (jprint (rewrite j)) \<and> px_status q = us_status up \<and>
      px_headers q = header_delete ''content-length'' (header_delete ''content-encoding'' hs))"
    if "rewriteResponse up hs rewrite = Some q" for q hs rewrite
    using that by (auto simp: rewriteResponse_def Let_def split: if_splits option.splits)
  have names: "\<forall>n \<in> fst ` set (header_delete m (header_delete m' (drop_cors hs))). \<not> startsWith n ''access-control-''" for m m' hs
    unfolding header_names_delete using d by blast
  have bad: "\<forall>n \<in> fst ` set (px_headers bad_upstream). \<not> startsWith n ''access-control-''"
    by (simp add: bad_upstream_def)
  show ?thesis
  proof (cases "cv_rewriteJson c")
    case None
    then have "px_headers p = drop_cors (us_headers up)"
      using assms by (auto simp: proxyHttp_def Let_def pass_response_def)
    then have "\<forall>n \<in> fst ` set (px_headers p). \<not> startsWith n ''access-control-''"
      using d [of "us_headers up"] by (simp only:)
    moreover have "cv_rewriteJson c = Some rewrite \<Longrightarrow> R" for rewrite R using None by simp
    ultimately show ?thesis by blast
  next
    case (Some rewrite)
    show ?thesis
    proof (cases "rewriteResponse up (drop_cors (us_headers up)) rewrite")
      case None
      then have "us_status up < 200 \<or> us_status up > 299"
        by (auto simp: rewriteResponse_def Let_def split: if_splits option.splits)
      moreover have "px_headers p = drop_cors (us_headers up)"
        using assms Some None by (auto simp: proxyHttp_def Let_def pass_response_def)
      ultimately show ?thesis using d by auto
    next
      case (Some q)
      then have "p = q" using assms \<open>cv_rewriteJson c = Some rewrite\<close> by (simp add: proxyHttp_def Let_def)
      from r [OF Some] consider "q = bad_upstream"
        | j where "px_body q = TextBody (jprint (rewrite j))" "px_status q = us_status up"
            "px_headers q = header_delete ''content-length'' (header_delete ''content-encoding'' (drop_cors (us_headers up)))"
        by blast
      then show ?thesis
      proof cases
        case 1
        then show ?thesis using bad unfolding \<open>p = q\<close> by simp
      next
        case 2
        have "\<forall>n \<in> fst ` set (px_headers q). \<not> startsWith n ''access-control-''"
          unfolding 2(3) by (rule names)
        moreover have "header_get ''content-length'' (px_headers q) = None" "header_get ''content-encoding'' (px_headers q) = None"
          unfolding 2(3) header_get_delete l by simp_all
        ultimately show ?thesis using 2(1,2) \<open>cv_rewriteJson c = Some rewrite\<close> \<open>p = q\<close> by auto
      qed
    qed
  qed
qed

definition json_upstream :: upstream_response where
  "json_upstream =
     \<lparr>us_status = 200, us_headers = [(''access-control-allow-origin'', ''*''), (''content-length'', ''9'')],
      us_body = Some [''{\"a\":'', ''1}'']\<rparr>"

theorem proxy_response_rewritten_witness:
  "\<exists>p. proxyHttp (\<lambda>_. Some json_upstream) [] False rewriting_request = Inr p \<and> px_body p = TextBody ''null'' \<and>
     (\<forall>n \<in> fst ` set (px_headers p). \<not> startsWith n ''access-control-'')"
proof -
  have "case proxyHttp (\<lambda>_. Some json_upstream) [] False rewriting_request of Inl _ \<Rightarrow> False | Inr p \<Rightarrow> px_body p = TextBody ''null''"
    by code_simp
  then obtain p where "proxyHttp (\<lambda>_. Some json_upstream) [] False rewriting_request = Inr p" "px_body p = TextBody ''null''"
    by (auto split: sum.splits)
  with proxy_response_rewritten [OF this(1) refl] show ?thesis by blast
qed

end
