(* ===== verification/Authz.thy ===== *)
theory Authz
  imports TokenStore Http
begin

text \<open>
  \<open>api/src/authz.ts\<close>: who may use sessions. A webhook decides; its decisions are cached in
  Redis under a generation number, which \<open>evictAll\<close> moves on; a stream that stays open is
  re-checked by a timer, the state machine \<open>watch_step\<close>; \<open>requireAccess\<close> and the
  admin routes use them. \<open>webhook\<close> is the call of \<open>fetchImpl\<close>: it throws, or
  returns a status and the JSON of the body (\<open>None\<close> when \<open>res.json()\<close> throws).
\<close>

section \<open>Decisions\<close>

record AuthzOptions =
  ao_webhookUrl :: str
  ao_webhookToken :: str
  ao_timeoutSeconds :: nat
  ao_allowedTtl :: nat
  ao_deniedTtl :: nat

record Decision =
  dc_allowed :: bool
  dc_reason :: "str option"

definition MAX_REASON :: nat where
  "MAX_REASON = 300"

definition SESSION_ENDED :: str where
  "SESSION_ENDED = ''signed out''"

definition key_gen :: str where
  "key_gen = ''orc:v2:authz:gen''"

definition key_decision :: "str \<Rightarrow> str \<Rightarrow> str" where
  "key_decision gen uid = ''orc:v2:authz:'' @ gen @ '':'' @ uid"

definition enabled :: "AuthzOptions \<Rightarrow> bool" where
  "enabled opts \<longleftrightarrow> ao_webhookUrl opts \<noteq> []"

abbreviation allowed_decision :: Decision where
  "allowed_decision \<equiv> \<lparr>dc_allowed = True, dc_reason = None\<rparr>"

abbreviation denied_decision :: "str option \<Rightarrow> Decision" where
  "denied_decision reason \<equiv> \<lparr>dc_allowed = False, dc_reason = reason\<rparr>"

text \<open>The cached text of a decision.\<close>

definition read_cached :: "str \<Rightarrow> Decision" where
  "read_cached v =
     (if v = ''1'' then allowed_decision
      else if startsWith v ''0:'' then denied_decision (Some (drop 2 v))
      else denied_decision None)"

definition cached_text :: "Decision \<Rightarrow> str" where
  "cached_text d =
     (if dc_allowed d then ''1''
      else case dc_reason d of Some r \<Rightarrow> if r \<noteq> [] then ''0:'' @ r else ''0'' | None \<Rightarrow> ''0'')"

section \<open>The webhook\<close>

record webhook_request =
  wr_url :: str
  wr_method :: str
  wr_headers :: headers
  wr_body :: str
  wr_timeout :: nat

definition authz_request :: "AuthzOptions \<Rightarrow> AccessClaims \<Rightarrow> webhook_request" where
  "authz_request opts user =
     (let hs = header_set ''Content-Type'' ''application/json'' [];
          hs = (if ao_webhookToken opts \<noteq> [] then header_set ''Authorization'' (''Bearer '' @ ao_webhookToken opts) hs else hs)
      in \<lparr>wr_url = ao_webhookUrl opts, wr_method = ''POST'', wr_headers = hs,
          wr_body = jprint (JObj [(''user'', JObj [(''uid'', JStr (ac_uid user)), (''email'', ac_email user), (''name'', ac_name user)])]),
          wr_timeout = ao_timeoutSeconds opts * 1000\<rparr>)"

text \<open>A body that is \<open>null\<close> throws, one without members has none.\<close>

definition body_member :: "json \<Rightarrow> str \<Rightarrow> json option" where
  "body_member j name = (case j of JObj ps \<Rightarrow> get_prop ps name | _ \<Rightarrow> None)"

definition webhook_reason :: "json \<Rightarrow> str option" where
  "webhook_reason j =
     (case body_member j ''reason'' of
        Some (JStr r) \<Rightarrow> if r \<noteq> [] then Some (js_take MAX_REASON r) else None
      | _ \<Rightarrow> None)"

definition webhook_decision :: "nat \<times> json option \<Rightarrow> Decision option" where
  "webhook_decision reply =
     (if fst reply < 200 \<or> fst reply > 299 then None
      else case snd reply of
        None \<Rightarrow> None
      | Some j \<Rightarrow>
          (case body_member j ''allowed'' of
             Some (JBool b) \<Rightarrow> Some (if b then allowed_decision else denied_decision (webhook_reason j))
           | _ \<Rightarrow> None))"

type_synonym 's webhook = "webhook_request \<Rightarrow> ('s, nat \<times> json option) io"

definition ask :: "'s webhook \<Rightarrow> AuthzOptions \<Rightarrow> AccessClaims \<Rightarrow> ('s, Decision option) io" where
  "ask webhook opts user =
     io_catch (io_bind (webhook (authz_request opts user)) (\<lambda>reply. io_return (webhook_decision reply))) (io_return None)"

section \<open>The authorizer\<close>

definition read_gen :: "str option \<Rightarrow> str" where
  "read_gen v = (case v of None \<Rightarrow> ''0'' | Some g \<Rightarrow> g)"

text \<open>A failed call denies without caching.\<close>

definition decide :: "'s redis \<Rightarrow> 's webhook \<Rightarrow> AuthzOptions \<Rightarrow> AccessClaims \<Rightarrow> str \<Rightarrow> ('s, Decision) io" where
  "decide R webhook opts user gen =
     io_bind (ask webhook opts user) (\<lambda>decision.
       case decision of
         None \<Rightarrow> io_return (denied_decision None)
       | Some d \<Rightarrow>
           io_bind (rset_ex R (key_decision gen (ac_uid user)) (cached_text d)
               (if dc_allowed d then ao_allowedTtl opts else ao_deniedTtl opts))
             (\<lambda>_. io_return d))"

definition check :: "'s redis \<Rightarrow> 's webhook \<Rightarrow> AuthzOptions \<Rightarrow> AccessClaims \<Rightarrow> ('s, Decision) io" where
  "check R webhook opts user =
     (if \<not> enabled opts then io_return allowed_decision
      else
        io_bind (rget R key_gen) (\<lambda>g.
          let gen = read_gen g
          in io_bind (rget R (key_decision gen (ac_uid user))) (\<lambda>cached.
               case cached of
                 Some v \<Rightarrow> io_return (read_cached v)
               | None \<Rightarrow> decide R webhook opts user gen)))"

definition allowed :: "'s redis \<Rightarrow> 's webhook \<Rightarrow> AuthzOptions \<Rightarrow> AccessClaims \<Rightarrow> ('s, bool) io" where
  "allowed R webhook opts user = io_bind (check R webhook opts user) (\<lambda>d. io_return (dc_allowed d))"

definition evict :: "'s redis \<Rightarrow> str \<Rightarrow> ('s, unit) io" where
  "evict R uid = io_bind (rget R key_gen) (\<lambda>g. rdel R (key_decision (read_gen g) uid))"

definition evictAll :: "'s redis \<Rightarrow> ('s, unit) io" where
  "evictAll R = rincr R key_gen"

section \<open>Watching an open stream\<close>

text \<open>What a tick of the timer asks; \<open>sid\<close> is the sign-in session to look at, if any.\<close>

definition recheck :: "'s redis \<Rightarrow> 's webhook \<Rightarrow> AuthzOptions \<Rightarrow> AccessClaims \<Rightarrow> str option \<Rightarrow> ('s, Decision) io" where
  "recheck R webhook opts user sid =
     io_bind (case sid of None \<Rightarrow> io_return True | Some c \<Rightarrow> sessionActive R c) (\<lambda>active.
       if \<not> active then io_return (denied_decision (Some SESSION_ENDED))
       else if enabled opts then check R webhook opts user
       else io_return allowed_decision)"

text \<open>
  The timer of \<open>watch\<close>: \<open>Tick\<close> comes while it runs, \<open>Rechecked\<close> is the
  end of the re-check a tick has started, \<open>Stop\<close> the call of the function it returned. The
  timer is cleared as \<open>stopped\<close> is set.
\<close>

record watcher =
  wt_stopped :: bool
  wt_busy :: bool

datatype watch_event = Tick | Rechecked "str + Decision" | Stop

datatype watch_action = StartRecheck | OnDenied Decision

definition watch_start :: watcher where
  "watch_start = \<lparr>wt_stopped = False, wt_busy = False\<rparr>"

inductive watch_step :: "watcher \<Rightarrow> watch_event \<Rightarrow> watch_action list \<Rightarrow> watcher \<Rightarrow> bool" where
  tick_busy: "\<not> wt_stopped w \<Longrightarrow> wt_busy w \<Longrightarrow> watch_step w Tick [] w"
| tick: "\<not> wt_stopped w \<Longrightarrow> \<not> wt_busy w \<Longrightarrow> watch_step w Tick [StartRecheck] (w\<lparr>wt_busy := True\<rparr>)"
| checked_denied: "wt_busy w \<Longrightarrow> \<not> dc_allowed d \<Longrightarrow> \<not> wt_stopped w \<Longrightarrow>
    watch_step w (Rechecked (Inr d)) [OnDenied d] (w\<lparr>wt_stopped := True, wt_busy := False\<rparr>)"
| checked_other: "wt_busy w \<Longrightarrow> dc_allowed d \<or> wt_stopped w \<Longrightarrow>
    watch_step w (Rechecked (Inr d)) [] (w\<lparr>wt_busy := False\<rparr>)"
| check_failed: "wt_busy w \<Longrightarrow> watch_step w (Rechecked (Inl e)) [] (w\<lparr>wt_busy := False\<rparr>)"
| stop: "watch_step w Stop [] (w\<lparr>wt_stopped := True\<rparr>)"

inductive_cases watch_stepE: "watch_step w e acts w'"

inductive watch_run :: "watcher \<Rightarrow> watch_event list \<Rightarrow> watch_action list \<Rightarrow> watcher \<Rightarrow> bool" where
  watch_run_Nil: "watch_run w [] [] w"
| watch_run_Cons: "watch_step w e out w' \<Longrightarrow> watch_run w' es acts w'' \<Longrightarrow> watch_run w (e # es) (out @ acts) w''"

inductive_simps watch_run_Nil_iff: "watch_run w [] acts w'"
inductive_cases watch_run_ConsE: "watch_run w (e # es) acts w''"

text \<open>A stream that is not watched has no timer.\<close>

definition watched :: "AuthzOptions \<Rightarrow> str option \<Rightarrow> bool" where
  "watched opts sid \<longleftrightarrow> \<not> (\<not> enabled opts \<and> sid = None)"

section \<open>The middleware and the admin routes\<close>

definition forbidden_reply :: "str option \<Rightarrow> response" where
  "forbidden_reply reason =
     JsonReply 403 (JObj ((''error'', JStr ''forbidden'') #
       (case reason of Some r \<Rightarrow> if r \<noteq> [] then [(''reason'', JStr r)] else [] | None \<Rightarrow> [])))"

definition unavailable_reply :: response where
  "unavailable_reply = JsonReply 503 (JObj [(''error'', JStr ''unavailable'')])"

text \<open>The reply, or the session that a watch of this request looks at.\<close>

definition watch_sid :: "AccessClaims \<Rightarrow> str option" where
  "watch_sid claims = (case ac_sid claims of Some s \<Rightarrow> if s \<noteq> [] then Some s else None | None \<Rightarrow> None)"

definition requireAccess :: "'s redis \<Rightarrow> 's webhook \<Rightarrow> AuthzOptions \<Rightarrow> AccessClaims \<Rightarrow> ('s, response + str option) io" where
  "requireAccess R webhook opts claims =
     io_catch
       (io_bind (check R webhook opts claims) (\<lambda>d.
          io_return (if \<not> dc_allowed d then Inl (forbidden_reply (dc_reason d)) else Inr (watch_sid claims))))
       (io_return (Inl unavailable_reply))"

definition tokenMatches :: "str option \<Rightarrow> str \<Rightarrow> bool" where
  "tokenMatches header token =
     (case header of
        None \<Rightarrow> False
      | Some h \<Rightarrow> if \<not> startsWith h ''Bearer '' then False else trim (drop 7 h) = token)"

datatype admin_route = EvictEveryone | EvictUser str

text \<open>\<open>None\<close>: the route does not exist.\<close>

definition adminRoutes :: "'s redis \<Rightarrow> str \<Rightarrow> headers \<Rightarrow> admin_route \<Rightarrow> ('s, response option) io" where
  "adminRoutes R adminToken hs route =
     (if adminToken = [] then io_return None
      else if \<not> tokenMatches (header_get ''authorization'' hs) adminToken
      then io_return (Some (JsonReply 401 (JObj [(''error'', JStr ''unauthorized'')])))
      else case route of
        EvictEveryone \<Rightarrow> io_bind (evictAll R) (\<lambda>_. io_return (Some (TextReply 204 [])))
      | EvictUser uid \<Rightarrow> io_bind (evict R uid) (\<lambda>_. io_return (Some (TextReply 204 []))))"

section \<open>Generations\<close>

text \<open>
  The invariant of the keys: the generation is a number without expiry, or absent, and no decision
  is filed under a generation that is still to come.
\<close>

definition gen_no :: "entries \<Rightarrow> nat" where
  "gen_no es = (case es key_gen of None \<Rightarrow> 0 | Some (v, _) \<Rightarrow> digits_value v)"

definition gen_inv :: "entries \<Rightarrow> bool" where
  "gen_inv es \<longleftrightarrow>
     (case es key_gen of None \<Rightarrow> True | Some (v, e) \<Rightarrow> v = show_nat (digits_value v) \<and> e = None) \<and>
     (\<forall>m uid. gen_no es < m \<longrightarrow> es (key_decision (show_nat m) uid) = None)"

lemma no_colon_digits: "list_all is_digit ds \<Longrightarrow> CHR '':'' \<notin> set ds"
  by (induction ds) (auto simp: is_digit_def byte_def)

lemma key_decision_inject:
  "key_decision (show_nat m) u = key_decision (show_nat n) v \<longleftrightarrow> m = n \<and> u = v"
proof -
  have "a @ CHR '':'' # u = b @ CHR '':'' # v \<Longrightarrow> CHR '':'' \<notin> set a \<Longrightarrow> CHR '':'' \<notin> set b \<Longrightarrow> a = b \<and> u = v" for a b
  proof (induction a arbitrary: b)
    case Nil
    then show ?case by (cases b) auto
  next
    case (Cons x a)
    then show ?case by (cases b) auto
  qed
  from this [of "show_nat m" "show_nat n"] show ?thesis
    using no_colon_digits [OF show_nat_digits] digits_value_show by (auto simp: key_decision_def) metis+
qed

lemma key_gen_neq: "key_decision g u \<noteq> key_gen"
proof
  assume "key_decision g u = key_gen"
  then have "g @ '':'' @ u = ''gen''" by (simp add: key_decision_def key_gen_def)
  then have "CHR '':'' \<in> set ''gen''" by (metis in_set_conv_decomp append_Cons append_Nil)
  then show False by simp
qed

lemma key_gen_neq' [simp]: "key_gen \<noteq> key_decision g u" "key_decision g u \<noteq> key_gen"
  using key_gen_neq [of g u] by auto

text \<open>The generation that is read.\<close>

lemma read_gen_live: "gen_inv es \<Longrightarrow> read_gen (live es now key_gen) = show_nat (gen_no es)"
proof -
  assume g: "gen_inv es"
  have z: "show_nat 0 = ''0''" by code_simp
  show ?thesis using g by (auto simp: gen_inv_def gen_no_def read_gen_def live_def z split: option.splits)
qed

lemma gen_inv_decision:
  assumes "gen_inv es" "m \<le> gen_no es"
  shows "gen_inv (es(key_decision (show_nat m) u := x)) \<and> gen_no (es(key_decision (show_nat m) u := x)) = gen_no es"
  using assms by (auto simp: gen_inv_def gen_no_def key_decision_inject)

lemma gen_inv_incremented:
  assumes "gen_inv es" "\<And>n. next (show_nat n) = show_nat (Suc n)"
  shows "gen_inv (incremented next es now key_gen) \<and> gen_no (incremented next es now key_gen) = Suc (gen_no es)"
proof (cases "es key_gen")
  case None
  then have "live es now key_gen = None" "gen_no es = 0" by (simp_all add: live_def gen_no_def)
  moreover have "show_nat (Suc 0) = ''1''" by code_simp
  then have "digits_value ''1'' = Suc 0" using digits_value_show by metis
  ultimately show ?thesis
    using assms(1) \<open>show_nat (Suc 0) = ''1''\<close> by (auto simp: incremented_def gen_inv_def gen_no_def)
next
  case (Some ve)
  obtain n where n: "es key_gen = Some (show_nat n, None)" "gen_no es = n"
    using assms(1) Some by (auto simp: gen_inv_def gen_no_def)
  then have "incremented next es now key_gen = es(key_gen := Some (show_nat (Suc n), None))"
    by (simp add: incremented_def live_def assms(2))
  then show ?thesis using assms(1) n by (auto simp: gen_inv_def gen_no_def digits_value_show)
qed

definition gen_from :: "nat \<Rightarrow> entries \<Rightarrow> bool" where
  "gen_from n es \<longleftrightarrow> gen_inv es \<and> n \<le> gen_no es"

lemma gen_from_max: "gen_from (max n m) es \<longleftrightarrow> gen_from n es \<and> gen_from m es"
  by (auto simp: gen_from_def)

lemma gen_from_decision: "gen_from n es \<Longrightarrow> m \<le> n \<Longrightarrow> gen_from n (es(key_decision (show_nat m) u := x))"
  using gen_inv_decision [of es m u x] by (auto simp: gen_from_def)

text \<open>
  What the webhook call, and whatever else happens while it is under way, may do to the store:
  generations only grow and the invariant stays. In particular others may evict meanwhile.
\<close>

definition webhook_fair :: "('s \<Rightarrow> entries) \<Rightarrow> ('s \<Rightarrow> nat) \<Rightarrow> 's webhook \<Rightarrow> bool" where
  "webhook_fair entry clock webhook \<longleftrightarrow>
     (\<forall>q s r s'. webhook q s = (r, s') \<longrightarrow> clock s \<le> clock s' \<and>
        (gen_inv (entry s) \<longrightarrow> gen_inv (entry s') \<and> gen_no (entry s) \<le> gen_no (entry s')))"

inductive az_step ::
  "'s redis \<Rightarrow> ('s \<Rightarrow> entries) \<Rightarrow> ('s \<Rightarrow> nat) \<Rightarrow> 's webhook \<Rightarrow> AuthzOptions \<Rightarrow> 's \<Rightarrow> 's \<Rightarrow> bool"
  for R entry clock webhook opts where
  az_check: "check R webhook opts user s = (r, s') \<Longrightarrow> az_step R entry clock webhook opts s s'"
| az_evict: "evict R uid s = (ru, s') \<Longrightarrow> az_step R entry clock webhook opts s s'"
| az_evictAll: "evictAll R s = (ru, s') \<Longrightarrow> az_step R entry clock webhook opts s s'"
| az_other: "(\<And>g u. entry s' (key_decision g u) = entry s (key_decision g u)) \<Longrightarrow>
    entry s' key_gen = entry s key_gen \<Longrightarrow> clock s \<le> clock s' \<Longrightarrow> az_step R entry clock webhook opts s s'"

context redis_server begin

abbreviation from_gen :: "nat \<Rightarrow> 's \<Rightarrow> bool" where
  "from_gen n s \<equiv> gen_from n (entry s)"

lemmas stable_gen = stable_entry [of "gen_from n" for n]

lemma stable_gen_decision: "m \<le> n \<Longrightarrow> stable_upd (from_gen n) (key_decision (show_nat m) u) x"
  by (rule stable_upd_entry) (rule gen_from_decision)

text \<open>The generation read from the store, which later generations replace.\<close>

abbreviation gen_read :: "nat \<Rightarrow> str option \<Rightarrow> 's \<Rightarrow> bool" where
  "gen_read n g s \<equiv> (\<exists>m. read_gen g = show_nat m \<and> from_gen (max n m) s)"

lemma ensures_get_gen: "ensures (from_gen n) (rget R key_gen) (gen_read n) (from_gen n)"
proof (rule ensuresI)
  fix s e s'
  assume "from_gen n s" "rget R key_gen s = (Inl e, s')"
  then show "from_gen n s'" using get by metis
next
  fix s a s'
  assume P: "from_gen n s" and g: "rget R key_gen s = (Inr a, s')"
  have "entry s' = entry s" "read_gen a = show_nat (gen_no (entry s))"
    using get [OF g] read_gen_live P by (auto simp: gen_from_def)
  then show "gen_read n a s'" using P by (auto simp: gen_from_def)
qed

lemma ask_keeps: "webhook_fair entry clock webhook \<Longrightarrow> keeps (from_gen n) (ask webhook opts user)"
proof -
  assume "webhook_fair entry clock webhook"
  then have "from_gen n s'" if "from_gen n s" "webhook q s = (r, s')" for q s r s'
    using that unfolding webhook_fair_def gen_from_def by (meson le_trans)
  then have "keeps (from_gen n) (webhook q)" for q by (intro ensuresI)
  then show ?thesis unfolding ask_def by (intro io_rules) auto
qed

lemma ensures_gen_read:
  assumes "\<And>m. read_gen g = show_nat m \<Longrightarrow> keeps (from_gen (max n m)) k"
  shows "ensures (gen_read n g) k (\<lambda>_. from_gen n) (from_gen n)"
proof (rule ensuresI)
  fix s e s'
  assume "gen_read n g s" "k s = (Inl e, s')"
  then show "from_gen n s'" using keepsD [OF assms] gen_from_max by metis
next
  fix s a s'
  assume "gen_read n g s" "k s = (Inr a, s')"
  then show "from_gen n s'" using keepsD [OF assms] gen_from_max by metis
qed

lemma decide_keeps:
  "webhook_fair entry clock webhook \<Longrightarrow> m \<le> n \<Longrightarrow> keeps (from_gen n) (decide R webhook opts user (show_nat m))"
  unfolding decide_def by (intro io_rules keeps_set_ex ask_keeps stable_gen_decision) simp_all

lemma check_keeps:
  assumes "webhook_fair entry clock webhook"
  shows "keeps (from_gen n) (check R webhook opts user)"
proof -
  have "keeps (from_gen (max n m))
      (io_bind (rget R (key_decision (show_nat m) u)) (\<lambda>cached. case cached of
         Some v \<Rightarrow> io_return (read_cached v) | None \<Rightarrow> decide R webhook opts user (show_nat m)))" for m u
    by (intro io_rules keeps_get stable_gen decide_keeps [OF assms]) simp_all
  then show ?thesis
    unfolding check_def Let_def
    by (intro ensures_if ensures_bind [OF ensures_get_gen] ensures_gen_read ensures_return) simp_all
qed

lemma evict_keeps: "keeps (from_gen n) (evict R uid)"
proof -
  have "keeps (from_gen (max n m)) (rdel R (key_decision (show_nat m) uid))" for m
    by (intro keeps_del stable_gen_decision) simp
  then show ?thesis
    unfolding evict_def by (intro ensures_bind [OF ensures_get_gen] ensures_gen_read) simp
qed

lemma evictAll_next:
  assumes "evictAll R s = (ru, s')" "gen_inv (entry s)" "\<And>n. succ_text (show_nat n) = show_nat (Suc n)"
  shows "from_gen (gen_no (entry s)) s' \<and> clock s \<le> clock s' \<and> (\<forall>u. ru = Inr u \<longrightarrow> gen_no (entry s) < gen_no (entry s'))"
  using incr [of key_gen s ru s'] assms gen_inv_incremented [OF assms(2,3)] by (auto simp: evictAll_def gen_from_def)

lemma az_step_inv:
  assumes "az_step R entry clock webhook opts s s'" "webhook_fair entry clock webhook"
    "\<And>n. succ_text (show_nat n) = show_nat (Suc n)" "gen_inv (entry s)"
  shows "gen_inv (entry s')"
proof -
  have s: "from_gen 0 s" using assms(4) by (simp add: gen_from_def)
  from assms(1) have "from_gen 0 s'"
  proof cases
    case (az_check user r)
    from keepsD [OF check_keeps [OF assms(2)] s this] show ?thesis .
  next
    case (az_evict uid ru)
    from keepsD [OF evict_keeps s this] show ?thesis .
  next
    case (az_evictAll ru)
    then show ?thesis using evictAll_next [OF _ assms(4,3)] by (auto simp: gen_from_def)
  next
    case az_other
    then show ?thesis using assms(4) by (auto simp: gen_inv_def gen_no_def gen_from_def)
  qed
  then show ?thesis by (simp add: gen_from_def)
qed

lemma az_run_inv:
  assumes "rtranclp (az_step R entry clock webhook opts) s s'" "webhook_fair entry clock webhook"
    "\<And>n. succ_text (show_nat n) = show_nat (Suc n)" "gen_inv (entry s)"
  shows "gen_inv (entry s')"
  using assms by (induction rule: rtranclp_induct) (auto dest: az_step_inv)

text \<open>A check reads the generation and the decision filed under it.\<close>

lemma check_reads:
  assumes "check R webhook opts user s = (Inr d, s')" "enabled opts" "gen_inv (entry s)"
  shows "\<exists>s2. clock s \<le> clock s2 \<and> entry s2 = entry s \<and>
    (\<exists>t \<le> clock s2. clock s \<le> t \<and>
      (case live (entry s) t (key_decision (show_nat (gen_no (entry s))) (ac_uid user)) of
         Some v \<Rightarrow> d = read_cached v \<and> s' = s2
       | None \<Rightarrow> decide R webhook opts user (show_nat (gen_no (entry s))) s2 = (Inr d, s')))"
proof -
  let ?k = "key_decision (show_nat (gen_no (entry s))) (ac_uid user)"
  have "io_bind (rget R key_gen) (\<lambda>g. io_bind (rget R (key_decision (read_gen g) (ac_uid user))) (\<lambda>cached.
      case cached of Some v \<Rightarrow> io_return (read_cached v) | None \<Rightarrow> decide R webhook opts user (read_gen g))) s = (Inr d, s')"
    using assms(1,2) by (simp add: check_def Let_def)
  then obtain g s1 where g: "rget R key_gen s = (Inr g, s1)"
    and r: "io_bind (rget R (key_decision (read_gen g) (ac_uid user))) (\<lambda>cached.
      case cached of Some v \<Rightarrow> io_return (read_cached v) | None \<Rightarrow> decide R webhook opts user (read_gen g)) s1 = (Inr d, s')"
    unfolding io_bind_Inr [of "rget R key_gen"] by blast
  have s1: "entry s1 = entry s" "clock s \<le> clock s1" "read_gen g = show_nat (gen_no (entry s))"
    using get [OF g] read_gen_live [OF assms(3)] by auto
  from r [unfolded s1(3)] obtain v s2 where v: "rget R ?k s1 = (Inr v, s2)"
    and c: "(case v of Some v \<Rightarrow> io_return (read_cached v) | None \<Rightarrow> decide R webhook opts user (show_nat (gen_no (entry s)))) s2 = (Inr d, s')"
    unfolding io_bind_Inr [of "rget R k" for k] by blast
  have "entry s2 = entry s" "clock s1 \<le> clock s2" "v = live (entry s) (clock s1) ?k"
    using get [OF v] s1(1) by auto
  moreover from this c have "(case live (entry s) (clock s1) ?k of
         Some v \<Rightarrow> d = read_cached v \<and> s' = s2
       | None \<Rightarrow> decide R webhook opts user (show_nat (gen_no (entry s))) s2 = (Inr d, s'))"
    by (auto split: option.splits)
  ultimately show ?thesis using s1(2) by (intro exI [of _ s2] conjI exI [of _ "clock s1"]) auto
qed

lemma decide_cases:
  assumes "decide R webhook opts user gen s = (Inr d, s')"
  shows "\<exists>r t. ask webhook opts user s = (Inr r, t) \<and> d = (case r of None \<Rightarrow> denied_decision None | Some x \<Rightarrow> x) \<and>
    (r = None \<longrightarrow> s' = t) \<and>
    (r \<noteq> None \<longrightarrow> (\<exists>e. entry s' = (entry t)(key_decision gen (ac_uid user) := Some (cached_text d, e))) \<and> clock t \<le> clock s')"
proof -
  from assms obtain r t where a: "ask webhook opts user s = (Inr r, t)"
    and c: "(case r of None \<Rightarrow> io_return (denied_decision None)
      | Some d \<Rightarrow> io_bind (rset_ex R (key_decision gen (ac_uid user)) (cached_text d)
            (if dc_allowed d then ao_allowedTtl opts else ao_deniedTtl opts)) (\<lambda>_. io_return d)) t = (Inr d, s')"
    unfolding decide_def io_bind_Inr [of "ask webhook opts user"] by blast
  show ?thesis
  proof (cases r)
    case None
    then show ?thesis using a c by auto
  next
    case (Some x)
    then obtain u where u: "rset_ex R (key_decision gen (ac_uid user)) (cached_text x)
        (if dc_allowed x then ao_allowedTtl opts else ao_deniedTtl opts) t = (Inr u, s')" and "d = x"
      using c by (auto simp: io_bind_Inr)
    with set_ex [OF u] a Some show ?thesis by auto
  qed
qed

end

lemma ask_Some:
  assumes "ask webhook opts user s = (Inr (Some d), s')"
  shows "\<exists>reply. webhook (authz_request opts user) s = (Inr reply, s') \<and> webhook_decision reply = Some d"
  using assms by (auto simp: ask_def io_catch_def io_bind_def split: prod.splits sum.splits)

lemma webhook_decision_Some:
  assumes "webhook_decision reply = Some d"
  shows "\<exists>st ps. reply = (st, Some (JObj ps)) \<and> 200 \<le> st \<and> st \<le> 299 \<and> get_prop ps ''allowed'' = Some (JBool (dc_allowed d)) \<and>
    (if dc_allowed d then dc_reason d = None else dc_reason d = webhook_reason (JObj ps))"
  using assms by (cases reply) (auto simp: webhook_decision_def body_member_def split: if_splits option.splits json.splits)

lemma webhook_reason_not_Nil: "webhook_reason j \<noteq> Some []"
proof -
  have "js_take MAX_REASON r \<noteq> []" if "r \<noteq> []" for r
    using that by (cases r) (auto simp: js_units_def MAX_REASON_def)
  then show ?thesis by (auto simp: webhook_reason_def split: option.splits json.splits)
qed

text \<open>What is written to the cache is read back.\<close>

lemma read_cached_text:
  assumes "webhook_decision reply = Some d"
  shows "read_cached (cached_text d) = d"
proof -
  obtain j where j: "if dc_allowed d then dc_reason d = None else dc_reason d = webhook_reason j"
    using webhook_decision_Some [OF assms] by blast
  show ?thesis
  proof (cases "dc_reason d")
    case None
    then show ?thesis using j by (cases d) (simp add: cached_text_def read_cached_def)
  next
    case (Some r)
    then have "r \<noteq> []" using j webhook_reason_not_Nil [of j] by (auto split: if_splits)
    then show ?thesis using j Some by (cases d) (simp add: cached_text_def read_cached_def split: if_splits)
  qed
qed

lemma read_cached_allowed: "dc_allowed (read_cached v) \<longleftrightarrow> v = ''1''"
  by (simp add: read_cached_def)

lemma live_earlier: "live es t k = Some v \<Longrightarrow> t0 \<le> t \<Longrightarrow> live es t0 k = Some v"
  by (auto simp: live_def split: option.splits if_splits)

section \<open>Properties\<close>

text \<open>C8. Access fails closed: with a webhook, a request gets past \<open>requireAccess\<close> only when
  "allowed" is cached for its user in the current generation, or the webhook has just answered
  with a status of success and \<open>"allowed": true\<close>.\<close>

theorem access_fails_closed:
  assumes "redis_server R entry clock succ_text" "gen_inv (entry s)" "enabled opts"
    and "requireAccess R webhook opts claims s = (Inr (Inr sid), s')"
  shows "live (entry s) (clock s) (key_decision (show_nat (gen_no (entry s))) (ac_uid claims)) = Some ''1'' \<or>
    (\<exists>t t' st ps. webhook (authz_request opts claims) t = (Inr (st, Some (JObj ps)), t') \<and> 200 \<le> st \<and> st \<le> 299 \<and>
       get_prop ps ''allowed'' = Some (JBool True))"
proof -
  let ?k = "key_decision (show_nat (gen_no (entry s))) (ac_uid claims)"
  from assms(4) obtain d s1 where d: "check R webhook opts claims s = (Inr d, s1)" "dc_allowed d"
    by (auto simp: requireAccess_def io_catch_def io_bind_def split: prod.splits sum.splits if_splits)
  from redis_server.check_reads [OF assms(1) d(1) assms(3,2)] obtain s2 t where t: "clock s \<le> t"
    "case live (entry s) t ?k of Some v \<Rightarrow> d = read_cached v \<and> s1 = s2
       | None \<Rightarrow> decide R webhook opts claims (show_nat (gen_no (entry s))) s2 = (Inr d, s1)"
    by blast
  show ?thesis
  proof (cases "live (entry s) t ?k")
    case (Some v)
    then have "v = ''1''" using t(2) d(2) read_cached_allowed by simp
    then show ?thesis using live_earlier [OF _ t(1)] Some by blast
  next
    case None
    then have "decide R webhook opts claims (show_nat (gen_no (entry s))) s2 = (Inr d, s1)" using t(2) by simp
    from redis_server.decide_cases [OF assms(1) this] obtain r t' where
      r: "ask webhook opts claims s2 = (Inr r, t')" "d = (case r of None \<Rightarrow> denied_decision None | Some x \<Rightarrow> x)"
      by blast
    then obtain x where "r = Some x" "d = x" using d(2) by (cases r) auto
    with ask_Some r(1) webhook_decision_Some d(2) show ?thesis by metis
  qed
qed

definition yes_webhook :: "mem webhook" where
  "yes_webhook q m = (Inr (200, Some (JObj [(''allowed'', JBool True)])), m)"

definition no_webhook :: "mem webhook" where
  "no_webhook q m = (Inr (200, Some (JObj [(''allowed'', JBool False), (''reason'', JStr ''left'')])), m)"

definition some_options :: AuthzOptions where
  "some_options = \<lparr>ao_webhookUrl = ''http://authz'', ao_webhookToken = ''t'', ao_timeoutSeconds = 5, ao_allowedTtl = 60, ao_deniedTtl = 10\<rparr>"

lemma empty_gen_inv: "gen_inv (mem_entries empty_mem)"
  by (simp add: gen_inv_def empty_mem_def)

lemma enabled_some_options: "enabled some_options"
  by (simp add: enabled_def some_options_def)

theorem access_fails_closed_witness:
  "fst (requireAccess mem_redis yes_webhook some_options some_claims empty_mem) = Inr (Inr (watch_sid some_claims)) \<and>
   (\<exists>t t' st ps. yes_webhook (authz_request some_options some_claims) t = (Inr (st, Some (JObj ps)), t') \<and> 200 \<le> st \<and> st \<le> 299 \<and>
      get_prop ps ''allowed'' = Some (JBool True))"
proof -
  have f: "fst (requireAccess mem_redis yes_webhook some_options some_claims empty_mem) = Inr (Inr (watch_sid some_claims))"
    by code_simp
  have n: "(live (mem_entries empty_mem) (mem_clock empty_mem) k = Some v) = False" for k v
    by (simp add: empty_mem_def live_def)
  from access_fails_closed [OF mem.redis_server_axioms empty_gen_inv enabled_some_options run_eq [OF f], unfolded n simp_thms]
  show ?thesis using f by (intro conjI)
qed

text \<open>A decision is kept: while its entry lives, the next check of the user returns what the
  first one did, the reason included, and leaves the store alone.\<close>

theorem decision_cached:
  assumes "redis_server R entry clock succ_text" "gen_inv (entry s)" "enabled opts"
    and wh: "\<forall>q s. entry (snd (webhook q s)) = entry s \<and> clock s \<le> clock (snd (webhook q s))"
    and first: "check R webhook opts user s = (Inr d, s1)"
    and second: "check R webhook opts user s1 = (Inr d2, s2)"
    and lives: "live (entry s1) (clock s2) (key_decision (show_nat (gen_no (entry s))) (ac_uid user)) \<noteq> None"
  shows "d2 = d \<and> entry s2 = entry s1"
proof -
  let ?g = "show_nat (gen_no (entry s))"
  let ?k = "key_decision ?g (ac_uid user)"
  have ask: "entry t' = entry t \<and> clock t \<le> clock t'" if "ask webhook opts user t = (r, t')" for r t t'
    using that wh [rule_format, of "authz_request opts user" t]
    by (auto simp: ask_def io_catch_def io_bind_def split: prod.splits sum.splits)
  have later: "clock t \<le> clock t'" if "decide R webhook opts user g t = (Inr x, t')" for g x t t'
    using redis_server.decide_cases [OF assms(1) that] ask by (metis le_trans)
  from redis_server.check_reads [OF assms(1) first assms(3,2)] obtain sa t where
    a: "clock s \<le> clock sa" "entry sa = entry s" "t \<le> clock sa"
      "case live (entry s) t ?k of Some v \<Rightarrow> d = read_cached v \<and> s1 = sa
       | None \<Rightarrow> decide R webhook opts user ?g sa = (Inr d, s1)"
    by blast
  have left: "\<exists>v e. entry s1 ?k = Some (v, e) \<and> d = read_cached v \<and> gen_inv (entry s1) \<and> gen_no (entry s1) = gen_no (entry s)"
  proof (cases "live (entry s) t ?k")
    case (Some v)
    then show ?thesis using a assms(2) live_entry [OF Some] by auto
  next
    case None
    then have dec: "decide R webhook opts user ?g sa = (Inr d, s1)" using a(4) by simp
    from redis_server.decide_cases [OF assms(1) this] obtain r t' where
      r: "ask webhook opts user sa = (Inr r, t')" "d = (case r of None \<Rightarrow> denied_decision None | Some x \<Rightarrow> x)"
        "r = None \<longrightarrow> s1 = t'" "r \<noteq> None \<longrightarrow> (\<exists>e. entry s1 = (entry t')(?k := Some (cached_text d, e)))"
      by blast
    show ?thesis
    proof (cases r)
      case None
      then have "entry s1 = entry s" using r(1,3) ask a(2) by metis
      moreover have "clock s1 \<le> clock s2"
        using redis_server.check_reads [OF assms(1) second assms(3)] assms(2) \<open>entry s1 = entry s\<close> later
        by (auto split: option.splits) (metis le_trans)+
      moreover have "t \<le> clock s1" using a(3) later [OF dec] by simp
      ultimately have "live (entry s) (clock s2) ?k = None"
        using \<open>live (entry s) t ?k = None\<close> live_mono le_trans by metis
      then show ?thesis using lives \<open>entry s1 = entry s\<close> by simp
    next
      case (Some x)
      then obtain e where e: "entry s1 = (entry s)(?k := Some (cached_text d, e))" using r(1,4) ask a(2) by auto
      have "read_cached (cached_text d) = d" using r(1,2) Some ask_Some read_cached_text by fastforce
      then show ?thesis using e gen_inv_decision [OF assms(2) order_refl] by auto
    qed
  qed
  then obtain v e where v: "entry s1 ?k = Some (v, e)" "d = read_cached v" "gen_inv (entry s1)" "gen_no (entry s1) = gen_no (entry s)"
    by blast
  from redis_server.check_reads [OF assms(1) second assms(3) v(3)] obtain sb t where
    b: "entry sb = entry s1" "t \<le> clock sb"
      "case live (entry s1) t ?k of Some v \<Rightarrow> d2 = read_cached v \<and> s2 = sb
       | None \<Rightarrow> decide R webhook opts user ?g sb = (Inr d2, s2)"
    unfolding v(4) by blast
  show ?thesis
  proof (cases "live (entry s1) t ?k")
    case (Some w)
    then have "w = v" using v(1) live_entry by fastforce
    then show ?thesis using b Some v(2) by simp
  next
    case None
    then have "t \<le> clock s2" using b later by fastforce
    then show ?thesis using None lives live_mono by metis
  qed
qed

theorem decision_cached_witness:
  "fst (check mem_redis no_webhook some_options some_claims
      (snd (check mem_redis no_webhook some_options some_claims empty_mem))) = Inr (denied_decision (Some ''left'')) \<and>
   mem_entries (snd (check mem_redis no_webhook some_options some_claims
      (snd (check mem_redis no_webhook some_options some_claims empty_mem)))) =
   mem_entries (snd (check mem_redis no_webhook some_options some_claims empty_mem))"
proof -
  let ?m = "snd (check mem_redis no_webhook some_options some_claims empty_mem)"
  have f: "fst (check mem_redis no_webhook some_options some_claims empty_mem) = Inr (denied_decision (Some ''left''))"
    by code_simp
  have d: "fst (check mem_redis no_webhook some_options some_claims ?m) = Inr (denied_decision (Some ''left''))"
    by code_simp
  have l: "live (mem_entries ?m) (mem_clock (snd (check mem_redis no_webhook some_options some_claims ?m)))
      (key_decision (show_nat (gen_no (mem_entries empty_mem))) (ac_uid some_claims)) \<noteq> None"
    by code_simp
  have w: "\<forall>q m. mem_entries (snd (no_webhook q m)) = mem_entries m \<and> mem_clock m \<le> mem_clock (snd (no_webhook q m))"
    by (simp add: no_webhook_def)
  from decision_cached [OF mem.redis_server_axioms empty_gen_inv enabled_some_options w run_eq [OF f] run_eq [OF d] l] d
  show ?thesis by blast
qed

text \<open>\<open>evictAll\<close> takes effect at once: whatever happened to the store before, also while
  the webhook was being asked, the next check of any user asks the webhook again.\<close>

theorem evict_all_asks_again:
  assumes "redis_server R entry clock succ_text" "\<And>n. succ_text (show_nat n) = show_nat (Suc n)"
    and "webhook_fair entry clock webhook" "gen_inv (entry s0)" "rtranclp (az_step R entry clock webhook opts) s0 s"
    and "evictAll R s = (Inr u, s1)" "enabled opts" "check R webhook opts user s1 = (Inr d, s2)"
  shows "\<exists>r t t'. ask webhook opts user t = (Inr r, t') \<and> clock s1 \<le> clock t \<and>
    d = (case r of None \<Rightarrow> denied_decision None | Some x \<Rightarrow> x)"
proof -
  have inv: "gen_inv (entry s)" by (rule redis_server.az_run_inv [OF assms(1,5,3,2,4)])
  have g: "gen_no (entry s) < gen_no (entry s1)" "gen_inv (entry s1)"
    using redis_server.evictAll_next [OF assms(1,6) inv assms(2)] by (auto simp: gen_from_def)
  have e: "entry s1 = incremented succ_text (entry s) (clock s) key_gen"
    using redis_server.incr [OF assms(1)] assms(6) by (fastforce simp: evictAll_def)
  have "entry s1 (key_decision (show_nat (gen_no (entry s1))) (ac_uid user)) =
      entry s (key_decision (show_nat (gen_no (entry s1))) (ac_uid user))"
    unfolding e incremented_def by (auto split: option.splits)
  then have "entry s1 (key_decision (show_nat (gen_no (entry s1))) (ac_uid user)) = None"
    using inv g(1) by (simp add: gen_inv_def)
  then have n: "live (entry s1) t (key_decision (show_nat (gen_no (entry s1))) (ac_uid user)) = None" for t
    by (rule live_None_entry)
  from redis_server.check_reads [OF assms(1,8,7) g(2)] obtain sa where "clock s1 \<le> clock sa"
    "decide R webhook opts user (show_nat (gen_no (entry s1))) sa = (Inr d, s2)"
    unfolding n by auto
  then show ?thesis using redis_server.decide_cases [OF assms(1)] by metis
qed

theorem evict_all_asks_again_witness:
  "\<exists>r t t'. fst (check mem_redis no_webhook some_options some_claims
       (snd (evictAll mem_redis (snd (check mem_redis no_webhook some_options some_claims empty_mem))))) = Inr (denied_decision (Some ''left'')) \<and>
     ask no_webhook some_options some_claims t = (Inr r, t')"
proof -
  let ?m = "snd (check mem_redis no_webhook some_options some_claims empty_mem)"
  have f: "fst (check mem_redis no_webhook some_options some_claims empty_mem) = Inr (denied_decision (Some ''left''))"
    by code_simp
  have run: "rtranclp (az_step mem_redis mem_entries mem_clock no_webhook some_options) empty_mem ?m"
    using az_check [OF run_eq [OF f]] by blast
  have e: "fst (evictAll mem_redis ?m) = Inr ()" by code_simp
  have d: "fst (check mem_redis no_webhook some_options some_claims (snd (evictAll mem_redis ?m))) = Inr (denied_decision (Some ''left''))"
    by code_simp
  have w: "webhook_fair mem_entries mem_clock no_webhook" by (auto simp: webhook_fair_def no_webhook_def)
  have n: "next_number (show_nat n) = show_nat (Suc n)" for n by (simp add: next_number_def digits_value_show)
  from evict_all_asks_again [OF mem.redis_server_axioms n w empty_gen_inv run run_eq [OF e] enabled_some_options run_eq [OF d]] d
  show ?thesis by blast
qed

text \<open>The denials a watch reports, those it is told of, and the re-checks that end.\<close>

definition denials :: "watch_action list \<Rightarrow> Decision list" where
  "denials acts = concat (map (\<lambda>a. case a of OnDenied d \<Rightarrow> [d] | _ \<Rightarrow> []) acts)"

definition rechecks :: "watch_action list \<Rightarrow> nat" where
  "rechecks acts = length (filter (\<lambda>a. a = StartRecheck) acts)"

definition denied_results :: "watch_event list \<Rightarrow> Decision list" where
  "denied_results es =
     concat (map (\<lambda>e. case e of Rechecked (Inr d) \<Rightarrow> if dc_allowed d then [] else [d] | _ \<Rightarrow> []) es)"

definition ended_rechecks :: "watch_event list \<Rightarrow> nat" where
  "ended_rechecks es = length (filter (\<lambda>e. case e of Rechecked _ \<Rightarrow> True | _ \<Rightarrow> False) es)"

lemmas watch_defs = denials_def rechecks_def denied_results_def ended_rechecks_def

lemma watch_stopped: "watch_run w es acts w' \<Longrightarrow> wt_stopped w \<Longrightarrow> denials acts = []"
  by (induction rule: watch_run.induct) (auto simp: denials_def elim!: watch_stepE)

lemma watch_reports:
  "watch_run w es acts w' \<Longrightarrow> \<not> wt_stopped w \<Longrightarrow> denials acts = take 1 (denied_results (takeWhile (\<lambda>e. e \<noteq> Stop) es))"
proof (induction rule: watch_run.induct)
  case (watch_run_Cons w e out w' es acts w'')
  from watch_run_Cons.hyps(1) show ?case
  proof cases
    case (checked_denied d)
    then have "denials acts = []" using watch_stopped [OF watch_run_Cons.hyps(2)] by simp
    then show ?thesis using checked_denied by (simp add: denials_def denied_results_def)
  next
    case stop
    then have "denials acts = []" using watch_stopped [OF watch_run_Cons.hyps(2)] by simp
    then show ?thesis using stop by (simp add: denials_def denied_results_def)
  qed (use watch_run_Cons in \<open>auto simp: denials_def denied_results_def\<close>)
qed (simp add: denials_def denied_results_def)

lemma watch_one_at_a_time:
  "watch_run w es acts w' \<Longrightarrow>
    rechecks acts + (if wt_busy w then 1 else 0) = ended_rechecks es + (if wt_busy w' then 1 else 0)"
  by (induction rule: watch_run.induct) (auto simp: rechecks_def ended_rechecks_def elim!: watch_stepE)

text \<open>A watch reports the first denial that comes before it is stopped, once, and nothing
  after; and its re-checks never overlap: at most one is under way.\<close>

theorem watch_reports_once:
  assumes "watch_run watch_start es acts w"
  shows "denials acts = take 1 (denied_results (takeWhile (\<lambda>e. e \<noteq> Stop) es)) \<and>
    rechecks acts \<le> Suc (ended_rechecks es)"
  using watch_reports [OF assms] watch_one_at_a_time [OF assms] by (simp add: watch_start_def split: if_splits)

theorem watch_reports_once_witness:
  "\<exists>acts w. watch_run watch_start [Tick, Rechecked (Inl ''down''), Tick, Rechecked (Inr (denied_decision None))] acts w \<and>
     denials acts = [denied_decision None]"
proof -
  let ?b = "watch_start\<lparr>wt_busy := True\<rparr>" and ?d = "denied_decision None"
  have a: "watch_step watch_start Tick [StartRecheck] ?b"
    using watch_step.tick [of watch_start] by (simp add: watch_start_def)
  have b: "watch_step ?b (Rechecked (Inl ''down'')) [] watch_start"
    using check_failed [of ?b "''down''"] by (simp add: watch_start_def)
  have c: "watch_step ?b (Rechecked (Inr ?d)) [OnDenied ?d] (?b\<lparr>wt_stopped := True, wt_busy := False\<rparr>)"
    by (rule checked_denied) (simp_all add: watch_start_def)
  note run = watch_run_Cons [OF a watch_run_Cons [OF b watch_run_Cons [OF a watch_run_Cons [OF c watch_run_Nil]]]]
  show ?thesis
    using watch_reports_once [OF run] run by (auto simp: denied_results_def)
qed

text \<open>C22. Signing out ends open streams: once the session of a request has ended, every re-check of
  its stream that completes is a denial, which the watch reports if it has not been stopped.\<close>

theorem signed_out_stream_ends:
  assumes "redis_server R entry clock succ_text" "requireAccess R webhook opts claims s0 = (Inr (Inr sid), s0')"
    and "ac_sid claims = Some c" "c \<noteq> []" "ended c (entry s) (clock s)"
    and "recheck R webhook opts claims sid s = (Inr d, s')" "wt_busy w" "\<not> wt_stopped w"
  shows "watched opts sid \<and> \<not> dc_allowed d \<and> dc_reason d = Some SESSION_ENDED \<and>
    (\<exists>w'. watch_step w (Rechecked (Inr d)) [OnDenied d] w' \<and> wt_stopped w')"
proof -
  have sid: "sid = Some c"
    using assms(2-4) by (auto simp: requireAccess_def io_catch_def io_bind_def watch_sid_def split: prod.splits sum.splits if_splits)
  from assms(6) obtain b t where b: "sessionActive R c s = (Inr b, t)"
    and r: "(if \<not> b then io_return (denied_decision (Some SESSION_ENDED)) else if enabled opts then check R webhook opts claims
       else io_return allowed_decision) t = (Inr d, s')"
    unfolding recheck_def sid option.case io_bind_Inr [of "sessionActive R c"] by blast
  have "\<not> b" by (rule redis_server.sessionActive_ended [OF assms(1) b assms(5)])
  then have d: "d = denied_decision (Some SESSION_ENDED)" using r by simp
  have "watch_step w (Rechecked (Inr d)) [OnDenied d] (w\<lparr>wt_stopped := True, wt_busy := False\<rparr>)"
    by (rule checked_denied) (use assms(7,8) d in simp_all)
  moreover have "wt_stopped (w\<lparr>wt_stopped := True, wt_busy := False\<rparr>)" by simp
  ultimately show ?thesis using d sid by (auto simp: watched_def)
qed

definition session_claims :: AccessClaims where
  "session_claims = some_claims\<lparr>ac_sid := Some ''c''\<rparr>"

theorem signed_out_stream_ends_witness:
  "fst (recheck mem_redis yes_webhook some_options session_claims (Some ''c'') empty_mem) = Inr (denied_decision (Some SESSION_ENDED)) \<and>
   (\<exists>w'. watch_step \<lparr>wt_stopped = False, wt_busy = True\<rparr> (Rechecked (Inr (denied_decision (Some SESSION_ENDED))))
      [OnDenied (denied_decision (Some SESSION_ENDED))] w' \<and> wt_stopped w')"
proof -
  have a: "fst (requireAccess mem_redis yes_webhook some_options session_claims empty_mem) = Inr (Inr (Some ''c''))"
    by code_simp
  have r: "fst (recheck mem_redis yes_webhook some_options session_claims (Some ''c'') empty_mem) = Inr (denied_decision (Some SESSION_ENDED))"
    by code_simp
  have e: "ended ''c'' (mem_entries empty_mem) (mem_clock empty_mem)" by (simp add: gone_def live_def empty_mem_def)
  have c: "ac_sid session_claims = Some ''c''" by (simp add: session_claims_def)
  from signed_out_stream_ends [OF mem.redis_server_axioms run_eq [OF a] c _ e run_eq [OF r], of "\<lparr>wt_stopped = False, wt_busy = True\<rparr>"] r
  show ?thesis by simp
qed

text \<open>The admin routes change nothing for a caller without the admin token, and do not exist
  when none is configured.\<close>

theorem admin_needs_token:
  assumes "adminRoutes R adminToken hs route s = (r, s')" "s' \<noteq> s"
  shows "adminToken \<noteq> [] \<and>
    (\<exists>h. header_get ''authorization'' hs = Some h \<and> startsWith h ''Bearer '' \<and> trim (drop 7 h) = adminToken)"
  using assms by (auto simp: adminRoutes_def tokenMatches_def split: if_splits option.splits)

theorem admin_needs_token_witness:
  "snd (adminRoutes mem_redis ''adm'' [(''authorization'', ''Bearer adm'')] EvictEveryone empty_mem) \<noteq> empty_mem \<and>
   (\<exists>h. header_get ''authorization'' [(''authorization'', ''Bearer adm'')] = Some h \<and> startsWith h ''Bearer '' \<and> trim (drop 7 h) = ''adm'')"
proof -
  have "mem_entries (snd (adminRoutes mem_redis ''adm'' [(''authorization'', ''Bearer adm'')] EvictEveryone empty_mem)) key_gen = Some (''1'', None)"
    by code_simp
  then have n: "snd (adminRoutes mem_redis ''adm'' [(''authorization'', ''Bearer adm'')] EvictEveryone empty_mem) \<noteq> empty_mem"
    by (auto simp: empty_mem_def)
  from admin_needs_token [OF prod.collapse [symmetric] n] n show ?thesis by blast
qed

end
