(* ===== verification/Auth.thy ===== *)
theory Auth
  imports TokenStore Settings Origins Http
begin

text \<open>
  \<open>api/src/auth.ts\<close> and \<open>api/src/oidc.ts\<close>: who the caller is, and how one signs in.
  The identity provider is a parameter: \<open>ad_fetch\<close> posts to its token endpoint (it throws,
  or returns a status and the JSON of the body, \<open>None\<close> when the body is no JSON),
  \<open>ad_verify\<close> is \<open>jose.jwtVerify\<close> for an audience. An error that no handler
  catches is \<open>Inl\<close> (the framework answers 500).
\<close>

section \<open>Requests and replies\<close>

record auth_request =
  aq_headers :: headers
  aq_query :: "str \<Rightarrow> str option"
  aq_cookies :: "str \<Rightarrow> str option"
  aq_json :: "json option"

record cookie =
  ck_name :: str
  ck_value :: "str option"
  ck_path :: str
  ck_maxAge :: nat
  ck_httpOnly :: bool
  ck_sameSite :: str
  ck_secure :: bool

datatype auth_reply = Reply response | Redirect str "cookie list"

definition plain_error :: "nat \<Rightarrow> str \<Rightarrow> auth_reply" where
  "plain_error status text = Reply (TextReply status text)"

definition json_error :: "nat \<Rightarrow> str \<Rightarrow> auth_reply" where
  "json_error status e = Reply (JsonReply status (JObj [(''error'', JStr e)]))"

section \<open>Bearer tokens\<close>

definition nonempty :: "str \<Rightarrow> str option" where
  "nonempty s = (if s = [] then None else Some s)"

definition bearerToken :: "headers \<Rightarrow> (str \<Rightarrow> str option) \<Rightarrow> str option" where
  "bearerToken hs query =
     (let header = (case header_get ''authorization'' hs of None \<Rightarrow> [] | Some h \<Rightarrow> h)
      in if startsWith header ''Bearer '' then nonempty (trim (drop 7 header))
         else if lower (case header_get ''upgrade'' hs of None \<Rightarrow> [] | Some h \<Rightarrow> h) = ''websocket'' then query ''access_token''
         else None)"

definition unauthorized_reply :: response where
  "unauthorized_reply = JsonReply 401 (JObj [(''error'', JStr ''unauthorized'')])"

text \<open>The reply, or the token and the claims the handlers find in the context.\<close>

definition authMiddleware ::
  "(str \<Rightarrow> str \<Rightarrow> str) \<Rightarrow> str \<Rightarrow> nat \<Rightarrow> headers \<Rightarrow> (str \<Rightarrow> str option) \<Rightarrow> str + (response + str \<times> AccessClaims)" where
  "authMiddleware hmac secret now hs query =
     (case bearerToken hs query of
        None \<Rightarrow> Inr (Inl unauthorized_reply)
      | Some token \<Rightarrow>
          if token = [] then Inr (Inl unauthorized_reply)
          else case verifyAccessToken hmac token secret now of
            Inl e \<Rightarrow> Inl e
          | Inr None \<Rightarrow> Inr (Inl unauthorized_reply)
          | Inr (Some claims) \<Rightarrow> Inr (Inr (token, claims)))"

section \<open>Bodies and users\<close>

definition readBody :: "json option \<Rightarrow> (str \<times> json) list" where
  "readBody body = (case body of Some (JObj ps) \<Rightarrow> ps | _ \<Rightarrow> [])"

definition stringField :: "(str \<times> json) list \<Rightarrow> str \<Rightarrow> str option" where
  "stringField body field = (case get_prop body field of Some (JStr v) \<Rightarrow> nonempty v | _ \<Rightarrow> None)"

definition readField :: "json option \<Rightarrow> str \<Rightarrow> str option" where
  "readField body field = stringField (readBody body) field"

definition string_or_empty :: "json option \<Rightarrow> json" where
  "string_or_empty v = (case v of Some (JStr s) \<Rightarrow> JStr s | _ \<Rightarrow> JStr [])"

definition userFromIdToken :: "(str \<times> json) list \<Rightarrow> str \<Rightarrow> AccessClaims option" where
  "userFromIdToken idClaims userClaim =
     (case get_prop idClaims userClaim of
        Some (JStr uid) \<Rightarrow>
          if uid = [] then None
          else Some \<lparr>ac_uid = uid, ac_email = string_or_empty (get_prop idClaims ''email''),
                     ac_name = string_or_empty (get_prop idClaims ''name''), ac_sid = None\<rparr>
      | _ \<Rightarrow> None)"

section \<open>The identity provider\<close>

record OIDCDiscovery =
  od_authorization_endpoint :: str
  od_token_endpoint :: str
  od_jwks_uri :: str
  od_issuer :: str

text \<open>The overrides that are not empty replace what the provider publishes.\<close>

definition override :: "str \<Rightarrow> str \<Rightarrow> str" where
  "override value published = (if value \<noteq> [] then value else published)"

definition with_overrides :: "OIDCDiscovery \<Rightarrow> OIDCDiscovery \<Rightarrow> OIDCDiscovery" where
  "with_overrides overrides d =
     \<lparr>od_authorization_endpoint = override (od_authorization_endpoint overrides) (od_authorization_endpoint d),
      od_token_endpoint = override (od_token_endpoint overrides) (od_token_endpoint d),
      od_jwks_uri = override (od_jwks_uri overrides) (od_jwks_uri d),
      od_issuer = override (od_issuer overrides) (od_issuer d)\<rparr>"

text \<open>
  The retry loop: \<open>attempt i\<close> is the i-th request, its status, text and document, or the error
  of a request that failed.
\<close>

function discover_from ::
  "(nat \<Rightarrow> str + nat \<times> str \<times> OIDCDiscovery) \<Rightarrow> OIDCDiscovery \<Rightarrow> nat \<Rightarrow> nat \<Rightarrow> str \<Rightarrow> str + OIDCDiscovery" where
  "discover_from attempt overrides maxRetries i lastErr =
     (if i > maxRetries then Inl (''OIDC discovery failed after '' @ show_nat maxRetries @ '' attempts: '' @ lastErr)
      else case attempt i of
        Inl e \<Rightarrow> discover_from attempt overrides maxRetries (Suc i) e
      | Inr (status, text, d) \<Rightarrow>
          if status < 200 \<or> 299 < status
          then discover_from attempt overrides maxRetries (Suc i) (''OIDC discovery: '' @ show_nat status @ '' '' @ text)
          else Inr (with_overrides overrides d))"
  by pat_completeness auto
termination
  by (relation "measure (\<lambda>(attempt, overrides, maxRetries, i, lastErr). Suc maxRetries - i)") auto

declare discover_from.simps [simp del]

definition discoverOIDC ::
  "(nat \<Rightarrow> str + nat \<times> str \<times> OIDCDiscovery) \<Rightarrow> OIDCDiscovery \<Rightarrow> nat \<Rightarrow> str + OIDCDiscovery" where
  "discoverOIDC attempt overrides maxRetries = discover_from attempt overrides maxRetries 1 ''undefined''"

record token_request =
  tk_url :: str
  tk_form :: "(str \<times> str) list"

record 's auth_deps =
  ad_config :: Config
  ad_discovery :: OIDCDiscovery
  ad_redis :: "'s redis"
  ad_codeTtl :: nat
  ad_sha256 :: "str \<Rightarrow> str"
  ad_hmac :: "str \<Rightarrow> str \<Rightarrow> str"
  ad_host :: host_of
  ad_isAllowed :: "str \<Rightarrow> bool"
  ad_fetch :: "token_request \<Rightarrow> ('s, nat \<times> json option) io"
  ad_verify :: "str \<Rightarrow> str \<Rightarrow> str + (str \<times> json) list"

definition tokenResponse :: "'s auth_deps \<Rightarrow> nat \<Rightarrow> AccessClaims \<Rightarrow> str \<Rightarrow> auth_reply" where
  "tokenResponse D now claims refreshToken =
     (let config = ad_config D
      in Reply (JsonReply 200 (JObj
        [(''access_token'', JStr (signAccessToken (ad_hmac D) claims (cf_tokenSecret config) (cf_accessTokenTtl config) now)),
         (''refresh_token'', JStr refreshToken),
         (''expires_in'', JNum (int (cf_accessTokenTtl config)) 0)])))"

section \<open>The sign-in routes\<close>

definition cli_config :: "'s auth_deps \<Rightarrow> auth_reply" where
  "cli_config D =
     Reply (JsonReply 200 (JObj
       ([(''issuer'', JStr (od_issuer (ad_discovery D)))] @
        (if cf_oidcCliClientId (ad_config D) \<noteq> [] then [(''clientId'', JStr (cf_oidcCliClientId (ad_config D)))] else []) @
        (if cf_oidcAuthorizationEndpoint (ad_config D) \<noteq> []
         then [(''authorizationEndpoint'', JStr (cf_oidcAuthorizationEndpoint (ad_config D)))] else []))))"

definition app_config :: "'s auth_deps \<Rightarrow> auth_reply" where
  "app_config D =
     (if cf_oidcAppClientId (ad_config D) = [] then json_error 404 ''not_found''
      else Reply (JsonReply 200 (JObj
        ([(''authorizationEndpoint'', JStr (od_authorization_endpoint (ad_discovery D))),
          (''clientId'', JStr (cf_oidcAppClientId (ad_config D))), (''redirectUri'', JStr APP_REDIRECT_URI)] @
         (if cf_appLoginPrompt (ad_config D) \<noteq> [] then [(''prompt'', JStr (cf_appLoginPrompt (ad_config D)))] else [])))))"

text \<open>A handler behind \<open>requireClientProtocol\<close>.\<close>

definition behind_protocol :: "auth_request \<Rightarrow> ('s, auth_reply) io \<Rightarrow> ('s, auth_reply) io" where
  "behind_protocol q m = (case requireClientProtocol (aq_headers q) of Some r \<Rightarrow> io_return (Reply r) | None \<Rightarrow> m)"

definition ok_status :: "nat \<Rightarrow> bool" where
  "ok_status status \<longleftrightarrow> 200 \<le> status \<and> status \<le> 299"

text \<open>\<open>verifyToken\<close> of a value that need not be a string.\<close>

definition verifyToken :: "'s auth_deps \<Rightarrow> json \<Rightarrow> str \<Rightarrow> (str \<times> json) list option" where
  "verifyToken D idToken audience =
     (case idToken of
        JStr t \<Rightarrow> (case ad_verify D t audience of Inl e \<Rightarrow> None | Inr claims \<Rightarrow> Some claims)
      | _ \<Rightarrow> None)"

text \<open>The member of a body that is an object; reading it from \<open>null\<close> throws.\<close>

definition id_token_of :: "json \<Rightarrow> str + json option" where
  "id_token_of body = (case body of JNull \<Rightarrow> Inl ''TypeError'' | JObj ps \<Rightarrow> Inr (get_prop ps ''id_token'') | _ \<Rightarrow> Inr None)"

definition json_falsy :: "json option \<Rightarrow> bool" where
  "json_falsy v \<longleftrightarrow>
     (case v of None \<Rightarrow> True | Some j \<Rightarrow> (case j of JNull \<Rightarrow> True | JBool b \<Rightarrow> \<not> b | JNum m e \<Rightarrow> m = 0 | JStr s \<Rightarrow> s = [] | _ \<Rightarrow> False))"

definition unavailable :: auth_reply where
  "unavailable = json_error 503 ''unavailable''"

text \<open>The session of a user whose ID token has been verified, and the answer.\<close>

definition sign_in :: "'s auth_deps \<Rightarrow> nat \<Rightarrow> str \<Rightarrow> str \<Rightarrow> AccessClaims \<Rightarrow> ('s, auth_reply) io" where
  "sign_in D now rnd rnd' claims =
     io_bind (createChain (ad_redis D) (ad_sha256 D) (cf_sessionTtl (ad_config D)) claims rnd rnd') (\<lambda>session.
       io_return (tokenResponse D now (snd session) (fst session)))"

definition app_token_claims :: "'s auth_deps \<Rightarrow> str \<Rightarrow> nat \<times> json option \<Rightarrow> str + AccessClaims option" where
  "app_token_claims D nonce res =
     (if \<not> ok_status (fst res) then Inr None
      else andThen (id_token_of (case snd res of None \<Rightarrow> JObj [] | Some j \<Rightarrow> j)) (\<lambda>idToken.
        Inr (case idToken of
          Some (JStr t) \<Rightarrow>
            if t = [] then None
            else Option.bind (verifyToken D (JStr t) (cf_oidcAppClientId (ad_config D))) (\<lambda>idClaims.
              if get_prop idClaims ''nonce'' \<noteq> Some (JStr nonce) then None
              else userFromIdToken idClaims (cf_oidcUserClaim (ad_config D)))
        | _ \<Rightarrow> None)))"

definition app_finish :: "'s auth_deps \<Rightarrow> nat \<Rightarrow> str \<Rightarrow> str \<Rightarrow> str \<Rightarrow> (nat \<times> json option) option \<Rightarrow> ('s, auth_reply) io" where
  "app_finish D now rnd rnd' nonce tokenRes =
     (case tokenRes of
        None \<Rightarrow> io_return unavailable
      | Some res \<Rightarrow>
          io_bind (io_lift (app_token_claims D nonce res)) (\<lambda>claims.
            case claims of
              None \<Rightarrow> io_return (json_error 400 ''invalid_grant'')
            | Some cl \<Rightarrow> io_catch (sign_in D now rnd rnd' cl) (io_return unavailable)))"

definition app_token :: "'s auth_deps \<Rightarrow> auth_request \<Rightarrow> nat \<Rightarrow> str \<Rightarrow> str \<Rightarrow> ('s, auth_reply) io" where
  "app_token D q now rnd rnd' =
     behind_protocol q
       (if cf_oidcAppClientId (ad_config D) = [] then io_return (json_error 404 ''not_found'')
        else
          let body = readBody (aq_json q)
          in case (stringField body ''code'', stringField body ''code_verifier'', stringField body ''nonce'') of
               (Some code, Some verifier, Some nonce) \<Rightarrow>
                 io_bind (io_catch (io_bind (ad_fetch D
                     \<lparr>tk_url = od_token_endpoint (ad_discovery D),
                      tk_form = [(''grant_type'', ''authorization_code''), (''client_id'', cf_oidcAppClientId (ad_config D)),
                        (''code'', code), (''code_verifier'', verifier), (''redirect_uri'', APP_REDIRECT_URI)]\<rparr>)
                   (\<lambda>res. io_return (Some res))) (io_return None)) (app_finish D now rnd rnd' nonce)
             | _ \<Rightarrow> io_return (json_error 400 ''invalid_grant''))"

definition auth_cookie :: "'s auth_deps \<Rightarrow> str \<Rightarrow> str \<Rightarrow> cookie" where
  "auth_cookie D name v =
     \<lparr>ck_name = name, ck_value = Some v, ck_path = ''/auth'', ck_maxAge = 300, ck_httpOnly = True, ck_sameSite = ''Lax'',
      ck_secure = cf_secureCookies (ad_config D)\<rparr>"

definition dropped_cookie :: "str \<Rightarrow> cookie" where
  "dropped_cookie name =
     \<lparr>ck_name = name, ck_value = None, ck_path = ''/auth'', ck_maxAge = 0, ck_httpOnly = False, ck_sameSite = [], ck_secure = False\<rparr>"

definition start :: "'s auth_deps \<Rightarrow> auth_request \<Rightarrow> str \<Rightarrow> auth_reply" where
  "start D q rnd =
     (case validateReturnTo (ad_host D) (aq_query q ''return_to'') (ad_isAllowed D) of
        None \<Rightarrow> json_error 400 ''invalid return_to''
      | Some returnTo \<Rightarrow>
          if returnTo = [] then json_error 400 ''invalid return_to''
          else case aq_query q ''code_challenge'' of
            None \<Rightarrow> json_error 400 ''invalid_request''
          | Some challenge \<Rightarrow>
              if \<not> isCodeChallenge (Some (JStr challenge)) then json_error 400 ''invalid_request''
              else
                let state = randomToken rnd;
                    params = [(''response_type'', ''code''), (''client_id'', cf_oidcClientId (ad_config D)),
                      (''redirect_uri'', cf_oidcRedirectUri (ad_config D)), (''scope'', ''openid email profile''), (''state'', state)]
                in Redirect (od_authorization_endpoint (ad_discovery D) @ ''?'' @ form_serialize params)
                     [auth_cookie D ''orc_state'' state, auth_cookie D ''orc_return'' returnTo, auth_cookie D ''orc_challenge'' challenge])"

definition callback_form :: "'s auth_deps \<Rightarrow> str \<Rightarrow> (str \<times> str) list" where
  "callback_form D code =
     [(''grant_type'', ''authorization_code''), (''client_id'', cf_oidcClientId (ad_config D)), (''code'', code),
      (''redirect_uri'', cf_oidcRedirectUri (ad_config D))] @
     (if cf_oidcClientSecret (ad_config D) \<noteq> [] then [(''client_secret'', cf_oidcClientSecret (ad_config D))] else [])"

text \<open>The user the token endpoint's answer is about, or the reply.\<close>

definition callback_user :: "'s auth_deps \<Rightarrow> nat \<times> json option \<Rightarrow> str + (auth_reply + AccessClaims)" where
  "callback_user D res =
     (if \<not> ok_status (fst res) then Inr (Inl (plain_error 401 ''authentication failed''))
      else case snd res of
        None \<Rightarrow> Inl ''SyntaxError''
      | Some j \<Rightarrow>
          andThen (id_token_of j) (\<lambda>idToken.
            Inr (if json_falsy idToken then Inl (plain_error 401 ''no id_token in response'')
              else case Option.bind (verifyToken D (the idToken) (cf_oidcClientId (ad_config D)))
                          (\<lambda>idClaims. userFromIdToken idClaims (cf_oidcUserClaim (ad_config D))) of
                     None \<Rightarrow> Inl (plain_error 401 ''invalid id_token'')
                   | Some claims \<Rightarrow> Inr claims)))"

text \<open>The login code of the user, and the way back.\<close>

definition callback_reply :: "'s auth_deps \<Rightarrow> str \<Rightarrow> str \<Rightarrow> str \<Rightarrow> auth_reply + AccessClaims \<Rightarrow> ('s, auth_reply) io" where
  "callback_reply D returnTo challenge rnd user =
     (case user of
        Inl reply \<Rightarrow> io_return reply
      | Inr claims \<Rightarrow>
          io_catch (io_bind (createCode (ad_redis D) (ad_codeTtl D) claims challenge rnd) (\<lambda>loginCode.
            io_return (Redirect (returnTo @ ''#code='' @ encodeURIComponent loginCode)
              [dropped_cookie ''orc_state'', dropped_cookie ''orc_return'', dropped_cookie ''orc_challenge''])))
            (io_return unavailable))"

definition callback :: "'s auth_deps \<Rightarrow> auth_request \<Rightarrow> str \<Rightarrow> ('s, auth_reply) io" where
  "callback D q rnd =
     (let stateCookie = aq_cookies q ''orc_state''; stateParam = aq_query q ''state''
      in if \<not> truthy stateCookie \<or> stateCookie \<noteq> stateParam then io_return (plain_error 400 ''invalid state'')
         else
           let returnTo = (case validateReturnTo (ad_host D) (aq_cookies q ''orc_return'') (ad_isAllowed D) of
                             None \<Rightarrow> ''/'' | Some r \<Rightarrow> r)
           in case aq_cookies q ''orc_challenge'' of
                None \<Rightarrow> io_return (plain_error 400 ''missing code challenge'')
              | Some challenge \<Rightarrow>
                  if \<not> isCodeChallenge (Some (JStr challenge)) then io_return (plain_error 400 ''missing code challenge'')
                  else if \<not> truthy (aq_query q ''code'') then io_return (plain_error 400 ''missing code'')
                  else
                    io_bind (ad_fetch D \<lparr>tk_url = od_token_endpoint (ad_discovery D),
                        tk_form = callback_form D (the (aq_query q ''code''))\<rparr>) (\<lambda>res.
                    io_bind (io_lift (callback_user D res)) (callback_reply D returnTo challenge rnd)))"

text \<open>The code is consumed before the verifier is checked.\<close>

definition token_route :: "'s auth_deps \<Rightarrow> auth_request \<Rightarrow> nat \<Rightarrow> str \<Rightarrow> str \<Rightarrow> ('s, auth_reply) io" where
  "token_route D q now rnd rnd' =
     behind_protocol q
       (let body = readBody (aq_json q)
        in case stringField body ''code'' of
             None \<Rightarrow> io_return (json_error 400 ''invalid_grant'')
           | Some code \<Rightarrow>
               io_catch
                 (io_bind (consumeCode (ad_redis D) code) (\<lambda>r.
                    case r of
                      None \<Rightarrow> io_return (json_error 400 ''invalid_grant'')
                    | Some lc \<Rightarrow>
                        if \<not> verifyCodeVerifier (ad_sha256 D) (stringField body ''code_verifier'') (lc_challenge lc)
                        then io_return (json_error 400 ''invalid_grant'')
                        else sign_in D now rnd rnd' (lc_claims lc)))
                 (io_return unavailable))"

definition refresh_route :: "'s auth_deps \<Rightarrow> auth_request \<Rightarrow> nat \<Rightarrow> str \<Rightarrow> ('s, auth_reply) io" where
  "refresh_route D q now rnd =
     behind_protocol q
       (case readField (aq_json q) ''refresh_token'' of
          None \<Rightarrow> io_return (json_error 401 ''invalid_grant'')
        | Some refreshToken \<Rightarrow>
            io_catch
              (io_bind (rotate (ad_redis D) (ad_sha256 D) refreshToken rnd) (\<lambda>result.
                 io_return (case result of
                   NotRotated \<Rightarrow> json_error 401 ''invalid_grant''
                 | Rotated t claims \<Rightarrow> tokenResponse D now claims t)))
              (io_return unavailable))"

definition logout_route :: "'s auth_deps \<Rightarrow> auth_request \<Rightarrow> ('s, auth_reply) io" where
  "logout_route D q =
     (case readField (aq_json q) ''refresh_token'' of
        None \<Rightarrow> io_return (Reply (TextReply 204 []))
      | Some refreshToken \<Rightarrow>
          io_bind (io_catch (revoke (ad_redis D) (ad_sha256 D) refreshToken) (io_return ())) (\<lambda>_.
          io_return (Reply (TextReply 204 []))))"

section \<open>What the routes do\<close>

lemma io_bind_fail: "m s = (Inl e, t) \<Longrightarrow> io_bind m f s = (Inl e, t)"
  by (simp add: io_bind_def)

lemma io_bind_step: "m s = (Inr a, t) \<Longrightarrow> io_bind m f s = f a t"
  by (simp add: io_bind_def)

lemma io_catch_Inr: "io_catch m h s = (Inr a, s') \<longleftrightarrow> m s = (Inr a, s') \<or> (\<exists>e t. m s = (Inl e, t) \<and> h t = (Inr a, s'))"
  by (auto simp: io_catch_def split: prod.splits sum.splits)

lemma nonempty_Some: "nonempty s = Some t \<longleftrightarrow> s = t \<and> t \<noteq> []"
  by (auto simp: nonempty_def)

lemma unavailable_not_200: "unavailable \<noteq> Reply (JsonReply 200 j)" "json_error st e = Reply (JsonReply st' j) \<Longrightarrow> st = st'"
  by (simp_all add: unavailable_def json_error_def)

lemma plain_error_not_Redirect [simp]: "plain_error st t \<noteq> Redirect u c" "json_error st t \<noteq> Redirect u c" "unavailable \<noteq> Redirect u c"
  "Redirect u c \<noteq> plain_error st t" "Redirect u c \<noteq> json_error st t" "Redirect u c \<noteq> unavailable"
  by (simp_all add: plain_error_def json_error_def unavailable_def)

lemma encodeURIComponent_b64: "list_all b64_alphabet s \<Longrightarrow> encodeURIComponent s = s"
  by (induction s) (auto simp: encodeURIComponent_def component_plain_def b64_alphabet_def)

lemma encode_randomToken [simp]: "encodeURIComponent (randomToken rnd) = randomToken rnd"
  by (simp add: encodeURIComponent_b64 randomToken_def b64_encode_alphabet)

lemma callback_user_Inr:
  assumes "callback_user D res = Inr (Inr claims)"
  shows "\<exists>t idClaims. ad_verify D t (cf_oidcClientId (ad_config D)) = Inr idClaims \<and>
    userFromIdToken idClaims (cf_oidcUserClaim (ad_config D)) = Some claims"
  using assms
  by (auto simp: callback_user_def verifyToken_def andThen_eq_Inr split: if_splits option.splits json.splits sum.splits
      simp: bind_eq_Some_conv)

lemma callback_user_not_Redirect: "callback_user D res \<noteq> Inr (Inl (Redirect u c))"
  by (auto simp: callback_user_def andThen_eq_Inr split: if_splits option.splits)

lemma callback_redirect:
  assumes "callback D q rnd s = (Inr (Redirect url cookies), s')"
  shows "\<exists>state ch ret res t claims.
    aq_cookies q ''orc_state'' = Some state \<and> state \<noteq> [] \<and> aq_query q ''state'' = Some state \<and>
    aq_cookies q ''orc_challenge'' = Some ch \<and> isCodeChallenge (Some (JStr ch)) \<and>
    (ret = ''/'' \<or> validateReturnTo (ad_host D) (aq_cookies q ''orc_return'') (ad_isAllowed D) = Some ret) \<and>
    url = ret @ ''#code='' @ randomToken rnd \<and> callback_user D res = Inr (Inr claims) \<and>
    createCode (ad_redis D) (ad_codeTtl D) claims ch rnd t = (Inr (randomToken rnd), s')"
proof -
  let ?ret = "case validateReturnTo (ad_host D) (aq_cookies q ''orc_return'') (ad_isAllowed D) of None \<Rightarrow> ''/'' | Some r \<Rightarrow> r"
  from assms obtain state where st: "aq_cookies q ''orc_state'' = Some state" "state \<noteq> []" "aq_query q ''state'' = Some state"
    by (auto simp: callback_def Let_def truthy_def split: if_splits)
  from assms st obtain ch where ch: "aq_cookies q ''orc_challenge'' = Some ch" "isCodeChallenge (Some (JStr ch))"
    by (auto simp: callback_def Let_def truthy_def split: option.splits if_splits)
  from assms st ch have "io_bind (ad_fetch D \<lparr>tk_url = od_token_endpoint (ad_discovery D),
        tk_form = callback_form D (the (aq_query q ''code''))\<rparr>) (\<lambda>res.
      io_bind (io_lift (callback_user D res)) (callback_reply D ?ret ch rnd)) s = (Inr (Redirect url cookies), s')"
    by (simp add: callback_def Let_def truthy_def split: if_splits)
  then obtain res t user where u: "callback_user D res = Inr user" "callback_reply D ?ret ch rnd user t = (Inr (Redirect url cookies), s')"
    unfolding io_bind_Inr io_lift_eq by metis
  then obtain claims where cl: "user = Inr claims" using callback_user_not_Redirect [of D res] by (cases user) (auto simp: callback_reply_def)
  with u(2) obtain code where code: "createCode (ad_redis D) (ad_codeTtl D) claims ch rnd t = (Inr code, s')"
    "url = ?ret @ ''#code='' @ encodeURIComponent code"
    by (auto simp: callback_reply_def io_catch_Inr io_bind_Inr)
  have "code = randomToken rnd" using code(1) by (auto simp: createCode_def Let_def io_bind_Inr)
  then show ?thesis using st ch u(1) cl code by (intro exI conjI) (auto split: option.split)
qed

lemma token_route_200:
  assumes "token_route D q now rnd rnd' s = (Inr (Reply (JsonReply 200 j)), s')"
  shows "\<exists>code lc t rt cl. stringField (readBody (aq_json q)) ''code'' = Some code \<and>
    consumeCode (ad_redis D) code s = (Inr (Some lc), t) \<and>
    verifyCodeVerifier (ad_sha256 D) (stringField (readBody (aq_json q)) ''code_verifier'') (lc_challenge lc) \<and>
    createChain (ad_redis D) (ad_sha256 D) (cf_sessionTtl (ad_config D)) (lc_claims lc) rnd rnd' t = (Inr (rt, cl), s') \<and>
    Reply (JsonReply 200 j) = tokenResponse D now cl rt"
  using assms
  by (auto simp: token_route_def behind_protocol_def requireClientProtocol_def outdated_reply_def Let_def io_catch_Inr io_bind_Inr sign_in_def
      unavailable_def json_error_def split: option.splits if_splits)

lemma createChain_claims:
  "createChain R sha ttl claims rnd rnd' s = (Inr (rt, cl), s') \<Longrightarrow> cl = claims\<lparr>ac_sid := Some (randomToken rnd)\<rparr>"
  by (auto simp: createChain_def Let_def io_bind_Inr)

text \<open>The strings of a verified ID token are text.\<close>

definition provider_text :: "'s auth_deps \<Rightarrow> bool" where
  "provider_text D \<longleftrightarrow>
     (\<forall>t a cl k v. ad_verify D t a = Inr cl \<longrightarrow> get_prop cl k = Some (JStr v) \<longrightarrow> utf8_valid v)"

lemma user_wf:
  assumes "provider_text D" "ad_verify D t a = Inr idClaims" "userFromIdToken idClaims uc = Some claims"
  shows "wf_claims claims \<and> ac_uid claims \<noteq> []"
proof -
  have "json_text (string_or_empty (get_prop idClaims k))" for k
    using assms(1,2) by (auto simp: string_or_empty_def json_text_def provider_text_def split: option.splits json.splits)
  then show ?thesis
    using assms by (auto simp: userFromIdToken_def wf_claims_def provider_text_def split: option.splits json.splits if_splits)
qed

lemma randomToken_text: "rnd \<noteq> [] \<Longrightarrow> randomToken rnd \<noteq> [] \<and> utf8_valid (randomToken rnd)"
proof -
  assume "rnd \<noteq> []"
  moreover have "list_all (\<lambda>c. byte c < 128) (randomToken rnd)"
    using b64_encode_alphabet [of rnd] by (auto simp: randomToken_def b64_alphabet_def list_all_iff)
  ultimately show ?thesis
    using b64_encode_not_Nil utf8_valid_ascii_all [of "randomToken rnd" "[]"] by (simp add: randomToken_def)
qed

lemma session_claims_wf: "wf_claims claims \<Longrightarrow> rnd \<noteq> [] \<Longrightarrow> wf_claims (claims\<lparr>ac_sid := Some (randomToken rnd)\<rparr>)"
  using randomToken_text by (auto simp: wf_claims_def)

text \<open>The access token in a reply.\<close>

definition access_token_of :: "json \<Rightarrow> str" where
  "access_token_of j = (case stringField (readBody (Some j)) ''access_token'' of None \<Rightarrow> [] | Some t \<Rightarrow> t)"

lemma access_token_of_response:
  assumes "Reply (JsonReply 200 j) = tokenResponse D now cl rt"
  shows "access_token_of j = signAccessToken (ad_hmac D) cl (cf_tokenSecret (ad_config D)) (cf_accessTokenTtl (ad_config D)) now"
proof -
  have "signAccessToken h c k t n \<noteq> []" for h c k t n by (simp add: signAccessToken_def Let_def)
  then show ?thesis
    using assms by (auto simp: tokenResponse_def Let_def access_token_of_def stringField_def readBody_def get_prop_def nonempty_def)
qed


context redis_server begin

lemma createChain_keeps_gone: "keeps (\<lambda>s. gone (key_code c) (entry s) (clock s)) (createChain R sha ttl claims rnd rnd')"
  unfolding createChain_def issue_def issueToken_def Let_def
  by (intro command_rules about_keyD(1,2) [OF about_key_gone]; simp)

lemma consumeCode_Some:
  assumes "consumeCode R code s = (Inr (Some lc), s')"
  shows "\<exists>v e. entry s (key_code code) = Some (v, e) \<and> read_login_code v = Inr lc"
proof -
  from assms obtain raw t where g: "rgetdel R (key_code code) s = (Inr raw, t)"
    and r: "(case raw of None \<Rightarrow> io_return None
       | Some v \<Rightarrow> if v = [] then io_return None else io_bind (io_lift (read_login_code v)) (\<lambda>r. io_return (Some r))) t = (Inr (Some lc), s')"
    unfolding consumeCode_def io_bind_Inr [of "rgetdel R k" for k] by blast
  obtain v where v: "raw = Some v" using r by (cases raw) auto
  then have "read_login_code v = Inr lc" using r by (auto simp: io_bind_Inr split: if_splits)
  moreover have "live (entry s) (clock s) (key_code code) = Some v" using getdel [OF g] v by auto
  ultimately show ?thesis using live_entry by blast
qed

end

section \<open>Properties\<close>

text \<open>C2. A sign-in ends with a login code only for the browser that began it: the state in its cookie
  is the one the identity provider sends back; the code is stored with the challenge of the
  cookie for the user of a verified ID token, and the browser is sent to a checked address.\<close>

theorem callback_binds:
  assumes "redis_server R entry clock inc" "ad_redis D = R" "callback D q rnd s = (Inr (Redirect url cookies), s')"
  shows "\<exists>state ch ret t idClaims claims e.
    aq_cookies q ''orc_state'' = Some state \<and> state \<noteq> [] \<and> aq_query q ''state'' = Some state \<and>
    aq_cookies q ''orc_challenge'' = Some ch \<and> isCodeChallenge (Some (JStr ch)) \<and>
    (ret = ''/'' \<or> validateReturnTo (ad_host D) (aq_cookies q ''orc_return'') (ad_isAllowed D) = Some ret) \<and>
    url = ret @ ''#code='' @ randomToken rnd \<and>
    ad_verify D t (cf_oidcClientId (ad_config D)) = Inr idClaims \<and>
    userFromIdToken idClaims (cf_oidcUserClaim (ad_config D)) = Some claims \<and>
    entry s' (key_code (randomToken rnd)) = Some (jprint (login_code_json \<lparr>lc_claims = claims, lc_challenge = ch\<rparr>), e)"
proof -
  from callback_redirect [OF assms(3)] obtain state ch ret res t claims where
    c: "aq_cookies q ''orc_state'' = Some state" "state \<noteq> []" "aq_query q ''state'' = Some state"
      "aq_cookies q ''orc_challenge'' = Some ch" "isCodeChallenge (Some (JStr ch))"
      "ret = ''/'' \<or> validateReturnTo (ad_host D) (aq_cookies q ''orc_return'') (ad_isAllowed D) = Some ret"
      "url = ret @ ''#code='' @ randomToken rnd" "callback_user D res = Inr (Inr claims)"
      "createCode (ad_redis D) (ad_codeTtl D) claims ch rnd t = (Inr (randomToken rnd), s')"
    by blast
  from c(9) obtain u where "rset_ex R (key_code (randomToken rnd))
      (jprint (login_code_json \<lparr>lc_claims = claims, lc_challenge = ch\<rparr>)) (ad_codeTtl D) t = (Inr u, s')"
    by (auto simp: createCode_def Let_def io_bind_Inr assms(2))
  then have "\<exists>e. entry s' (key_code (randomToken rnd)) = Some (jprint (login_code_json \<lparr>lc_claims = claims, lc_challenge = ch\<rparr>), e)"
    using redis_server.set_ex [OF assms(1)] by fastforce
  then show ?thesis using c(1-7) callback_user_Inr [OF c(8)] by blast
qed

text \<open>C12. A login code is exchanged once and only against its verifier: tokens are given out only when
  the verifier of the request is the one the stored challenge was made from, and then, as after
  a wrong verifier, the code is gone.\<close>

theorem code_exchange:
  assumes "redis_server R entry clock inc" "ad_redis D = R" "requireClientProtocol (aq_headers q) = None"
    and "stringField (readBody (aq_json q)) ''code'' = Some code"
    and "token_route D q now rnd rnd' s = (Inr reply, s')" "reply \<noteq> unavailable"
  shows "gone (key_code code) (entry s') (clock s') \<and>
    (reply = json_error 400 ''invalid_grant'' \<or>
     (\<exists>lc v t. consumeCode R code s = (Inr (Some lc), t) \<and>
        stringField (readBody (aq_json q)) ''code_verifier'' = Some v \<and> rx_test CODE_VERIFIER v \<and>
        codeChallenge (ad_sha256 D) v = lc_challenge lc))"
proof -
  from assms(2-6) obtain r t where t: "consumeCode R code s = (Inr r, t)"
    and rest: "(case r of None \<Rightarrow> io_return (json_error 400 ''invalid_grant'')
      | Some lc \<Rightarrow> if \<not> verifyCodeVerifier (ad_sha256 D) (stringField (readBody (aq_json q)) ''code_verifier'') (lc_challenge lc)
          then io_return (json_error 400 ''invalid_grant'') else sign_in D now rnd rnd' (lc_claims lc)) t = (Inr reply, s')"
    by (auto simp: token_route_def behind_protocol_def Let_def io_catch_Inr io_bind_Inr)
  have gone: "gone (key_code code) (entry t) (clock t)"
    by (rule redis_server.consumeCode_gone [OF assms(1) t])
  show ?thesis
  proof (cases "reply = json_error 400 ''invalid_grant'' \<and> s' = t")
    case True
    then show ?thesis using gone by simp
  next
    case False
    then obtain lc where lc: "r = Some lc"
        "verifyCodeVerifier (ad_sha256 D) (stringField (readBody (aq_json q)) ''code_verifier'') (lc_challenge lc)"
        "sign_in D now rnd rnd' (lc_claims lc) t = (Inr reply, s')"
      using rest by (auto split: option.splits if_splits)
    then obtain rt cl where "createChain R (ad_sha256 D) (cf_sessionTtl (ad_config D)) (lc_claims lc) rnd rnd' t = (Inr (rt, cl), s')"
      by (auto simp: sign_in_def io_bind_Inr assms(2))
    from keepsD [OF redis_server.createChain_keeps_gone [OF assms(1)] gone this]
    have "gone (key_code code) (entry s') (clock s')" .
    then show ?thesis using t lc by (auto simp: verifyCodeVerifier_def split: option.splits)
  qed
qed

text \<open>C13. Signing in, from the callback to the tokens: the access token that a login code is exchanged
  for verifies, until its lifetime is over, to the user of the ID token the provider signed for
  this application, and is given to who holds the verifier of the challenge that began the sign-in.\<close>

theorem sign_in_end_to_end:
  assumes "redis_server R entry clock inc" "ad_redis D = R" "provider_text D"
    and "callback D q rnd0 s0 = (Inr (Redirect url cookies), s1)" "aq_cookies q ''orc_challenge'' = Some ch"
    and "entry s2 (key_code (randomToken rnd0)) = entry s1 (key_code (randomToken rnd0))"
    and "token_route D q2 now rnd rnd' s2 = (Inr (Reply (JsonReply 200 j)), s3)" "rnd \<noteq> []"
    and "stringField (readBody (aq_json q2)) ''code'' = Some (randomToken rnd0)"
  shows "\<exists>t idClaims claims v. ad_verify D t (cf_oidcClientId (ad_config D)) = Inr idClaims \<and>
    userFromIdToken idClaims (cf_oidcUserClaim (ad_config D)) = Some claims \<and>
    stringField (readBody (aq_json q2)) ''code_verifier'' = Some v \<and> codeChallenge (ad_sha256 D) v = ch \<and>
    verifyAccessToken (ad_hmac D) (access_token_of j) (cf_tokenSecret (ad_config D)) now' =
      Inr (if now div 1000 + cf_accessTokenTtl (ad_config D) \<le> now' div 1000 then None
           else Some (claims\<lparr>ac_sid := Some (randomToken rnd)\<rparr>))"
proof -
  let ?k = "key_code (randomToken rnd0)"
  from callback_binds [OF assms(1,2,4)] assms(5) obtain t idClaims claims e where
    c: "ad_verify D t (cf_oidcClientId (ad_config D)) = Inr idClaims"
      "userFromIdToken idClaims (cf_oidcUserClaim (ad_config D)) = Some claims"
      "entry s1 ?k = Some (jprint (login_code_json \<lparr>lc_claims = claims, lc_challenge = ch\<rparr>), e)"
    by auto
  have wf: "wf_claims claims" using user_wf [OF assms(3) c(1,2)] by blast
  from token_route_200 [OF assms(7)] assms(2,9) obtain lc t2 rt cl where
    r: "consumeCode R (randomToken rnd0) s2 = (Inr (Some lc), t2)"
      "verifyCodeVerifier (ad_sha256 D) (stringField (readBody (aq_json q2)) ''code_verifier'') (lc_challenge lc)"
      "createChain R (ad_sha256 D) (cf_sessionTtl (ad_config D)) (lc_claims lc) rnd rnd' t2 = (Inr (rt, cl), s3)"
      "Reply (JsonReply 200 j) = tokenResponse D now cl rt"
    by auto
  have "read_login_code (jprint (login_code_json \<lparr>lc_claims = claims, lc_challenge = ch\<rparr>)) = Inr \<lparr>lc_claims = claims, lc_challenge = ch\<rparr>"
    using read_login_code_print [of "\<lparr>lc_claims = claims, lc_challenge = ch\<rparr>"] wf by simp
  then have "lc = \<lparr>lc_claims = claims, lc_challenge = ch\<rparr>"
    using redis_server.consumeCode_Some [OF assms(1) r(1)] c(3) assms(6) by simp
  moreover have "cl = (lc_claims lc)\<lparr>ac_sid := Some (randomToken rnd)\<rparr>" by (rule createChain_claims [OF r(3)])
  ultimately have lc: "lc_challenge lc = ch" "cl = claims\<lparr>ac_sid := Some (randomToken rnd)\<rparr>" by simp_all
  have "verifyAccessToken (ad_hmac D) (access_token_of j) (cf_tokenSecret (ad_config D)) now' =
      Inr (if now div 1000 + cf_accessTokenTtl (ad_config D) \<le> now' div 1000 then None else Some cl)"
    unfolding access_token_of_response [OF r(4)]
    by (rule token_round_trip) (use session_claims_wf [OF wf assms(8)] lc in simp)
  then show ?thesis using c(1,2) r(2) lc by (auto simp: verifyCodeVerifier_def split: option.splits)
qed

lemma verifyToken_Some: "verifyToken D idToken a = Some cl \<Longrightarrow> \<exists>t. ad_verify D t a = Inr cl"
  by (auto simp: verifyToken_def split: json.splits sum.splits)

lemma app_token_claims_Some:
  assumes "app_token_claims D nonce res = Inr (Some claims)"
  shows "\<exists>t idClaims. ad_verify D t (cf_oidcAppClientId (ad_config D)) = Inr idClaims \<and>
    get_prop idClaims ''nonce'' = Some (JStr nonce) \<and> userFromIdToken idClaims (cf_oidcUserClaim (ad_config D)) = Some claims"
proof -
  from assms obtain v where v: "(case v of Some (JStr t) \<Rightarrow>
        if t = [] then None
        else Option.bind (verifyToken D (JStr t) (cf_oidcAppClientId (ad_config D))) (\<lambda>idClaims.
          if get_prop idClaims ''nonce'' \<noteq> Some (JStr nonce) then None
          else userFromIdToken idClaims (cf_oidcUserClaim (ad_config D)))
      | _ \<Rightarrow> None) = Some claims"
    unfolding app_token_claims_def by (metis (no_types, lifting) andThen_eq_Inr sum.inject(2) option.distinct(1))
  then obtain w where w: "v = Some w" by (cases v) auto
  with v obtain t where t: "v = Some (JStr t)" "t \<noteq> []" by (cases w) (auto split: if_splits)
  with v show ?thesis using verifyToken_Some by (auto simp: bind_eq_Some_conv split: if_splits) blast
qed

lemma app_finish_200:
  assumes "app_finish D now rnd rnd' nonce tokenRes s = (Inr (Reply (JsonReply 200 j)), s')"
  shows "\<exists>res claims t rt cl. app_token_claims D nonce res = Inr (Some claims) \<and>
    createChain (ad_redis D) (ad_sha256 D) (cf_sessionTtl (ad_config D)) claims rnd rnd' t = (Inr (rt, cl), s') \<and>
    Reply (JsonReply 200 j) = tokenResponse D now cl rt"
proof -
  obtain res where res: "tokenRes = Some res"
    using assms by (cases tokenRes) (auto simp: app_finish_def unavailable_def json_error_def)
  with assms obtain claims t where c: "app_token_claims D nonce res = Inr claims"
    "(case claims of None \<Rightarrow> io_return (json_error 400 ''invalid_grant'')
      | Some cl \<Rightarrow> io_catch (sign_in D now rnd rnd' cl) (io_return unavailable)) t = (Inr (Reply (JsonReply 200 j)), s')"
    unfolding app_finish_def res option.case io_bind_Inr io_lift_eq by metis
  then obtain u where u: "claims = Some u" by (cases claims) (auto simp: json_error_def)
  with c(2) have "sign_in D now rnd rnd' u t = (Inr (Reply (JsonReply 200 j)), s')"
    by (auto simp: io_catch_Inr unavailable_def json_error_def)
  then obtain rt cl where "createChain (ad_redis D) (ad_sha256 D) (cf_sessionTtl (ad_config D)) u rnd rnd' t = (Inr (rt, cl), s')"
      "Reply (JsonReply 200 j) = tokenResponse D now cl rt"
    by (auto simp: sign_in_def io_bind_Inr)
  then show ?thesis using c(1) u by blast
qed

lemma app_token_200:
  assumes "app_token D q now rnd rnd' s = (Inr (Reply (JsonReply 200 j)), s')"
  shows "\<exists>nonce res claims t rt cl. stringField (readBody (aq_json q)) ''nonce'' = Some nonce \<and>
    app_token_claims D nonce res = Inr (Some claims) \<and>
    createChain (ad_redis D) (ad_sha256 D) (cf_sessionTtl (ad_config D)) claims rnd rnd' t = (Inr (rt, cl), s') \<and>
    Reply (JsonReply 200 j) = tokenResponse D now cl rt"
proof -
  have "requireClientProtocol (aq_headers q) = None"
    using assms by (auto simp: app_token_def behind_protocol_def requireClientProtocol_def outdated_reply_def Let_def split: option.splits if_splits)
  moreover obtain code verifier nonce where f: "stringField (readBody (aq_json q)) ''code'' = Some code"
    "stringField (readBody (aq_json q)) ''code_verifier'' = Some verifier" "stringField (readBody (aq_json q)) ''nonce'' = Some nonce"
    using assms by (auto simp: app_token_def behind_protocol_def json_error_def Let_def calculation split: option.splits if_splits)
  ultimately obtain tokenRes t where "app_finish D now rnd rnd' nonce tokenRes t = (Inr (Reply (JsonReply 200 j)), s')"
    using assms by (auto simp: app_token_def behind_protocol_def json_error_def Let_def io_bind_Inr [of _ "app_finish D now rnd rnd' nonce"] split: if_splits)
  from app_finish_200 [OF this] f(3) show ?thesis by blast
qed

text \<open>An app's sign-in is bound to its request: the session it is given is of the user of an ID
  token that was issued to the app's client and carries the nonce of the request.\<close>

theorem app_sign_in_binds:
  assumes "app_token D q now rnd rnd' s = (Inr (Reply (JsonReply 200 j)), s')" "provider_text D" "rnd \<noteq> []"
  shows "\<exists>nonce t idClaims claims. stringField (readBody (aq_json q)) ''nonce'' = Some nonce \<and>
    ad_verify D t (cf_oidcAppClientId (ad_config D)) = Inr idClaims \<and> get_prop idClaims ''nonce'' = Some (JStr nonce) \<and>
    userFromIdToken idClaims (cf_oidcUserClaim (ad_config D)) = Some claims \<and>
    verifyAccessToken (ad_hmac D) (access_token_of j) (cf_tokenSecret (ad_config D)) now' =
      Inr (if now div 1000 + cf_accessTokenTtl (ad_config D) \<le> now' div 1000 then None
           else Some (claims\<lparr>ac_sid := Some (randomToken rnd)\<rparr>))"
proof -
  from app_token_200 [OF assms(1)] obtain nonce res claims t1 rt cl where
    a: "stringField (readBody (aq_json q)) ''nonce'' = Some nonce" "app_token_claims D nonce res = Inr (Some claims)"
      "createChain (ad_redis D) (ad_sha256 D) (cf_sessionTtl (ad_config D)) claims rnd rnd' t1 = (Inr (rt, cl), s')"
      "Reply (JsonReply 200 j) = tokenResponse D now cl rt"
    by blast
  from app_token_claims_Some [OF a(2)] obtain t idClaims where
    i: "ad_verify D t (cf_oidcAppClientId (ad_config D)) = Inr idClaims" "get_prop idClaims ''nonce'' = Some (JStr nonce)"
      "userFromIdToken idClaims (cf_oidcUserClaim (ad_config D)) = Some claims"
    by blast
  have wf: "wf_claims (claims\<lparr>ac_sid := Some (randomToken rnd)\<rparr>)"
    using user_wf [OF assms(2) i(1,3)] session_claims_wf assms(3) by blast
  have "verifyAccessToken (ad_hmac D) (access_token_of j) (cf_tokenSecret (ad_config D)) now' =
      Inr (if now div 1000 + cf_accessTokenTtl (ad_config D) \<le> now' div 1000 then None
           else Some (claims\<lparr>ac_sid := Some (randomToken rnd)\<rparr>))"
    unfolding access_token_of_response [OF a(4)] createChain_claims [OF a(3)] by (rule token_round_trip [OF wf])
  then show ?thesis using a(1) i by blast
qed

section \<open>A sign-in\<close>

text \<open>A provider that signs one user in, and the deployment that trusts it.\<close>

definition some_environment :: environment where
  "some_environment = map_of
     [(''TOKEN_SECRET'', replicate 64 (CHR ''0'')), (''OIDC_ISSUER'', ''https://idp''), (''OIDC_CLIENT_ID'', ''web''),
      (''OIDC_APP_CLIENT_ID'', ''app''), (''OIDC_REDIRECT_URI'', ''https://api/auth/callback''), (''REDIS_URL'', ''redis://r'')]"

definition some_challenge :: str where
  "some_challenge = b64_encode (replicate 32 (CHR ''a''))"

definition some_verifier :: str where
  "some_verifier = replicate 43 (CHR ''x'')"

definition deployment :: "mem auth_deps" where
  "deployment =
     \<lparr>ad_config = (case loadConfig some_environment of Inr c \<Rightarrow> c),
      ad_discovery = \<lparr>od_authorization_endpoint = ''https://idp/a'', od_token_endpoint = ''https://idp/t'', od_jwks_uri = ''https://idp/k'',
        od_issuer = ''https://idp''\<rparr>,
      ad_redis = mem_redis, ad_codeTtl = 60, ad_sha256 = (\<lambda>v. replicate 32 (CHR ''a'')), ad_hmac = (\<lambda>k d. d),
      ad_host = any_host_name, ad_isAllowed = (\<lambda>_. False),
      ad_fetch = (\<lambda>q m. (Inr (200, Some (JObj [(''id_token'', JStr ''jwt'')])), m)),
      ad_verify = (\<lambda>t a. Inr [(''sub'', JStr ''u1''), (''nonce'', JStr ''n'')])\<rparr>"

definition callback_request :: auth_request where
  "callback_request =
     \<lparr>aq_headers = [], aq_query = map_of [(''state'', ''st''), (''code'', ''c'')],
      aq_cookies = map_of [(''orc_state'', ''st''), (''orc_return'', ''/x''), (''orc_challenge'', some_challenge)], aq_json = None\<rparr>"

definition exchange_request :: "str \<Rightarrow> str \<Rightarrow> auth_request" where
  "exchange_request code verifier =
     \<lparr>aq_headers = withProtocol [], aq_query = (\<lambda>_. None), aq_cookies = (\<lambda>_. None),
      aq_json = Some (JObj [(''code'', JStr code), (''code_verifier'', JStr verifier), (''nonce'', JStr ''n'')])\<rparr>"

lemma deployment_text: "provider_text deployment"
  by (auto simp: provider_text_def deployment_def get_prop_def) code_simp+

lemma callback_run:
  "fst (callback deployment callback_request ''r0'' empty_mem) =
    Inr (Redirect (''/x#code='' @ randomToken ''r0'')
      [dropped_cookie ''orc_state'', dropped_cookie ''orc_return'', dropped_cookie ''orc_challenge''])"
  by code_simp

definition called_back :: mem where
  "called_back = snd (callback deployment callback_request ''r0'' empty_mem)"

definition exchange :: "(str + auth_reply) \<times> mem" where
  "exchange = token_route deployment (exchange_request (randomToken ''r0'') some_verifier) 0 ''r1'' ''r2'' called_back"

definition reply_body :: "str + auth_reply \<Rightarrow> json" where
  "reply_body r = (case r of Inr (Reply (JsonReply _ j)) \<Rightarrow> j | _ \<Rightarrow> JNull)"

lemma exchange_run: "fst exchange = Inr (Reply (JsonReply 200 (reply_body (fst exchange))))"
  by code_simp

lemma exchange_fields:
  "requireClientProtocol (aq_headers (exchange_request (randomToken ''r0'') some_verifier)) = None"
  "stringField (readBody (aq_json (exchange_request (randomToken ''r0'') some_verifier))) ''code'' = Some (randomToken ''r0'')"
  "aq_cookies callback_request ''orc_challenge'' = Some some_challenge"
  by code_simp+

lemma deployment_redis: "ad_redis deployment = mem_redis"
  by (simp add: deployment_def)

lemma deployment_user:
  assumes "ad_verify deployment t a = Inr cl" "userFromIdToken cl (cf_oidcUserClaim (ad_config deployment)) = Some claims"
  shows "claims = \<lparr>ac_uid = ''u1'', ac_email = JStr [], ac_name = JStr [], ac_sid = None\<rparr>"
proof -
  have "cl = [(''sub'', JStr ''u1''), (''nonce'', JStr ''n'')]" using assms(1) by (simp add: deployment_def)
  moreover have "userFromIdToken [(''sub'', JStr ''u1''), (''nonce'', JStr ''n'')] (cf_oidcUserClaim (ad_config deployment)) =
    Some \<lparr>ac_uid = ''u1'', ac_email = JStr [], ac_name = JStr [], ac_sid = None\<rparr>" by code_simp
  ultimately show ?thesis using assms(2) by simp
qed

lemma deployment_ttl: "cf_accessTokenTtl (ad_config deployment) = 900"
  by code_simp

theorem callback_binds_witness:
  "\<exists>e. mem_entries called_back (key_code (randomToken ''r0'')) =
     Some (jprint (login_code_json \<lparr>lc_claims = \<lparr>ac_uid = ''u1'', ac_email = JStr [], ac_name = JStr [], ac_sid = None\<rparr>,
       lc_challenge = some_challenge\<rparr>), e)"
proof -
  from callback_binds [OF mem.redis_server_axioms deployment_redis run_eq [OF callback_run]]
  obtain ch t idClaims claims e where "aq_cookies callback_request ''orc_challenge'' = Some ch"
    "ad_verify deployment t (cf_oidcClientId (ad_config deployment)) = Inr idClaims"
    "userFromIdToken idClaims (cf_oidcUserClaim (ad_config deployment)) = Some claims"
    "mem_entries called_back (key_code (randomToken ''r0'')) = Some (jprint (login_code_json \<lparr>lc_claims = claims, lc_challenge = ch\<rparr>), e)"
    unfolding called_back_def by blast
  then show ?thesis using exchange_fields(3) deployment_user by auto
qed

theorem code_exchange_witness:
  "gone (key_code (randomToken ''r0'')) (mem_entries (snd exchange)) (mem_clock (snd exchange))"
proof -
  have n: "Reply (JsonReply 200 j) \<noteq> unavailable" for j by (simp add: unavailable_def json_error_def)
  from code_exchange [OF mem.redis_server_axioms deployment_redis exchange_fields(1,2) run_eq [OF exchange_run, unfolded exchange_def] n]
  show ?thesis by (simp add: exchange_def)
qed

theorem sign_in_end_to_end_witness:
  "verifyAccessToken (ad_hmac deployment) (access_token_of (reply_body (fst exchange))) (cf_tokenSecret (ad_config deployment)) 1000 =
     Inr (Some \<lparr>ac_uid = ''u1'', ac_email = JStr [], ac_name = JStr [], ac_sid = Some (randomToken ''r1'')\<rparr>)"
proof -
  from sign_in_end_to_end [OF mem.redis_server_axioms deployment_redis deployment_text run_eq [OF callback_run] exchange_fields(3) refl
      run_eq [OF exchange_run, unfolded exchange_def called_back_def] _ exchange_fields(2), of 1000]
  obtain t idClaims claims where "ad_verify deployment t (cf_oidcClientId (ad_config deployment)) = Inr idClaims"
    "userFromIdToken idClaims (cf_oidcUserClaim (ad_config deployment)) = Some claims"
    "verifyAccessToken (ad_hmac deployment) (access_token_of (reply_body (fst exchange))) (cf_tokenSecret (ad_config deployment)) 1000 =
      Inr (Some (claims\<lparr>ac_sid := Some (randomToken ''r1'')\<rparr>))"
    by (auto simp: deployment_ttl exchange_def called_back_def)
  moreover from this(1,2) have "claims = \<lparr>ac_uid = ''u1'', ac_email = JStr [], ac_name = JStr [], ac_sid = None\<rparr>"
    by (rule deployment_user)
  ultimately show ?thesis by simp
qed

definition app_exchange :: "(str + auth_reply) \<times> mem" where
  "app_exchange = app_token deployment (exchange_request ''c'' ''v'') 0 ''r1'' ''r2'' empty_mem"

lemma app_exchange_run: "fst app_exchange = Inr (Reply (JsonReply 200 (reply_body (fst app_exchange))))"
  by code_simp

theorem app_sign_in_binds_witness:
  "verifyAccessToken (ad_hmac deployment) (access_token_of (reply_body (fst app_exchange))) (cf_tokenSecret (ad_config deployment)) 1000 =
     Inr (Some \<lparr>ac_uid = ''u1'', ac_email = JStr [], ac_name = JStr [], ac_sid = Some (randomToken ''r1'')\<rparr>)"
proof -
  from app_sign_in_binds [OF run_eq [OF app_exchange_run, unfolded app_exchange_def] deployment_text, of 1000]
  obtain t idClaims claims where "ad_verify deployment t (cf_oidcAppClientId (ad_config deployment)) = Inr idClaims"
    "userFromIdToken idClaims (cf_oidcUserClaim (ad_config deployment)) = Some claims"
    "verifyAccessToken (ad_hmac deployment) (access_token_of (reply_body (fst app_exchange))) (cf_tokenSecret (ad_config deployment)) 1000 =
      Inr (Some (claims\<lparr>ac_sid := Some (randomToken ''r1'')\<rparr>))"
    by (auto simp: deployment_ttl app_exchange_def)
  moreover from this(1,2) have "claims = \<lparr>ac_uid = ''u1'', ac_email = JStr [], ac_name = JStr [], ac_sid = None\<rparr>"
    by (rule deployment_user)
  ultimately show ?thesis by simp
qed

end
