(* ===== verification/Server.thy ===== *)
theory Server
  imports V2Policy Proxy Relay Authz Auth
begin

text \<open>
  \<open>api/src/index.ts\<close> and \<open>api/src/not-found.ts\<close>: the routes, put together from the other
  theories in the order the application mounts them. \<open>proxy_route\<close> is the way of a request to
  a session: token, access, owner, guards, and then the WebSocket relay or the HTTP proxy. The
  routing itself and the CORS headers are those of the framework.
\<close>

section \<open>The application\<close>

record 's server =
  sv_auth :: "'s auth_deps"
  sv_store :: "'s session_redis"
  sv_webhook :: "'s webhook"
  sv_rc :: RcConfig
  sv_every :: "guard list \<Rightarrow> guard"
  sv_hosts :: HostParser
  sv_info :: fetch_info
  sv_fetch :: "upstream_request \<Rightarrow> upstream_response option"

record incoming =
  in_method :: str
  in_url :: str
  in_path :: str
  in_sessionId :: str
  in_length :: "nat option"
  in_stream :: "str list option"
  in_headers :: headers
  in_query :: "str \<Rightarrow> str option"

definition authz_options :: "Config \<Rightarrow> AuthzOptions" where
  "authz_options config =
     \<lparr>ao_webhookUrl = cf_authzWebhookUrl config, ao_webhookToken = cf_authzWebhookToken config,
      ao_timeoutSeconds = cf_authzTimeout config, ao_allowedTtl = cf_authzAllowedTtl config, ao_deniedTtl = cf_authzDeniedTtl config\<rparr>"

definition is_allowed_origin :: "host_of \<Rightarrow> Config \<Rightarrow> str option \<Rightarrow> bool" where
  "is_allowed_origin host_of config = makeOriginCheck (originOf host_of (cf_oidcRedirectUri config)) (cf_allowedOrigins config)"

definition auth :: "'s server \<Rightarrow> nat \<Rightarrow> incoming \<Rightarrow> str + (response + str \<times> AccessClaims)" where
  "auth S now q =
     authMiddleware (ad_hmac (sv_auth S)) (cf_tokenSecret (ad_config (sv_auth S))) now (in_headers q) (in_query q)"

definition access :: "'s server \<Rightarrow> AccessClaims \<Rightarrow> ('s, response + str option) io" where
  "access S claims = requireAccess (ad_redis (sv_auth S)) (sv_webhook S) (authz_options (ad_config (sv_auth S))) claims"

text \<open>The context after \<open>auth\<close>; the session is not there yet.\<close>

definition request_context :: "incoming \<Rightarrow> str \<Rightarrow> AccessClaims \<Rightarrow> ctx" where
  "request_context q token claims =
     \<lparr>rq_method = in_method q, rq_url = in_url q, rq_path = in_path q, rq_sessionId = in_sessionId q,
      rq_content_length = in_length q, rq_stream = in_stream q, cv_userId = ac_uid claims, cv_token = token,
      cv_session = \<lparr>sm_id = [], sm_userId = [], sm_directory = [], sm_gatewayAddr = [], sm_createdAt = [], sm_opencodeVersion = None\<rparr>,
      cv_body = None, cv_rewriteJson = None\<rparr>"

datatype served =
    Answered response
  | Proxied ctx proxied
  | Relayed ctx

text \<open>\<open>andReply f m\<close>: go on with what a middleware leaves behind unless it replied.\<close>

definition andReply :: "('s, response + 'a) io \<Rightarrow> ('a \<Rightarrow> ('s, served) io) \<Rightarrow> ('s, served) io" where
  "andReply m f = io_bind m (\<lambda>r. case r of Inl reply \<Rightarrow> io_return (Answered reply) | Inr a \<Rightarrow> f a)"

definition serve_session :: "'s server \<Rightarrow> incoming \<Rightarrow> ctx \<Rightarrow> ('s, served) io" where
  "serve_session S q c =
     (case versionedGuards (sv_every S) (sv_hosts S) (sv_info S) (sv_rc S) c of
        Inl reply \<Rightarrow> io_return (Answered reply)
      | Inr c' \<Rightarrow>
          if wsRelay (in_method q) (in_headers q) then io_return (Relayed c')
          else io_bind (io_lift (proxyHttp (sv_fetch S) (in_headers q) True c')) (\<lambda>p. io_return (Proxied c' p)))"

definition proxy_route :: "'s server \<Rightarrow> nat \<Rightarrow> incoming \<Rightarrow> ('s, served) io" where
  "proxy_route S now q =
     andReply (io_lift (auth S now q)) (\<lambda>(token, claims).
     andReply (access S claims) (\<lambda>_.
     andReply (sessionAccess (sv_store S) (request_context q token claims))
       (serve_session S q)))"

section \<open>The other routes\<close>

definition healthz :: "str \<Rightarrow> 's server \<Rightarrow> ('s, response) io" where
  "healthz version S =
     io_bind (pingStore (sv_store S)) (\<lambda>ok.
       io_return (JsonReply 200 (JObj [(''status'', JStr (if ok then ''ok'' else ''degraded'')), (''version'', JStr version),
         (''protocol'', JNum (int PROTOCOL) 0)])))"

definition decision_members :: "Decision \<Rightarrow> (str \<times> json) list" where
  "decision_members d = (''allowed'', JBool (dc_allowed d)) # (case dc_reason d of None \<Rightarrow> [] | Some r \<Rightarrow> [(''reason'', JStr r)])"

definition me :: "'s server \<Rightarrow> nat \<Rightarrow> incoming \<Rightarrow> ('s, response) io" where
  "me S now q =
     (case requireClientProtocol (in_headers q) of
        Some r \<Rightarrow> io_return r
      | None \<Rightarrow>
          io_bind (io_lift (auth S now q)) (\<lambda>a.
            case a of
              Inl r \<Rightarrow> io_return r
            | Inr (token, claims) \<Rightarrow>
                io_catch
                  (io_bind (check (ad_redis (sv_auth S)) (sv_webhook S) (authz_options (ad_config (sv_auth S))) claims) (\<lambda>d.
                     io_return (JsonReply 200 (JObj ([(''sub'', JStr (ac_uid claims)), (''email'', ac_email claims), (''name'', ac_name claims)] @
                       decision_members d)))))
                  (io_return unavailable_reply)))"

text \<open>\<open>\{...s, user: s.userId\}\<close> of a stored record; one that is no object is an error.\<close>

definition with_user :: "json \<Rightarrow> str + json" where
  "with_user j =
     (case j of
        JObj ps \<Rightarrow> Inr (case get_prop ps ''userId'' of Some u \<Rightarrow> JObj (put_prop ps ''user'' u) | None \<Rightarrow> j)
      | _ \<Rightarrow> Inl ''TypeError'')"

definition gateway_sessions :: "'s server \<Rightarrow> nat \<Rightarrow> incoming \<Rightarrow> ('s, response) io" where
  "gateway_sessions S now q =
     (case requireClientProtocol (in_headers q) of
        Some r \<Rightarrow> io_return r
      | None \<Rightarrow>
          io_bind (io_lift (auth S now q)) (\<lambda>a.
            case a of
              Inl r \<Rightarrow> io_return r
            | Inr (token, claims) \<Rightarrow>
                io_bind (access S claims) (\<lambda>b.
                  case b of
                    Inl r \<Rightarrow> io_return r
                  | Inr _ \<Rightarrow>
                      io_bind (listSessions (sv_store S) (ac_uid claims)) (\<lambda>sessions.
                        io_bind (io_lift (traverse with_user sessions)) (\<lambda>js. io_return (JsonReply 200 (JArr js)))))))"

definition notFoundJson :: response where
  "notFoundJson = JsonReply 404 (JObj [(''error'', JStr ''not found'')])"

section \<open>Whose session is served\<close>

lemma andReply_Answered:
  "andReply m f s = (Inr w, s') \<Longrightarrow> (\<And>r. w \<noteq> Answered r) \<Longrightarrow> \<exists>a t. m s = (Inr (Inr a), t) \<and> f a t = (Inr w, s')"
proof -
  assume a: "andReply m f s = (Inr w, s')" and w: "\<And>r. w \<noteq> Answered r"
  from a obtain x t where x: "m s = (Inr x, t)" "(case x of Inl reply \<Rightarrow> io_return (Answered reply) | Inr a \<Rightarrow> f a) t = (Inr w, s')"
    unfolding andReply_def io_bind_Inr by blast
  then show ?thesis using w by (cases x) auto
qed

lemma authMiddleware_passes:
  assumes "authMiddleware hmac secret now hs query = Inr (Inr (token, claims))"
  shows "bearerToken hs query = Some token \<and> token \<noteq> [] \<and> verifyAccessToken hmac token secret now = Inr (Some claims)"
  using assms by (auto simp: authMiddleware_def split: option.splits if_splits sum.splits)

lemma sessionAccess_passes:
  assumes "sessionAccess R c s = (Inr (Inr c'), s')"
  shows "\<exists>m. getSession R (rq_sessionId c) s = (Inr (Some m), s') \<and> sm_userId m = cv_userId c \<and> sm_gatewayAddr m \<noteq> [] \<and>
    c' = c\<lparr>cv_session := m\<rparr>"
  using assms by (auto simp: sessionAccess_def io_bind_Inr split: option.splits if_splits)

lemma serve_session_passes:
  assumes "serve_session S q c s = (Inr w, s')" "\<And>r. w \<noteq> Answered r"
  shows "\<exists>c'. versionedGuards (sv_every S) (sv_hosts S) (sv_info S) (sv_rc S) c = Inr c' \<and>
    (w = Relayed c' \<and> wsRelay (in_method q) (in_headers q) \<or>
     (\<exists>p. w = Proxied c' p \<and> \<not> wsRelay (in_method q) (in_headers q) \<and> proxyHttp (sv_fetch S) (in_headers q) True c' = Inr p))"
  using assms by (auto simp: serve_session_def io_bind_Inr split: sum.splits if_splits)

lemma versionedGuards_same: "hono_every ev \<Longrightarrow> versionedGuards ev hp info rc c = Inr c' \<Longrightarrow> same_request c c'"
  using hono_every.v1Guards_keeps hono_every.v2Guards_split v2Guards_keeps
  by (auto simp: versionedGuards_def split: if_splits)

lemma proxyHttp_response:
  "proxyHttp fetch raw w c = Inr p \<Longrightarrow> \<exists>up. fetch (proxy_request c raw) = Some up"
  by (auto simp: proxyHttp_def split: option.splits)

lemma proxy_route_passes:
  assumes "proxy_route S now q s = (Inr w, s')" "\<And>r. w \<noteq> Answered r"
  shows "\<exists>token claims sid m c' t t1.
    bearerToken (in_headers q) (in_query q) = Some token \<and>
    verifyAccessToken (ad_hmac (sv_auth S)) token (cf_tokenSecret (ad_config (sv_auth S))) now = Inr (Some claims) \<and>
    access S claims s = (Inr (Inr sid), t) \<and>
    getSession (sv_store S) (in_sessionId q) t = (Inr (Some m), t1) \<and> sm_userId m = ac_uid claims \<and>
    versionedGuards (sv_every S) (sv_hosts S) (sv_info S) (sv_rc S) ((request_context q token claims)\<lparr>cv_session := m\<rparr>) = Inr c' \<and>
    (w = Relayed c' \<or> (\<exists>p. w = Proxied c' p \<and> proxyHttp (sv_fetch S) (in_headers q) True c' = Inr p))"
proof -
  from andReply_Answered [OF assms(1)[unfolded proxy_route_def] assms(2)] obtain x t0 where
    x: "io_lift (auth S now q) s = (Inr (Inr x), t0)"
      "(case x of (token, claims) \<Rightarrow> andReply (access S claims)
         (\<lambda>_. andReply (sessionAccess (sv_store S) (request_context q token claims)) (serve_session S q))) t0 = (Inr w, s')"
    by blast
  obtain token claims where "x = (token, claims)" by (cases x)
  with x have a: "authMiddleware (ad_hmac (sv_auth S)) (cf_tokenSecret (ad_config (sv_auth S))) now (in_headers q) (in_query q) = Inr (Inr (token, claims))"
      "andReply (access S claims) (\<lambda>_. andReply (sessionAccess (sv_store S) (request_context q token claims)) (serve_session S q)) s = (Inr w, s')"
    by (simp_all add: auth_def)
  from andReply_Answered [OF a(2) assms(2)] obtain sid t where b: "access S claims s = (Inr (Inr sid), t)"
    "andReply (sessionAccess (sv_store S) (request_context q token claims)) (serve_session S q) t = (Inr w, s')"
    by auto
  from andReply_Answered [OF b(2) assms(2)] obtain c t1 where
    c: "sessionAccess (sv_store S) (request_context q token claims) t = (Inr (Inr c), t1)" "serve_session S q c t1 = (Inr w, s')"
    by auto
  from sessionAccess_passes [OF c(1)] obtain m where m: "getSession (sv_store S) (in_sessionId q) t = (Inr (Some m), t1)"
    "sm_userId m = ac_uid claims" "c = (request_context q token claims)\<lparr>cv_session := m\<rparr>"
    by (auto simp: request_context_def)
  show ?thesis
    using authMiddleware_passes [OF a(1)] b(1) m serve_session_passes [OF c(2) assms(2)] by blast
qed

section \<open>Properties\<close>

text \<open>C1. Tenant isolation: a request reaches a machine, as a proxied request or a WebSocket, only with
  a token that verifies, for a user with access, on a session of that user, and after the guards
  of its version passed that very request; the machine then gets the user's token and the
  session's directory, and the body the browser sent or none.\<close>

theorem tenant_isolation:
  assumes "hono_every (sv_every S)" "proxy_route S now q s = (Inr w, s')" "w = Relayed c \<or> w = Proxied c p"
  shows "\<exists>token claims sid m t t1.
    bearerToken (in_headers q) (in_query q) = Some token \<and>
    verifyAccessToken (ad_hmac (sv_auth S)) token (cf_tokenSecret (ad_config (sv_auth S))) now = Inr (Some claims) \<and>
    access S claims s = (Inr (Inr sid), t) \<and>
    getSession (sv_store S) (in_sessionId q) t = (Inr (Some m), t1) \<and> sm_userId m = ac_uid claims \<and> cv_session c = m \<and>
    versionedGuards (sv_every S) (sv_hosts S) (sv_info S) (sv_rc S) ((request_context q token claims)\<lparr>cv_session := m\<rparr>) = Inr c \<and>
    (w = Proxied c p \<longrightarrow>
       (let r = proxy_request c (in_headers q)
        in (\<exists>up. sv_fetch S r = Some up) \<and> ur_method r = in_method q \<and>
           header_get ''Authorization'' (ur_headers r) = Some (''Bearer '' @ token) \<and>
           header_get ''X-Opencode-Directory'' (ur_headers r) = Some (sm_directory m) \<and>
           (ur_body r = None \<or> ur_body r = Some (case in_stream q of None \<Rightarrow> [] | Some cs \<Rightarrow> concat cs))))"
proof -
  have na: "w \<noteq> Answered r" for r using assms(3) by auto
  from proxy_route_passes [OF assms(2) na] obtain token claims sid m c' t t1 where
    r: "bearerToken (in_headers q) (in_query q) = Some token"
      "verifyAccessToken (ad_hmac (sv_auth S)) token (cf_tokenSecret (ad_config (sv_auth S))) now = Inr (Some claims)"
      "access S claims s = (Inr (Inr sid), t)" "getSession (sv_store S) (in_sessionId q) t = (Inr (Some m), t1)" "sm_userId m = ac_uid claims"
      "versionedGuards (sv_every S) (sv_hosts S) (sv_info S) (sv_rc S) ((request_context q token claims)\<lparr>cv_session := m\<rparr>) = Inr c'"
      "w = Relayed c' \<or> (\<exists>p. w = Proxied c' p \<and> proxyHttp (sv_fetch S) (in_headers q) True c' = Inr p)"
    by blast
  have c: "c' = c" "w = Proxied c p \<Longrightarrow> proxyHttp (sv_fetch S) (in_headers q) True c = Inr p" using r(7) assms(3) by auto
  from versionedGuards_same [OF assms(1) r(6)] have same: "cv_session c = m" "cv_token c = token" "rq_method c = in_method q"
    "forwarded_body c = (case in_stream q of None \<Rightarrow> [] | Some cs \<Rightarrow> concat cs)"
    unfolding c(1) by (simp_all add: same_request_def request_context_def forwarded_body_def)
  have fetched: "w = Proxied c p \<Longrightarrow> \<exists>up. sv_fetch S (proxy_request c (in_headers q)) = Some up"
    using c(2) proxyHttp_response by blast
  show ?thesis
    using r(1-6) same fetched proxy_request_parts [of c "in_headers q"] unfolding c(1) Let_def by metis
qed

text \<open>A deployment with one machine, and a request to it.\<close>

definition one_session :: "mem session_redis" where
  "one_session =
     \<lparr>sr_get = (\<lambda>k m. (Inr (if k = session_key ''s'' then Some (jprint (JObj [(''id'', JStr ''s''), (''userId'', JStr ''u1''),
         (''directory'', JStr ''/w''), (''gatewayAddr'', JStr ''gw:1''), (''createdAt'', JStr ''t''), (''opencodeVersion'', JStr ''1.18.0'')])) else None), m)),
      sr_smembers = (\<lambda>k m. (Inr [''s''], m)), sr_mget = (\<lambda>ks m. (Inr (map (\<lambda>_. None) ks), m)),
      sr_srem = (\<lambda>k ids m. (Inr (), m)), sr_ping = (\<lambda>m. (Inr (), m))\<rparr>"

definition some_server :: "mem server" where
  "some_server =
     \<lparr>sv_auth = deployment, sv_store = one_session, sv_webhook = yes_webhook, sv_rc = config_without [], sv_every = run_every,
      sv_hosts = any_host, sv_info = some_info,
      sv_fetch = (\<lambda>r. Some \<lparr>us_status = 200, us_headers = [], us_body = None\<rparr>)\<rparr>"

definition some_incoming :: incoming where
  "some_incoming =
     \<lparr>in_method = ''GET'', in_url = ''http://h/proxy/s/session'', in_path = ''/proxy/s/session'', in_sessionId = ''s'', in_length = None,
      in_stream = None,
      in_headers = [(''authorization'', ''Bearer '' @ signAccessToken (\<lambda>k d. d) some_claims (cf_tokenSecret (ad_config deployment)) 900 0)],
      in_query = (\<lambda>_. None)\<rparr>"

lemma served_run: "case fst (proxy_route some_server 0 some_incoming empty_mem) of Inr (Proxied c p) \<Rightarrow> True | _ \<Rightarrow> False"
  by code_simp

theorem tenant_isolation_witness:
  "\<exists>c p token claims. fst (proxy_route some_server 0 some_incoming empty_mem) = Inr (Proxied c p) \<and>
     sm_userId (cv_session c) = ac_uid claims \<and>
     verifyAccessToken (ad_hmac deployment) token (cf_tokenSecret (ad_config deployment)) 0 = Inr (Some claims)"
proof -
  from served_run obtain c p where r: "fst (proxy_route some_server 0 some_incoming empty_mem) = Inr (Proxied c p)"
    by (auto split: sum.splits served.splits)
  have e: "hono_every (sv_every some_server)" using run.hono_every_axioms by (simp add: some_server_def)
  have a: "sv_auth some_server = deployment" by (simp add: some_server_def)
  from tenant_isolation [OF e run_eq [OF r], of c p] r show ?thesis unfolding a by blast
qed

end
