(* ===== verification/Mux.thy ===== *)
theory Mux
  imports Http Query Machines "HOL-Library.Word" "HOL-Library.AList"
begin

text \<open>
  The CLI's end of the tunnel, first part of \<open>cli/src/tunnel.ts\<close>: the frames, the requests
  forwarded to the local opencode and the multiplexer that relates frames to requests and to raw
  sockets. A tunnel connection and a socket are numbers. \<open>mux_step\<close> is what a handler does:
  the module's maps it leaves and the calls it makes. The request bodies wait in one map for the
  whole module (\<open>pendingRequests\<close>), the sockets in one map per tunnel.
\<close>

section \<open>Frames\<close>

type_synonym stream_id = "32 word"

definition FRAME_REQUEST_HEADERS :: nat where "FRAME_REQUEST_HEADERS = 1"
definition FRAME_RESPONSE_HEADERS :: nat where "FRAME_RESPONSE_HEADERS = 2"
definition FRAME_DATA :: nat where "FRAME_DATA = 3"
definition FRAME_END :: nat where "FRAME_END = 4"

lemmas frame_types = FRAME_REQUEST_HEADERS_def FRAME_RESPONSE_HEADERS_def FRAME_DATA_def FRAME_END_def

record frame =
  fr_streamId :: stream_id
  fr_type :: nat
  fr_payload :: str

text \<open>\<open>setUint32\<close> and \<open>getUint32\<close>, big endian; \<open>setUint8\<close> keeps the low byte.\<close>

definition set_uint32 :: "stream_id \<Rightarrow> str" where
  "set_uint32 w =
     (let n = unat w in map char_of [n div 16777216, n div 65536 mod 256, n div 256 mod 256, n mod 256])"

definition get_uint32 :: "char \<Rightarrow> char \<Rightarrow> char \<Rightarrow> char \<Rightarrow> stream_id" where
  "get_uint32 a b c d = word_of_nat (16777216 * byte a + 65536 * byte b + 256 * byte c + byte d)"

definition encodeFrame :: "stream_id \<Rightarrow> nat \<Rightarrow> str \<Rightarrow> str" where
  "encodeFrame streamId type payload = set_uint32 streamId @ char_of type # payload"

text \<open>Reading beyond the end throws (\<open>None\<close>).\<close>

definition decodeFrameHeader :: "str \<Rightarrow> frame option" where
  "decodeFrameHeader data =
     (case data of
        a # b # c # d # t # payload \<Rightarrow> Some \<lparr>fr_streamId = get_uint32 a b c d, fr_type = byte t, fr_payload = payload\<rparr>
      | _ \<Rightarrow> None)"

lemma uint32_bytes:
  fixes n :: nat
  assumes "n < 4294967296"
  shows "16777216 * (n div 16777216 mod 256) + 65536 * (n div 65536 mod 256 mod 256) + 256 * (n div 256 mod 256 mod 256) + n mod 256 mod 256 = n"
proof -
  have a: "n div 16777216 < 256" using assms by simp
  have b: "n div 65536 = 256 * (n div 16777216) + n div 65536 mod 256"
    using div_mult_mod_eq [of "n div 65536" 256] by (simp add: div_mult2_eq [symmetric])
  have c: "n div 256 = 256 * (n div 65536) + n div 256 mod 256"
    using div_mult_mod_eq [of "n div 256" 256] by (simp add: div_mult2_eq [symmetric])
  have d: "n = 256 * (n div 256) + n mod 256" by simp
  have sum: "n = 256 * z + w" "z = 256 * y + v" "y = 256 * x + u \<Longrightarrow> n = 16777216 * x + 65536 * u + 256 * v + w"
    if "n = 256 * z + w" "z = 256 * y + v" for x y z u v w :: nat
    using that by simp_all
  show ?thesis unfolding mod_mod_trivial mod_less [OF a] using sum(3) [OF d c b] by simp
qed

lemma get_set_uint32: "set_uint32 w = [a, b, c, d] \<Longrightarrow> get_uint32 a b c d = w"
proof -
  assume "set_uint32 w = [a, b, c, d]"
  then have "a = char_of (unat w div 16777216)" "b = char_of (unat w div 65536 mod 256)"
    "c = char_of (unat w div 256 mod 256)" "d = char_of (unat w mod 256)"
    by (simp_all add: set_uint32_def Let_def)
  moreover have "unat w < 4294967296" using unsigned_less [of w] by simp
  ultimately show ?thesis using uint32_bytes [of "unat w"] by (simp add: get_uint32_def)
qed

lemma low_byte: "(d::nat) < 256 \<Longrightarrow> (256 * k + d) mod 256 = d" "(d::nat) < 256 \<Longrightarrow> (256 * k + d) div 256 = k"
  by simp_all

lemma mult_256: "256 * 256 = (65536::nat)" "65536 * 256 = (16777216::nat)"
  by simp_all

lemma unat_stream_id: "n < 4294967296 \<Longrightarrow> unat (word_of_nat n :: stream_id) = n"
  by (simp add: unsigned_of_nat take_bit_nat_eq_self)

lemma set_get_uint32: "set_uint32 (get_uint32 a b c d) = [a, b, c, d]"
proof -
  let ?n = "16777216 * byte a + 65536 * byte b + 256 * byte c + byte d"
  have l: "byte a < 256" "byte b < 256" "byte c < 256" "byte d < 256" by simp_all
  then have "?n < 4294967296" by linarith
  then have u: "unat (get_uint32 a b c d) = ?n" unfolding get_uint32_def by (rule unat_stream_id)
  have n: "?n = 256 * (256 * (256 * byte a + byte b) + byte c) + byte d" by simp
  have d: "?n mod 256 = byte d" and n1: "?n div 256 = 256 * (256 * byte a + byte b) + byte c" using low_byte l(4) unfolding n by blast+
  have c: "?n div 256 mod 256 = byte c" and n2: "?n div 256 div 256 = 256 * byte a + byte b" using low_byte l(3) unfolding n1 by blast+
  have b: "?n div 65536 mod 256 = byte b" and a: "?n div 16777216 = byte a"
    using low_byte l(2) n2 div_mult2_eq [of ?n 256 256] div_mult2_eq [of ?n 65536 256] by (metis mult_256)+
  show ?thesis unfolding set_uint32_def u Let_def a b c d by simp
qed

lemma set_uint32_length: "\<exists>a b c d. set_uint32 w = [a, b, c, d]"
  by (simp add: set_uint32_def Let_def)

section \<open>Requests to the local opencode\<close>

record RequestHeaders =
  rh_method :: str
  rh_path :: str
  rh_headers :: "(str \<times> str) list"
  rh_hasBody :: bool

text \<open>\<open>JSON.parse(json)\<close> as a \<open>RequestHeaders\<close>.\<close>

definition string_entry :: "str \<times> json \<Rightarrow> str + str \<times> str" where
  "string_entry p = (case snd p of JStr v \<Rightarrow> Inr (fst p, v) | _ \<Rightarrow> Inl ''TypeError'')"

definition read_request :: "str \<Rightarrow> str + RequestHeaders" where
  "read_request text =
     (case jparse text of
        None \<Rightarrow> Inl ''SyntaxError''
      | Some (JObj ps) \<Rightarrow>
          (case (get_prop ps ''method'', get_prop ps ''path'', get_prop ps ''headers'', get_prop ps ''hasBody'') of
             (Some (JStr m), Some (JStr p), Some (JObj hs), Some (JBool b)) \<Rightarrow>
               andThen (traverse string_entry hs) (\<lambda>headers.
                 Inr \<lparr>rh_method = m, rh_path = p, rh_headers = headers, rh_hasBody = b\<rparr>)
           | _ \<Rightarrow> Inl ''TypeError'')
      | Some _ \<Rightarrow> Inl ''TypeError'')"

record LocalTarget =
  lt_url :: str
  lt_authorization :: "str option"

text \<open>The parts of a \<open>URL\<close> that are used.\<close>

record Target =
  tg_origin :: str
  tg_hostname :: str
  tg_port :: str
  tg_pathname :: str
  tg_search :: str

definition isWebSocketUpgrade :: "(str \<times> str) list \<Rightarrow> bool" where
  "isWebSocketUpgrade hs = list_ex (\<lambda>(k, v). lower k = ''upgrade'' \<and> lower v = ''websocket'') hs"

text \<open>\<open>searchParams.delete\<close>, which writes the query anew.\<close>

definition drop_param :: "str \<Rightarrow> Target \<Rightarrow> Target" where
  "drop_param name t =
     (let q = form_serialize (params_delete name (search_params (tg_search t)))
      in t\<lparr>tg_search := (if q = [] then [] else CHR ''?'' # q)\<rparr>)"

definition has_param :: "str \<Rightarrow> Target \<Rightarrow> bool" where
  "has_param name t \<longleftrightarrow> params_get name (search_params (tg_search t)) \<noteq> None"

text \<open>\<open>new_URL path base\<close> is \<open>new URL(path, base)\<close>, \<open>None\<close> when it throws.\<close>

definition buildLocalRequest ::
  "(str \<Rightarrow> str \<Rightarrow> Target option) \<Rightarrow> RequestHeaders \<Rightarrow> LocalTarget \<Rightarrow> (Target \<times> (str \<times> str) list) option" where
  "buildLocalRequest new_URL req local =
     (case new_URL (rh_path req) (lt_url local) of
        None \<Rightarrow> None
      | Some target \<Rightarrow>
          (case lt_authorization local of
             None \<Rightarrow> Some (target, rh_headers req)
           | Some authorization \<Rightarrow>
               let target = (if has_param ''auth_token'' target then drop_param ''auth_token'' target else target);
                   headers = filter (\<lambda>(k, v). lower k \<noteq> ''authorization'') (rh_headers req)
               in Some (target, headers @ [(''authorization'', authorization)])))"

definition WS_HOP_BY_HOP_HEADERS :: "str list" where
  "WS_HOP_BY_HOP_HEADERS = [''host'', ''content-length'', ''accept-encoding'']"

text \<open>The request of a WebSocket upgrade and the one of \<open>fetch\<close>.\<close>

record local_call =
  lc_host :: str
  lc_port :: str
  lc_path :: str
  lc_method :: str
  lc_headers :: "(str \<times> str) list"
  lc_body :: "str option"

definition upgrade_call :: "(str \<Rightarrow> str \<Rightarrow> Target option) \<Rightarrow> RequestHeaders \<Rightarrow> LocalTarget \<Rightarrow> local_call option" where
  "upgrade_call new_URL req local =
     map_option (\<lambda>(target, headers).
       \<lparr>lc_host = tg_hostname target, lc_port = (if tg_port target = [] then ''80'' else tg_port target),
        lc_path = tg_pathname target @ tg_search target, lc_method = rh_method req,
        lc_headers = filter (\<lambda>(k, v). lower k \<notin> set WS_HOP_BY_HOP_HEADERS) headers, lc_body = None\<rparr>)
       (buildLocalRequest new_URL req local)"

definition http_call ::
  "(str \<Rightarrow> str \<Rightarrow> Target option) \<Rightarrow> RequestHeaders \<Rightarrow> LocalTarget \<Rightarrow> str option \<Rightarrow> local_call option" where
  "http_call new_URL req local body =
     map_option (\<lambda>(target, headers).
       \<lparr>lc_host = tg_hostname target, lc_port = tg_port target, lc_path = tg_pathname target @ tg_search target, lc_method = rh_method req,
        lc_headers = filter (\<lambda>(k, v). k \<noteq> ''accept-encoding'' \<and> k \<noteq> ''Accept-Encoding'') headers, lc_body = body\<rparr>)
       (buildLocalRequest new_URL req local)"

section \<open>Responses\<close>

definition headers_json :: "(str \<times> str) list \<Rightarrow> json" where
  "headers_json hs = JObj (map (\<lambda>(k, v). (k, JStr v)) hs)"

definition response_headers_frame :: "stream_id \<Rightarrow> nat \<Rightarrow> (str \<times> str) list \<Rightarrow> str" where
  "response_headers_frame sid status hs =
     encodeFrame sid FRAME_RESPONSE_HEADERS (jprint (JObj [(''status'', JNum (int status) 0), (''headers'', headers_json hs)]))"

definition error_frames :: "stream_id \<Rightarrow> str \<Rightarrow> str list" where
  "error_frames sid message =
     [response_headers_frame sid 502 [(''content-type'', ''text/plain'')],
      encodeFrame sid FRAME_DATA (''proxy error: '' @ message),
      encodeFrame sid FRAME_END []]"

text \<open>What \<open>fetch\<close> brings: it fails, or a response whose body comes in chunks and may break off.\<close>

datatype fetched = FetchFailed str | Fetched nat headers "str list option" "str option"

definition response_frames :: "stream_id \<Rightarrow> fetched \<Rightarrow> str list" where
  "response_frames sid r =
     (case r of
        FetchFailed e \<Rightarrow> error_frames sid e
      | Fetched status hs body broken \<Rightarrow>
          response_headers_frame sid status
            (filter (\<lambda>(k, v). k \<noteq> ''content-encoding'' \<and> k \<noteq> ''transfer-encoding'' \<and> k \<noteq> ''content-length'') hs) #
          (case body of None \<Rightarrow> [] | Some cs \<Rightarrow> map (encodeFrame sid FRAME_DATA) (filter (\<lambda>c. c \<noteq> []) cs)) @
          (case broken of None \<Rightarrow> [encodeFrame sid FRAME_END []] | Some e \<Rightarrow> error_frames sid e))"

text \<open>\<open>for (let i = 0; i < rawHeaders.length; i += 2) headers[rawHeaders[i]] = rawHeaders[i + 1]\<close>.\<close>

fun headerPairsToRecord :: "str list \<Rightarrow> (str \<times> str) list \<Rightarrow> (str \<times> str) list" where
  "headerPairsToRecord (k # v # raw) acc = headerPairsToRecord raw (AList.update k v acc)"
| "headerPairsToRecord _ acc = acc"

section \<open>The multiplexer\<close>

record pending =
  pd_req :: RequestHeaders
  pd_chunks :: "str list"
  pd_local :: LocalTarget
  pd_ws :: nat

record mux =
  mx_pending :: "stream_id \<Rightarrow> pending option"
  mx_streams :: "nat \<Rightarrow> (stream_id \<times> nat) list option"

definition mux_start :: mux where
  "mux_start = \<lparr>mx_pending = (\<lambda>_. None), mx_streams = (\<lambda>_. None)\<rparr>"

datatype mux_action =
    SocketWrite nat str
  | SocketEnd nat
  | SocketDestroy nat
  | DoProxy nat stream_id RequestHeaders LocalTarget "str option"
  | DialUpgrade nat stream_id RequestHeaders LocalTarget
  | SendFrame nat str

definition streams_of :: "mux \<Rightarrow> nat \<Rightarrow> (stream_id \<times> nat) list" where
  "streams_of m ws = (case mx_streams m ws of None \<Rightarrow> [] | Some t \<Rightarrow> t)"

definition active_socket :: "mux \<Rightarrow> nat \<Rightarrow> stream_id \<Rightarrow> nat option" where
  "active_socket m ws sid = map_of (streams_of m ws) sid"

definition set_streams :: "mux \<Rightarrow> nat \<Rightarrow> (stream_id \<times> nat) list option \<Rightarrow> mux" where
  "set_streams m ws t = m\<lparr>mx_streams := (mx_streams m)(ws := t)\<rparr>"

definition closeAllStreamsFor :: "mux \<Rightarrow> nat \<Rightarrow> mux \<times> mux_action list" where
  "closeAllStreamsFor m ws =
     (case mx_streams m ws of
        None \<Rightarrow> (m, [])
      | Some t \<Rightarrow> (set_streams m ws None, map (\<lambda>(_, socket). SocketDestroy socket) t))"

definition handleBodyFrame :: "mux \<Rightarrow> nat \<Rightarrow> stream_id \<Rightarrow> nat \<Rightarrow> str \<Rightarrow> mux \<times> mux_action list" where
  "handleBodyFrame m ws sid type payload =
     (case active_socket m ws sid of
        Some socket \<Rightarrow>
          if type = FRAME_DATA then (m, [SocketWrite socket payload])
          else if type = FRAME_END
          then (set_streams m ws (Some (AList.delete sid (streams_of m ws))), [SocketEnd socket])
          else (m, [])
      | None \<Rightarrow>
          (case mx_pending m sid of
             None \<Rightarrow> (m, [])
           | Some p \<Rightarrow>
               if type = FRAME_DATA
               then (m\<lparr>mx_pending := (mx_pending m)(sid \<mapsto> p\<lparr>pd_chunks := pd_chunks p @ [payload]\<rparr>)\<rparr>, [])
               else if type = FRAME_END
               then (m\<lparr>mx_pending := (mx_pending m)(sid := None)\<rparr>,
                     [DoProxy (pd_ws p) sid (pd_req p) (pd_local p) (Some (concat (pd_chunks p)))])
               else (m, [])))"

definition proxyToLocal :: "mux \<Rightarrow> nat \<Rightarrow> stream_id \<Rightarrow> RequestHeaders \<Rightarrow> LocalTarget \<Rightarrow> mux \<times> mux_action list" where
  "proxyToLocal m ws sid req local =
     (if isWebSocketUpgrade (rh_headers req) then (m, [DialUpgrade ws sid req local])
      else if rh_hasBody req
      then (m\<lparr>mx_pending := (mx_pending m)(sid \<mapsto> \<lparr>pd_req = req, pd_chunks = [], pd_local = local, pd_ws = ws\<rparr>)\<rparr>, [])
      else (m, [DoProxy ws sid req local None]))"

text \<open>The \<open>message\<close> handler of a tunnel. A request that cannot be read throws.\<close>

definition on_message :: "mux \<Rightarrow> nat \<Rightarrow> LocalTarget \<Rightarrow> str \<Rightarrow> str + mux \<times> mux_action list" where
  "on_message m ws local data =
     (if length data < 5 then Inr (m, [])
      else case decodeFrameHeader data of
        None \<Rightarrow> Inl ''RangeError''
      | Some f \<Rightarrow>
          if fr_type f = FRAME_REQUEST_HEADERS
          then andThen (read_request (textDecode (fr_payload f))) (\<lambda>req. Inr (proxyToLocal m ws (fr_streamId f) req local))
          else if fr_type f = FRAME_DATA \<or> fr_type f = FRAME_END
          then Inr (handleBodyFrame m ws (fr_streamId f) (fr_type f) (fr_payload f))
          else Inr (m, []))"

text \<open>The handlers of an upgraded socket; a close or an error only forgets its own socket.\<close>

definition on_upgrade :: "mux \<Rightarrow> nat \<Rightarrow> stream_id \<Rightarrow> nat \<Rightarrow> nat \<Rightarrow> str list \<Rightarrow> str \<Rightarrow> mux \<times> mux_action list" where
  "on_upgrade m ws sid socket status raw head =
     (set_streams m ws (Some (AList.update sid socket (streams_of m ws))),
      SendFrame ws (response_headers_frame sid status (headerPairsToRecord raw [])) #
      (if head \<noteq> [] then [SendFrame ws (encodeFrame sid FRAME_DATA head)] else []))"

definition on_socket_end :: "mux \<Rightarrow> nat \<Rightarrow> stream_id \<Rightarrow> nat \<Rightarrow> mux \<times> mux_action list" where
  "on_socket_end m ws sid socket =
     (if active_socket m ws sid = Some socket
      then set_streams m ws (Some (AList.delete sid (streams_of m ws))) else m,
      [SendFrame ws (encodeFrame sid FRAME_END [])])"

text \<open>The local server answered without upgrading, or could not be reached.\<close>

definition no_upgrade_frames :: "stream_id \<Rightarrow> nat \<Rightarrow> str list \<Rightarrow> str \<Rightarrow> str list" where
  "no_upgrade_frames sid status raw body =
     response_headers_frame sid status (headerPairsToRecord raw []) #
     (if body \<noteq> [] then [encodeFrame sid FRAME_DATA body] else []) @ [encodeFrame sid FRAME_END []]"

datatype mux_event =
    Message nat LocalTarget str
  | Upgraded nat stream_id nat nat "str list" str
  | SocketData nat stream_id nat str
  | SocketClosed nat stream_id nat
  | NotUpgraded nat stream_id nat "str list" "str list"
  | DialFailed nat stream_id str
  | Responded nat stream_id fetched
  | TunnelClosed nat

fun mux_step :: "mux \<Rightarrow> mux_event \<Rightarrow> mux \<times> mux_action list" where
  "mux_step m (Message ws local data) = (case on_message m ws local data of Inl _ \<Rightarrow> (m, []) | Inr r \<Rightarrow> r)"
| "mux_step m (Upgraded ws sid socket status raw head) = on_upgrade m ws sid socket status raw head"
| "mux_step m (SocketData ws sid socket chunk) = (m, [SendFrame ws (encodeFrame sid FRAME_DATA chunk)])"
| "mux_step m (SocketClosed ws sid socket) = on_socket_end m ws sid socket"
| "mux_step m (NotUpgraded ws sid status raw chunks) =
     (m, map (SendFrame ws) (no_upgrade_frames sid status raw (concat chunks)))"
| "mux_step m (DialFailed ws sid message) = (m, map (SendFrame ws) (error_frames sid message))"
| "mux_step m (Responded ws sid r) = (m, map (SendFrame ws) (response_frames sid r))"
| "mux_step m (TunnelClosed ws) = closeAllStreamsFor m ws"

abbreviation mux_run :: "mux \<Rightarrow> mux_event list \<Rightarrow> mux" where
  "mux_run m es \<equiv> fst (feed mux_step m es)"

section \<open>Where a socket comes from\<close>

text \<open>The sockets of a tunnel after a run: each was opened for its stream on that tunnel, which has not closed since.\<close>

definition opened_on :: "mux_event list \<Rightarrow> nat \<Rightarrow> stream_id \<Rightarrow> nat \<Rightarrow> bool" where
  "opened_on es ws sid socket \<longleftrightarrow>
     (\<exists>es1 es2 status raw head. es = es1 @ Upgraded ws sid socket status raw head # es2 \<and> TunnelClosed ws \<notin> set es2)"

lemma opened_on_snoc:
  "opened_on (es @ [e]) ws sid socket \<longleftrightarrow>
    (\<exists>status raw head. e = Upgraded ws sid socket status raw head) \<or> opened_on es ws sid socket \<and> e \<noteq> TunnelClosed ws"
proof
  assume "opened_on (es @ [e]) ws sid socket"
  then obtain es1 es2 status raw head where o: "es @ [e] = es1 @ Upgraded ws sid socket status raw head # es2" "TunnelClosed ws \<notin> set es2"
    by (auto simp: opened_on_def)
  show "(\<exists>status raw head. e = Upgraded ws sid socket status raw head) \<or> opened_on es ws sid socket \<and> e \<noteq> TunnelClosed ws"
  proof (cases es2 rule: rev_cases)
    case Nil
    then show ?thesis using o(1) by auto
  next
    case (snoc fs f)
    then have "es = es1 @ Upgraded ws sid socket status raw head # fs" "f = e" using o(1) by auto
    moreover have "TunnelClosed ws \<notin> set fs" "f \<noteq> TunnelClosed ws" using o(2) snoc by auto
    ultimately show ?thesis unfolding opened_on_def by blast
  qed
next
  assume "(\<exists>status raw head. e = Upgraded ws sid socket status raw head) \<or> opened_on es ws sid socket \<and> e \<noteq> TunnelClosed ws"
  then show "opened_on (es @ [e]) ws sid socket"
  proof
    assume "\<exists>status raw head. e = Upgraded ws sid socket status raw head"
    then show ?thesis unfolding opened_on_def by (metis empty_iff empty_set)
  next
    assume "opened_on es ws sid socket \<and> e \<noteq> TunnelClosed ws"
    then obtain es1 es2 status raw head where "es = es1 @ Upgraded ws sid socket status raw head # es2" "TunnelClosed ws \<notin> set es2"
      "e \<noteq> TunnelClosed ws" by (auto simp: opened_on_def)
    then have "es @ [e] = es1 @ Upgraded ws sid socket status raw head # (es2 @ [e])" "TunnelClosed ws \<notin> set (es2 @ [e])" by auto
    then show ?thesis unfolding opened_on_def by blast
  qed
qed

lemma streams_set [simp]:
  "active_socket (set_streams m ws t) ws' sid =
    (if ws' = ws then map_of (case t of None \<Rightarrow> [] | Some s \<Rightarrow> s) sid else active_socket m ws' sid)"
  by (simp add: active_socket_def streams_of_def set_streams_def)

lemma active_pending [simp]: "active_socket (m\<lparr>mx_pending := p\<rparr>) ws sid = active_socket m ws sid"
  by (simp add: active_socket_def streams_of_def)

lemma handleBodyFrame_active:
  "active_socket (fst (handleBodyFrame m ws sid type payload)) ws' sid' = Some socket \<Longrightarrow> active_socket m ws' sid' = Some socket"
  by (auto simp: handleBodyFrame_def delete_conv' active_socket_def [symmetric] split: option.splits if_splits)

lemma proxyToLocal_active: "active_socket (fst (proxyToLocal m ws sid req local)) ws' sid' = active_socket m ws' sid'"
  by (auto simp: proxyToLocal_def)

lemma on_message_active:
  assumes "on_message m ws local data = Inr r" "active_socket (fst r) ws' sid' = Some socket"
  shows "active_socket m ws' sid' = Some socket"
proof (cases "length data < 5 \<or> decodeFrameHeader data = None")
  case True
  then show ?thesis using assms by (auto simp: on_message_def split: if_splits)
next
  case False
  then obtain f where f: "decodeFrameHeader data = Some f" by auto
  show ?thesis
  proof (cases "fr_type f = FRAME_REQUEST_HEADERS")
    case True
    then obtain req where "r = proxyToLocal m ws (fr_streamId f) req local"
      using assms(1) False f by (auto simp: on_message_def andThen_eq_Inr)
    then show ?thesis using assms(2) by (simp only: proxyToLocal_active)
  next
    case nf: False
    then have "r = (m, []) \<or> r = handleBodyFrame m ws (fr_streamId f) (fr_type f) (fr_payload f)"
      using assms(1) False f by (simp add: on_message_def split: if_splits)
    then show ?thesis using assms(2) handleBodyFrame_active by (metis fst_conv)
  qed
qed

lemma mux_step_active:
  assumes "active_socket (fst (mux_step m e)) ws sid = Some socket"
  shows "(\<exists>status raw head. e = Upgraded ws sid socket status raw head) \<or> active_socket m ws sid = Some socket \<and> e \<noteq> TunnelClosed ws"
proof (cases e)
  case (Message ws' local data)
  then show ?thesis using assms on_message_active by (auto split: sum.splits)
next
  case (Upgraded ws' sid' socket' status raw head)
  then show ?thesis using assms
    by (auto simp: on_upgrade_def update_conv' active_socket_def [symmetric] split: if_splits)
next
  case (SocketClosed ws' sid' socket')
  then show ?thesis using assms
    by (auto simp: on_socket_end_def delete_conv' active_socket_def [symmetric] split: if_splits)
next
  case (TunnelClosed ws')
  have "active_socket m ws sid = None" if "mx_streams m ws = None"
    using that by (simp add: active_socket_def streams_of_def)
  with TunnelClosed show ?thesis using assms
    by (cases "ws' = ws") (auto simp: closeAllStreamsFor_def split: option.splits)
qed (use assms in simp_all)

lemma run_sockets: "active_socket (mux_run mux_start es) ws sid = Some socket \<Longrightarrow> opened_on es ws sid socket"
proof (induction es arbitrary: ws sid socket rule: rev_induct)
  case Nil
  then show ?case by (simp add: mux_start_def active_socket_def streams_of_def)
next
  case (snoc e es)
  have "active_socket (fst (mux_step (mux_run mux_start es) e)) ws sid = Some socket"
    using snoc.prems by simp
  then show ?case using mux_step_active snoc.IH unfolding opened_on_snoc by blast
qed


section \<open>What the multiplexer promises\<close>

lemma decode_encode: "decodeFrameHeader (encodeFrame sid type payload) = Some \<lparr>fr_streamId = sid, fr_type = type mod 256, fr_payload = payload\<rparr>"
proof -
  obtain a b c d where w: "set_uint32 sid = [a, b, c, d]" using set_uint32_length by blast
  show ?thesis using get_set_uint32 [OF w] by (simp add: encodeFrame_def decodeFrameHeader_def w)
qed

lemma decode_inverse: "decodeFrameHeader data = Some f \<Longrightarrow> encodeFrame (fr_streamId f) (fr_type f) (fr_payload f) = data"
  by (auto simp: decodeFrameHeader_def encodeFrame_def set_get_uint32 split: list.splits)

lemma encodeFrame_length: "length (encodeFrame sid type payload) = 5 + length payload"
  by (simp add: encodeFrame_def set_uint32_def Let_def)

text \<open>The frame format loses nothing: a frame is read back as its stream id, its type byte and its
  payload, only data shorter than a frame's header is not read, and what is read encodes to the same bytes.\<close>

theorem frame_round_trip:
  "decodeFrameHeader (encodeFrame sid type payload) = Some \<lparr>fr_streamId = sid, fr_type = type mod 256, fr_payload = payload\<rparr> \<and>
   (case decodeFrameHeader data of
      None \<Rightarrow> length data < 5
    | Some f \<Rightarrow> encodeFrame (fr_streamId f) (fr_type f) (fr_payload f) = data)"
proof -
  have "case decodeFrameHeader data of None \<Rightarrow> length data < 5 | Some f \<Rightarrow> encodeFrame (fr_streamId f) (fr_type f) (fr_payload f) = data"
  proof (cases "decodeFrameHeader data")
    case None
    then show ?thesis by (auto simp: decodeFrameHeader_def split: list.splits)
  next
    case (Some f)
    then show ?thesis using decode_inverse by simp
  qed
  then show ?thesis using decode_encode by blast
qed

text \<open>A frame of the handler.\<close>

lemma on_message_request:
  assumes "read_request (textDecode payload) = Inr req"
  shows "mux_step m (Message ws local (encodeFrame sid FRAME_REQUEST_HEADERS payload)) = proxyToLocal m ws sid req local"
  using assms by (simp add: on_message_def encodeFrame_length decode_encode FRAME_REQUEST_HEADERS_def)

lemma on_message_data:
  "mux_step m (Message ws local (encodeFrame sid FRAME_DATA payload)) = handleBodyFrame m ws sid FRAME_DATA payload"
  by (simp add: on_message_def encodeFrame_length decode_encode FRAME_REQUEST_HEADERS_def FRAME_DATA_def)

lemma on_message_end:
  "mux_step m (Message ws local (encodeFrame sid FRAME_END payload)) = handleBodyFrame m ws sid FRAME_END payload"
  by (simp add: on_message_def encodeFrame_length decode_encode FRAME_REQUEST_HEADERS_def FRAME_DATA_def FRAME_END_def)

lemma message_cases:
  assumes "mux_step m (Message ws local data) = r"
  obtains (ignored) "r = (m, [])"
    | (request) f req where "decodeFrameHeader data = Some f" "fr_type f = FRAME_REQUEST_HEADERS" "r = proxyToLocal m ws (fr_streamId f) req local"
    | (body) f where "decodeFrameHeader data = Some f" "fr_type f = FRAME_DATA \<or> fr_type f = FRAME_END"
        "r = handleBodyFrame m ws (fr_streamId f) (fr_type f) (fr_payload f)"
proof (cases "decodeFrameHeader data")
  case None
  then show thesis using assms ignored by (simp add: on_message_def split: if_splits)
next
  case (Some f)
  show thesis
  proof (cases "length data < 5")
    case True
    then show thesis using assms ignored by (simp add: on_message_def)
  next
    case False
    show thesis
    proof (cases "fr_type f = FRAME_REQUEST_HEADERS")
      case True
      then show thesis using assms ignored request [OF Some True] False Some
        by (cases "read_request (textDecode (fr_payload f))") (auto simp: on_message_def)
    next
      case nr: False
      then show thesis using assms ignored body [OF Some] False Some by (simp add: on_message_def split: if_splits)
    qed
  qed
qed

text \<open>The payloads a run adds to the body of a stream, and the events that do nothing else to it.\<close>

definition body_of :: "stream_id \<Rightarrow> mux_event \<Rightarrow> str list" where
  "body_of sid e =
     (case e of
        Message _ _ data \<Rightarrow>
          (case decodeFrameHeader data of
             None \<Rightarrow> []
           | Some f \<Rightarrow> if fr_streamId f = sid \<and> fr_type f = FRAME_DATA then [fr_payload f] else [])
      | _ \<Rightarrow> [])"

definition body_or_other :: "nat \<Rightarrow> stream_id \<Rightarrow> mux_event \<Rightarrow> bool" where
  "body_or_other ws sid e =
     (case e of
        Message ws' _ data \<Rightarrow>
          (case decodeFrameHeader data of
             None \<Rightarrow> True
           | Some f \<Rightarrow> fr_streamId f \<noteq> sid \<or> ws' = ws \<and> fr_type f = FRAME_DATA)
      | Upgraded ws' sid' _ _ _ _ \<Rightarrow> sid' \<noteq> sid
      | _ \<Rightarrow> True)"

definition collecting :: "nat \<Rightarrow> stream_id \<Rightarrow> RequestHeaders \<Rightarrow> LocalTarget \<Rightarrow> str list \<Rightarrow> mux \<Rightarrow> bool" where
  "collecting ws sid req local chunks m \<longleftrightarrow>
     active_socket m ws sid = None \<and>
     mx_pending m sid = Some \<lparr>pd_req = req, pd_chunks = chunks, pd_local = local, pd_ws = ws\<rparr>"

lemma pending_set [simp]: "mx_pending (set_streams m ws t) = mx_pending m"
  by (simp add: set_streams_def)

lemma handleBodyFrame_pending:
  "sid' \<noteq> sid \<Longrightarrow> mx_pending (fst (handleBodyFrame m ws sid' type payload)) sid = mx_pending m sid"
  by (simp add: handleBodyFrame_def split: option.splits)

lemma proxyToLocal_pending: "sid' \<noteq> sid \<Longrightarrow> mx_pending (fst (proxyToLocal m ws sid' req local)) sid = mx_pending m sid"
  by (simp add: proxyToLocal_def)

lemma collecting_data:
  assumes "collecting ws sid req local chunks m"
  shows "collecting ws sid req local (chunks @ [payload]) (fst (handleBodyFrame m ws sid FRAME_DATA payload))"
  using assms by (simp add: collecting_def handleBodyFrame_def)

lemma collecting_body:
  assumes c: "collecting ws sid req local chunks m" and ok: "body_or_other ws sid (Message ws' l data)"
  shows "collecting ws sid req local (chunks @ body_of sid (Message ws' l data)) (fst (mux_step m (Message ws' l data)))"
proof (cases "\<exists>f. decodeFrameHeader data = Some f \<and> fr_streamId f = sid")
  case True
  then obtain f where f: "decodeFrameHeader data = Some f" "fr_streamId f = sid" "ws' = ws" "fr_type f = FRAME_DATA"
    using ok by (auto simp: body_or_other_def)
  moreover have "data = encodeFrame (fr_streamId f) (fr_type f) (fr_payload f)"
    using decode_inverse [OF f(1)] by simp
  ultimately have d: "data = encodeFrame sid FRAME_DATA (fr_payload f)" by simp
  have "body_of sid (Message ws' l data) = [fr_payload f]" using f by (simp add: body_of_def)
  then show ?thesis using collecting_data [OF c] d f(3) by (metis on_message_data)
next
  case False
  then have b: "body_of sid (Message ws' l data) = []" by (auto simp: body_of_def split: option.splits)
  have s: "active_socket m ws sid = None" "mx_pending m sid = Some \<lparr>pd_req = req, pd_chunks = chunks, pd_local = local, pd_ws = ws\<rparr>"
    using c by (simp_all add: collecting_def)
  have "active_socket (fst (mux_step m (Message ws' l data))) ws sid = None"
  proof (rule ccontr)
    assume "active_socket (fst (mux_step m (Message ws' l data))) ws sid \<noteq> None"
    then show False using mux_step_active s(1) by fastforce
  qed
  moreover have "mx_pending (fst (mux_step m (Message ws' l data))) sid = mx_pending m sid"
    using False by (cases rule: message_cases [OF refl, of m ws' l data])
      (auto simp: handleBodyFrame_pending proxyToLocal_pending simp del: mux_step.simps)
  ultimately show ?thesis using s(2) b by (simp add: collecting_def del: mux_step.simps)
qed

lemma collecting_step:
  assumes c: "collecting ws sid req local chunks m" and ok: "body_or_other ws sid e"
  shows "collecting ws sid req local (chunks @ body_of sid e) (fst (mux_step m e))"
proof (cases "\<exists>ws' l data. e = Message ws' l data")
  case True
  then show ?thesis using collecting_body c ok by blast
next
  case False
  have "active_socket (fst (mux_step m e)) ws sid = None"
  proof (rule ccontr)
    assume "active_socket (fst (mux_step m e)) ws sid \<noteq> None"
    then obtain socket where "active_socket (fst (mux_step m e)) ws sid = Some socket" by blast
    then show False using mux_step_active c ok by (fastforce simp: collecting_def body_or_other_def)
  qed
  moreover have "mx_pending (fst (mux_step m e)) = mx_pending m" using False
    by (cases e) (simp_all add: on_upgrade_def on_socket_end_def closeAllStreamsFor_def split: option.splits)
  moreover have "body_of sid e = []" using False by (cases e) (simp_all add: body_of_def)
  ultimately show ?thesis using c by (simp add: collecting_def)
qed

lemma collecting_run:
  "collecting ws sid req local chunks m \<Longrightarrow> \<forall>e\<in>set es. body_or_other ws sid e \<Longrightarrow>
    collecting ws sid req local (chunks @ concat (map (body_of sid) es)) (mux_run m es)"
proof (induction es arbitrary: m chunks)
  case (Cons e es)
  then have "collecting ws sid req local (chunks @ body_of sid e) (fst (mux_step m e))" using collecting_step by simp
  then show ?case using Cons.IH Cons.prems(2) by fastforce
qed simp


text \<open>C9. A request with a body runs with its own body: whatever the tunnel carries for other streams
  between its headers and its end, and whatever the sockets do, \<open>doProxyToLocal\<close> is called once the
  end arrives, for that request, with the payloads of its data frames in order.\<close>

theorem body_assembled:
  assumes "read_request (textDecode payload) = Inr req" "\<not> isWebSocketUpgrade (rh_headers req)" "rh_hasBody req"
    and "active_socket m ws sid = None"
    and "\<forall>e\<in>set es. body_or_other ws sid e"
  shows "snd (mux_step (mux_run m (Message ws local (encodeFrame sid FRAME_REQUEST_HEADERS payload) # es))
                       (Message ws local (encodeFrame sid FRAME_END [])))
         = [DoProxy ws sid req local (Some (concat (concat (map (body_of sid) es))))]"
proof -
  have "collecting ws sid req local [] (fst (mux_step m (Message ws local (encodeFrame sid FRAME_REQUEST_HEADERS payload))))"
    using assms(2-4) unfolding on_message_request [OF assms(1)] by (simp add: proxyToLocal_def collecting_def)
  then have "collecting ws sid req local (concat (map (body_of sid) es))
      (mux_run m (Message ws local (encodeFrame sid FRAME_REQUEST_HEADERS payload) # es))"
    using collecting_run [OF _ assms(5)] by (metis append_Nil feed_Cons(1))
  then show ?thesis unfolding on_message_end
    by (simp add: collecting_def handleBodyFrame_def FRAME_DATA_def FRAME_END_def)
qed

definition post_json :: str where
  "post_json = jprint (JObj [(''method'', JStr ''POST''), (''path'', JStr ''/x''), (''headers'', JObj []), (''hasBody'', JBool True)])"

definition post_request :: RequestHeaders where
  "post_request = \<lparr>rh_method = ''POST'', rh_path = ''/x'', rh_headers = [], rh_hasBody = True\<rparr>"

definition demo_target :: LocalTarget where
  "demo_target = \<lparr>lt_url = ''http://127.0.0.1:4096'', lt_authorization = None\<rparr>"

lemma post_json_reads: "read_request (textDecode post_json) = Inr post_request"
  by code_simp

theorem body_assembled_witness:
  "snd (mux_step (mux_run mux_start
      [Message 1 demo_target (encodeFrame 7 FRAME_REQUEST_HEADERS post_json),
       Message 1 demo_target (encodeFrame 7 FRAME_DATA ''ab''),
       Message 1 demo_target (encodeFrame 8 FRAME_DATA ''zz''),
       Message 1 demo_target (encodeFrame 7 FRAME_DATA ''c'')])
     (Message 1 demo_target (encodeFrame 7 FRAME_END []))) = [DoProxy 1 7 post_request demo_target (Some ''abc'')]"
  using body_assembled [OF post_json_reads, of mux_start 1 7
      "[Message 1 demo_target (encodeFrame 7 FRAME_DATA ''ab''), Message 1 demo_target (encodeFrame 8 FRAME_DATA ''zz''),
        Message 1 demo_target (encodeFrame 7 FRAME_DATA ''c'')]" demo_target]
  by (simp add: post_request_def isWebSocketUpgrade_def mux_start_def active_socket_def streams_of_def body_or_other_def body_of_def
      decode_encode FRAME_DATA_def)

lemma body_write:
  assumes "SocketWrite socket bytes \<in> set (snd (handleBodyFrame m ws sid type payload))"
  shows "active_socket m ws sid = Some socket \<and> type = FRAME_DATA \<and> bytes = payload"
  using assms by (auto simp: handleBodyFrame_def split: option.splits if_splits)

lemma only_messages_write:
  assumes "SocketWrite socket bytes \<in> set (snd (mux_step m e))"
  obtains ws local data where "e = Message ws local data"
  using assms by (cases e) (auto simp: on_upgrade_def on_socket_end_def closeAllStreamsFor_def split: option.splits)

text \<open>C6. Sockets are isolated by tunnel: bytes are written to a local socket only for a data frame that
  came over the very tunnel on which the socket was opened, for its stream, and only while that tunnel has
  not closed; and what is written is the frame's payload.\<close>

theorem sockets_isolated:
  assumes "SocketWrite socket bytes \<in> set (snd (mux_step (mux_run mux_start es) e))"
  shows "\<exists>ws local sid. e = Message ws local (encodeFrame sid FRAME_DATA bytes) \<and> opened_on es ws sid socket"
proof -
  let ?m = "mux_run mux_start es"
  obtain ws local data where e: "e = Message ws local data" using only_messages_write [OF assms] .
  show ?thesis
  proof (rule message_cases [OF refl, of ?m ws local data])
    assume "mux_step ?m (Message ws local data) = (?m, [])"
    then show ?thesis using assms e by simp
  next
    fix f req
    assume "mux_step ?m (Message ws local data) = proxyToLocal ?m ws (fr_streamId f) req local"
    then show ?thesis using assms e by (auto simp: proxyToLocal_def split: if_splits)
  next
    fix f
    assume d: "decodeFrameHeader data = Some f"
      and r: "mux_step ?m (Message ws local data) = handleBodyFrame ?m ws (fr_streamId f) (fr_type f) (fr_payload f)"
    then have w: "active_socket ?m ws (fr_streamId f) = Some socket" "fr_type f = FRAME_DATA" "bytes = fr_payload f"
      using body_write assms unfolding e by metis+
    have "data = encodeFrame (fr_streamId f) (fr_type f) (fr_payload f)"
      using decode_inverse [OF d] by simp
    then show ?thesis using run_sockets [OF w(1)] e w by auto
  qed
qed

theorem sockets_isolated_witness:
  "\<exists>ws local sid. Message 1 demo_target (encodeFrame 7 FRAME_DATA ''hi'') = Message ws local (encodeFrame sid FRAME_DATA ''hi'') \<and>
     opened_on [Upgraded 1 7 42 101 [] []] ws sid 42"
proof (rule sockets_isolated)
  show "SocketWrite 42 ''hi'' \<in> set (snd (mux_step (mux_run mux_start [Upgraded 1 7 42 101 [] []])
      (Message 1 demo_target (encodeFrame 7 FRAME_DATA ''hi''))))"
    unfolding on_message_data by (simp add: on_upgrade_def handleBodyFrame_def update_conv')
qed

text \<open>C32. The request bodies are not isolated by tunnel. When a tunnel closes in the middle of a request body,
  the request stays in the module's map; on the next tunnel, whose stream ids start anew, the end frame that
  follows a WebSocket stream closed by the local server runs the old request with the part of the body it got.\<close>

theorem stale_request_runs:
  assumes "read_request (textDecode payload) = Inr req" "\<not> isWebSocketUpgrade (rh_headers req)" "rh_hasBody req"
    and "read_request (textDecode upgrade) = Inr ureq" "isWebSocketUpgrade (rh_headers ureq)"
    and "ws \<noteq> ws'"
  shows "snd (mux_step (mux_run mux_start
            [Message ws local (encodeFrame sid FRAME_REQUEST_HEADERS payload), Message ws local (encodeFrame sid FRAME_DATA part),
             TunnelClosed ws,
             Message ws' local (encodeFrame sid FRAME_REQUEST_HEADERS upgrade), Upgraded ws' sid socket 101 raw [],
             SocketClosed ws' sid socket])
           (Message ws' local (encodeFrame sid FRAME_END [])))
         = [DoProxy ws sid req local (Some part)]"
  using assms(2,3,5,6) unfolding feed_Cons feed.simps(1) fst_conv on_message_request [OF assms(1)] on_message_request [OF assms(4)] on_message_data on_message_end
  by (simp add: proxyToLocal_def handleBodyFrame_def closeAllStreamsFor_def mux_start_def active_socket_def streams_of_def
        on_upgrade_def on_socket_end_def set_streams_def FRAME_DATA_def FRAME_END_def)

definition upgrade_json :: str where
  "upgrade_json = jprint (JObj [(''method'', JStr ''GET''), (''path'', JStr ''/pty''), (''headers'', JObj [(''Upgrade'', JStr ''websocket'')]),
                                (''hasBody'', JBool False)])"

lemma upgrade_json_reads:
  "read_request (textDecode upgrade_json) =
    Inr \<lparr>rh_method = ''GET'', rh_path = ''/pty'', rh_headers = [(''Upgrade'', ''websocket'')], rh_hasBody = False\<rparr>"
  by code_simp

theorem stale_request_runs_witness:
  "snd (mux_step (mux_run mux_start
      [Message 1 demo_target (encodeFrame 1 FRAME_REQUEST_HEADERS post_json), Message 1 demo_target (encodeFrame 1 FRAME_DATA ''rm -r /tmp''),
       TunnelClosed 1,
       Message 2 demo_target (encodeFrame 1 FRAME_REQUEST_HEADERS upgrade_json), Upgraded 2 1 9 101 [] [],
       SocketClosed 2 1 9])
     (Message 2 demo_target (encodeFrame 1 FRAME_END [])))
   = [DoProxy 1 1 post_request demo_target (Some ''rm -r /tmp'')]"
proof (rule stale_request_runs [OF post_json_reads _ _ upgrade_json_reads])
  show "\<not> isWebSocketUpgrade (rh_headers post_request)" "rh_hasBody post_request" by (simp_all add: post_request_def isWebSocketUpgrade_def)
  show "isWebSocketUpgrade (rh_headers \<lparr>rh_method = ''GET'', rh_path = ''/pty'', rh_headers = [(''Upgrade'', ''websocket'')], rh_hasBody = False\<rparr>)"
    by code_simp
qed simp

text \<open>What the gateway reads of a response: the data it is sent before the end frame.\<close>

definition frame_data :: "str \<Rightarrow> str" where
  "frame_data fr = (case decodeFrameHeader fr of None \<Rightarrow> [] | Some f \<Rightarrow> if fr_type f = FRAME_DATA then fr_payload f else [])"

definition frame_type_is :: "nat \<Rightarrow> str \<Rightarrow> bool" where
  "frame_type_is t fr = (case decodeFrameHeader fr of None \<Rightarrow> False | Some f \<Rightarrow> fr_type f = t)"

lemma frame_data_simps:
  "frame_data (encodeFrame sid FRAME_DATA p) = p" "frame_data (encodeFrame sid FRAME_END p') = []"
  "frame_data (response_headers_frame sid st hs) = []"
  by (simp_all add: frame_data_def decode_encode response_headers_frame_def frame_types)

lemma frame_type_simps:
  "frame_type_is FRAME_END (encodeFrame sid FRAME_DATA p) = False" "frame_type_is FRAME_END (encodeFrame sid FRAME_END p') = True"
  "frame_type_is FRAME_END (response_headers_frame sid st hs) = False"
  "frame_type_is FRAME_RESPONSE_HEADERS (encodeFrame sid FRAME_DATA p) = False"
  "frame_type_is FRAME_RESPONSE_HEADERS (encodeFrame sid FRAME_END p') = False"
  "frame_type_is FRAME_RESPONSE_HEADERS (response_headers_frame sid st hs) = True"
  by (simp_all add: frame_type_is_def decode_encode response_headers_frame_def frame_types)

lemmas frame_simps = frame_data_simps frame_type_simps

lemma data_frames: "concat (map (frame_data \<circ> encodeFrame sid FRAME_DATA) (filter (\<lambda>c. c \<noteq> []) cs)) = concat cs"
  by (induction cs) (simp_all add: frame_simps)

text \<open>C31. Every exchange with the local server ends for the gateway: its frames start with the response
  headers and end with the only end frame, the data frames between carry the body of the response
  unchanged when it arrived whole, and a failed request is answered 502 with the reason; but when the body
  breaks off, the text of the error follows it as if it were part of it, after a second set of headers.\<close>

theorem response_relayed:
  "frame_type_is FRAME_RESPONSE_HEADERS (hd (response_frames sid r)) \<and>
   (\<exists>fs. response_frames sid r = fs @ [encodeFrame sid FRAME_END []] \<and> list_all (\<lambda>f. \<not> frame_type_is FRAME_END f) fs) \<and>
   (case r of
      FetchFailed e \<Rightarrow>
        hd (response_frames sid r) = response_headers_frame sid 502 [(''content-type'', ''text/plain'')] \<and>
        concat (map frame_data (response_frames sid r)) = ''proxy error: '' @ e
    | Fetched status hs body broken \<Rightarrow>
        concat (map frame_data (response_frames sid r)) =
          (case body of None \<Rightarrow> [] | Some cs \<Rightarrow> concat cs) @ (case broken of None \<Rightarrow> [] | Some e \<Rightarrow> ''proxy error: '' @ e) \<and>
        length (filter (frame_type_is FRAME_RESPONSE_HEADERS) (response_frames sid r)) = (if broken = None then 1 else 2))"
proof -
  let ?data = "\<lambda>body. case body of None \<Rightarrow> [] | Some cs \<Rightarrow> map (encodeFrame sid FRAME_DATA) (filter (\<lambda>c. c \<noteq> []) cs)"
  have d: "concat (map frame_data (?data body)) = (case body of None \<Rightarrow> [] | Some cs \<Rightarrow> concat cs)" for body
    using data_frames by (simp split: option.split)
  have n: "\<forall>f\<in>set (?data body). \<not> frame_type_is FRAME_END f \<and> \<not> frame_type_is FRAME_RESPONSE_HEADERS f" for body
    by (auto simp: frame_simps split: option.splits)
  have z: "filter (frame_type_is FRAME_RESPONSE_HEADERS) (?data body) = []" for body using n by (auto simp: filter_empty_conv)
  show ?thesis
  proof (cases r)
    case (FetchFailed e)
    then have f: "response_frames sid r = [response_headers_frame sid 502 [(''content-type'', ''text/plain'')],
        encodeFrame sid FRAME_DATA (''proxy error: '' @ e)] @ [encodeFrame sid FRAME_END []]"
      by (simp add: response_frames_def error_frames_def)
    have "\<exists>fs. response_frames sid r = fs @ [encodeFrame sid FRAME_END []] \<and> list_all (\<lambda>f. \<not> frame_type_is FRAME_END f) fs"
      unfolding f by (rule exI, rule conjI, rule refl) (simp add: frame_simps)
    then show ?thesis using FetchFailed f by (simp add: frame_simps)
  next
    case (Fetched status hs body broken)
    let ?h = "response_headers_frame sid status (filter (\<lambda>(k, v). k \<noteq> ''content-encoding'' \<and> k \<noteq> ''transfer-encoding'' \<and> k \<noteq> ''content-length'') hs)"
    let ?t = "case broken of None \<Rightarrow> [] | Some e \<Rightarrow> [response_headers_frame sid 502 [(''content-type'', ''text/plain'')],
        encodeFrame sid FRAME_DATA (''proxy error: '' @ e)]"
    have f: "response_frames sid r = (?h # ?data body @ ?t) @ [encodeFrame sid FRAME_END []]"
      using Fetched by (simp add: response_frames_def error_frames_def split: option.split)
    have "list_all (\<lambda>f. \<not> frame_type_is FRAME_END f) (?h # ?data body @ ?t)"
      using n by (auto simp: frame_simps list_all_iff split: option.splits)
    then have "\<exists>fs. response_frames sid r = fs @ [encodeFrame sid FRAME_END []] \<and> list_all (\<lambda>f. \<not> frame_type_is FRAME_END f) fs"
      using f by blast
    moreover have "frame_type_is FRAME_RESPONSE_HEADERS (hd (response_frames sid r))" unfolding f by (simp add: frame_simps)
    moreover have "concat (map frame_data (response_frames sid r)) =
        (case body of None \<Rightarrow> [] | Some cs \<Rightarrow> concat cs) @ (case broken of None \<Rightarrow> [] | Some e \<Rightarrow> ''proxy error: '' @ e)"
      unfolding f using d [of body] by (simp add: frame_simps split: option.split)
    moreover have "length (filter (frame_type_is FRAME_RESPONSE_HEADERS) (response_frames sid r)) = (if broken = None then 1 else 2)"
      unfolding f using z [of body] by (simp add: frame_simps split: option.split)
    ultimately show ?thesis using Fetched by simp
  qed
qed

end
