(* ===== verification/Tunnel.thy ===== *)
theory Tunnel
  imports Mux
begin

text \<open>
  The CLI's connection to the gateway, second part of \<open>cli/src/tunnel.ts\<close>: the address, the
  pre-flight request, the life of one tunnel (\<open>startTunnel\<close>) and the reconnection loop
  (\<open>startTunnelWithReconnect\<close>). The handlers and the loop are state machines over the events
  that drive them; each returns the state it leaves and the calls it makes. Lines written to the
  console are not modelled.
\<close>

section \<open>Address\<close>

definition base_url :: "str \<Rightarrow> str" where
  "base_url gatewayUrl = (if endsWith gatewayUrl ''/'' then butlast gatewayUrl else gatewayUrl)"

definition tunnel_path :: "str \<Rightarrow> str \<Rightarrow> str \<Rightarrow> str" where
  "tunnel_path sessionID directory opencodeVersion =
     ''/tunnel?sessionId='' @ encodeURIComponent sessionID @ ''&directory='' @ encodeURIComponent directory @
     (if opencodeVersion \<noteq> [] then ''&opencodeVersion='' @ encodeURIComponent opencodeVersion else [])"

definition ws_url :: "str \<Rightarrow> str" where
  "ws_url base = (if startsWith base ''http'' then ''ws'' @ drop 4 base else base)"

section \<open>Pre-flight\<close>

text \<open>A \<open>ProtocolError\<close> is fatal; any other error is one the loop retries.\<close>

datatype tunnel_error = ProtocolError str | OtherError str

record preflight_reply =
  pf_status :: nat
  pf_statusText :: str
  pf_protocol :: "str option"
  pf_json :: "json option"
  pf_text :: str

text \<open>\<open>body.k\<close>, where \<open>body\<close> is the JSON of the reply, or \<open>{}\<close> when it is not JSON.\<close>

definition pf_member :: "preflight_reply \<Rightarrow> str \<Rightarrow> str + json option" where
  "pf_member r k =
     (case pf_json r of
        Some JNull \<Rightarrow> Inl ''TypeError''
      | Some (JObj ps) \<Rightarrow> Inr (get_prop ps k)
      | _ \<Rightarrow> Inr None)"

text \<open>\<open>body.message ?? default\<close>; a message that is not a string is given as its JSON text.\<close>

definition message_or :: "json option \<Rightarrow> str \<Rightarrow> str" where
  "message_or v fallback = (case v of None \<Rightarrow> fallback | Some JNull \<Rightarrow> fallback | Some (JStr s) \<Rightarrow> s | Some j \<Rightarrow> jprint j)"

definition outdated_check :: "preflight_reply \<Rightarrow> tunnel_error option" where
  "outdated_check r =
     (if pf_status r = 426
      then (case pf_member r ''error'' of
              Inl e \<Rightarrow> Some (OtherError e)
            | Inr v \<Rightarrow>
                if v = Some (JStr ''client_outdated'')
                then Some (ProtocolError ''opencode-rc CLI is too old for this server. Update it: npm i -g opencode-rc@latest'')
                else None)
      else None)"

definition unsupported_check :: "preflight_reply \<Rightarrow> tunnel_error option" where
  "unsupported_check r =
     (if pf_status r = 422
      then (case (pf_member r ''error'', pf_member r ''message'') of
              (Inr v, Inr msg) \<Rightarrow>
                if v = Some (JStr ''opencode_unsupported'')
                then Some (ProtocolError (message_or msg ''This server does not support the installed opencode version.''))
                else None
            | _ \<Rightarrow> Some (OtherError ''TypeError''))
      else None)"

definition gateway_check :: "str \<Rightarrow> str \<Rightarrow> preflight_reply \<Rightarrow> tunnel_error option" where
  "gateway_check base opencodeVersion r =
     (if pf_status r < 500
      then let gatewayProtocol = readProtocol (pf_protocol r) in
        if gatewayProtocol < MIN_GATEWAY_PROTOCOL
        then Some (ProtocolError (''The gateway at '' @ base @ '' is older than this CLI supports. Ask your administrator to upgrade it.''))
        else if startsWith opencodeVersion ''2.'' \<and> gatewayProtocol < MIN_GATEWAY_PROTOCOL_V2
        then Some (ProtocolError (''The gateway at '' @ base @ '' is too old for opencode 2.x. Ask your administrator to upgrade it.''))
        else None
      else None)"

definition em_dash :: str where "em_dash = map char_of [32, 226, 128, 148, 32 :: nat]"

definition status_check :: "preflight_reply \<Rightarrow> tunnel_error option" where
  "status_check r =
     (if pf_status r \<notin> set [400, 405, 426] \<and> (pf_status r = 401 \<or> pf_status r = 403 \<or> 500 \<le> pf_status r)
      then Some (OtherError (''Tunnel pre-flight failed: '' @ show_nat (pf_status r) @ '' '' @ pf_statusText r @
             (if pf_text r \<noteq> [] then em_dash @ trim (pf_text r) else [])))
      else None)"

fun first_error :: "tunnel_error option list \<Rightarrow> tunnel_error option" where
  "first_error [] = None"
| "first_error (Some e # _) = Some e"
| "first_error (None # es) = first_error es"

text \<open>What \<open>fetch\<close> brings: the message of its failure, or a reply.\<close>

definition preflight :: "str \<Rightarrow> str \<Rightarrow> str + preflight_reply \<Rightarrow> tunnel_error option" where
  "preflight base opencodeVersion fetched =
     (case fetched of
        Inl message \<Rightarrow> Some (OtherError message)
      | Inr r \<Rightarrow> first_error [outdated_check r, unsupported_check r, gateway_check base opencodeVersion r, status_check r])"

section \<open>One tunnel\<close>

record conn =
  cn_connected :: bool
  cn_rejected :: bool

definition conn_start :: conn where "conn_start = \<lparr>cn_connected = False, cn_rejected = False\<rparr>"

datatype conn_event = WsOpen | WsError str | WsClose nat str

datatype conn_action = Resolve | Reject str | Disconnect | CloseStreams

definition rejectOnce :: "conn \<Rightarrow> str \<Rightarrow> conn \<times> conn_action list" where
  "rejectOnce c detail =
     (if cn_rejected c then (c, []) else (c\<lparr>cn_rejected := True\<rparr>, [Reject (''tunnel connection failed: '' @ detail)]))"

definition close_hints :: "nat \<Rightarrow> str \<Rightarrow> str list" where
  "close_hints code reason =
     (if code = 1006 then [''connection was closed abnormally (no close frame received)''] else []) @
     (if code = 401 \<or> includes_str reason ''auth'' then [''authentication may have failed'' @ em_dash @ ''try logging in again''] else [])"

definition close_detail :: "nat \<Rightarrow> str \<Rightarrow> str" where
  "close_detail code reason =
     (if reason \<noteq> [] then reason
      else if join ''; '' (close_hints code reason) \<noteq> [] then join ''; '' (close_hints code reason)
      else ''close code '' @ show_nat code)"

fun conn_step :: "conn \<Rightarrow> conn_event \<Rightarrow> conn \<times> conn_action list" where
  "conn_step c WsOpen = (c\<lparr>cn_connected := True\<rparr>, [Resolve])"
| "conn_step c (WsError message) =
     (if \<not> cn_connected c then rejectOnce c (if message \<noteq> [] then message else ''connection failed'') else (c, []))"
| "conn_step c (WsClose code reason) =
     (let (c', acts) = (if \<not> cn_connected c then rejectOnce c (close_detail code reason) else (c, []))
      in (c', CloseStreams # acts @ [Disconnect]))"

abbreviation conn_run :: "conn \<Rightarrow> conn_event list \<Rightarrow> conn_action list" where
  "conn_run c es \<equiv> snd (feed conn_step c es)"

text \<open>A promise keeps its first settlement.\<close>

fun settled :: "conn_action list \<Rightarrow> (str + unit) option" where
  "settled [] = None"
| "settled (Resolve # _) = Some (Inr ())"
| "settled (Reject e # _) = Some (Inl e)"
| "settled (_ # acts) = settled acts"

section \<open>Reconnection\<close>

datatype phase =
    Initial | InitialSleep   \<comment> \<open>the loop that connects for the first time\<close>
  | Returned                 \<comment> \<open>the caller has its handle, the first tunnel is up\<close>
  | Connecting | Up | Sleeping   \<comment> \<open>\<open>connectLoop\<close>\<close>
  | Stopped

record reconnect =
  rc_phase :: phase
  rc_backoff :: nat
  rc_closed :: bool
  rc_handle :: "nat option"

definition reconnect_start :: reconnect where
  "reconnect_start = \<lparr>rc_phase = Initial, rc_backoff = 1000, rc_closed = False, rc_handle = None\<rparr>"

text \<open>\<open>startTunnel\<close> settles, the current tunnel disconnects, the timer fires, the caller closes.\<close>

datatype rc_event = Attempt "tunnel_error + nat" | Disconnected | Timer | CloseCall

datatype rc_action = Wait nat | Throw tunnel_error | Fatal str | CloseTunnel nat | ResolveOuter

definition grow :: "nat \<Rightarrow> nat" where "grow backoff = min (backoff * 2) 30000"

text \<open>The end of a turn of \<open>connectLoop\<close> and its condition.\<close>

definition retry_later :: "reconnect \<Rightarrow> reconnect \<times> rc_action list" where
  "retry_later s = (if rc_closed s then (s\<lparr>rc_phase := Stopped\<rparr>, []) else (s\<lparr>rc_phase := Sleeping\<rparr>, [Wait (rc_backoff s)]))"

fun rc_step :: "reconnect \<Rightarrow> rc_event \<Rightarrow> reconnect \<times> rc_action list" where
  "rc_step s (Attempt r) =
     (case rc_phase s of
        Initial \<Rightarrow>
          (case r of
             Inr h \<Rightarrow> (s\<lparr>rc_phase := Returned, rc_backoff := 1000, rc_handle := Some h\<rparr>, [])
           | Inl (ProtocolError m) \<Rightarrow> (s\<lparr>rc_phase := Stopped\<rparr>, [Throw (ProtocolError m)])
           | Inl (OtherError m) \<Rightarrow> (s\<lparr>rc_phase := InitialSleep\<rparr>, [Wait (rc_backoff s)]))
      | Connecting \<Rightarrow>
          (case r of
             Inr h \<Rightarrow> (s\<lparr>rc_phase := Up, rc_backoff := 1000, rc_handle := Some h\<rparr>, [])
           | Inl (ProtocolError m) \<Rightarrow> (s\<lparr>rc_phase := Stopped\<rparr>, [Fatal m])
           | Inl (OtherError m) \<Rightarrow> retry_later s)
      | _ \<Rightarrow> (s, []))"
| "rc_step s Disconnected =
     (case rc_phase s of
        Returned \<Rightarrow> (s\<lparr>rc_phase := (if rc_closed s then Stopped else Connecting)\<rparr>, [])
      | Up \<Rightarrow> retry_later s
      | _ \<Rightarrow> (s, []))"
| "rc_step s Timer =
     (case rc_phase s of
        InitialSleep \<Rightarrow> (s\<lparr>rc_phase := Initial, rc_backoff := grow (rc_backoff s)\<rparr>, [])
      | Sleeping \<Rightarrow> (s\<lparr>rc_phase := (if rc_closed s then Stopped else Connecting), rc_backoff := grow (rc_backoff s)\<rparr>, [])
      | _ \<Rightarrow> (s, []))"
| "rc_step s CloseCall =
     (if rc_phase s \<in> {Initial, InitialSleep} then (s, [])
      else (s\<lparr>rc_closed := True\<rparr>, (case rc_handle s of None \<Rightarrow> [] | Some h \<Rightarrow> [CloseTunnel h]) @ [ResolveOuter]))"

abbreviation rc_run :: "reconnect \<Rightarrow> rc_event list \<Rightarrow> reconnect \<times> rc_action list" where
  "rc_run \<equiv> feed rc_step"

section \<open>Properties\<close>

definition plain_key :: "str \<Rightarrow> bool" where
  "plain_key k \<longleftrightarrow> utf8_valid k \<and> list_all (\<lambda>c. c \<noteq> CHR ''='' \<and> c \<noteq> percent \<and> c \<noteq> CHR ''+'' \<and> c \<noteq> CHR ''&'') k"

lemma plain_keys: "plain_key ''sessionId''" "plain_key ''directory''" "plain_key ''opencodeVersion''"
  by code_simp+

lemma form_pair_component:
  assumes "utf8_valid v" "plain_key k"
  shows "form_pair (k @ CHR ''='' # encodeURIComponent v) = (k, v)"
proof -
  have p: "\<forall>c\<in>set k. c \<noteq> CHR ''='' \<and> c \<noteq> percent \<and> c \<noteq> CHR ''+''" using assms(2) by (simp add: plain_key_def list_all_iff)
  then have k: "takeWhile (\<lambda>c. c \<noteq> CHR ''='') (k @ CHR ''='' # encodeURIComponent v) = k"
    "dropWhile (\<lambda>c. c \<noteq> CHR ''='') (k @ CHR ''='' # encodeURIComponent v) = CHR ''='' # encodeURIComponent v"
    by (auto simp: takeWhile_append2 dropWhile_append2)
  have "percent_decode k = k" using p by (induction k) (simp_all add: percent_decode_plain)
  moreover have "map (\<lambda>c. if c = CHR ''+'' then CHR '' '' else c) k = k" by (rule map_idI) (simp add: p)
  ultimately have "form_decode k = k" using assms(2) by (simp add: form_decode_def utf8_replace_valid plain_key_def)
  then show ?thesis using k assms(1) by (simp add: form_pair_def form_decode_component)
qed

lemma component_no_amp: "CHR ''&'' \<notin> set (encodeURIComponent v)"
  using encodeURIComponent_set component_plain_not by fastforce

lemma form_parse_component:
  assumes "\<forall>p\<in>set ps. plain_key (fst p) \<and> utf8_valid (snd p)"
  shows "form_parse (join ''&'' (map (\<lambda>(k, v). k @ CHR ''='' # encodeURIComponent v) ps)) = ps"
proof (cases "ps = []")
  case False
  let ?e = "\<lambda>(k, v). k @ CHR ''='' # encodeURIComponent v"
  have "\<forall>x\<in>set (map ?e ps). CHR ''&'' \<notin> set x"
    using assms component_no_amp by (fastforce simp: plain_key_def list_all_iff)
  then have "split_on (CHR ''&'') (join ''&'' (map ?e ps)) = map ?e ps" using False by (intro split_on_join) auto
  moreover have "filter (\<lambda>p. p \<noteq> []) (map ?e ps) = map ?e ps" by (auto simp: filter_id_conv)
  moreover have "map form_pair (map ?e ps) = ps" using assms form_pair_component by (auto intro!: map_idI)
  ultimately show ?thesis by (simp add: form_parse_def)
qed (simp add: form_parse_def)

lemma search_params_question: "search_params (CHR ''?'' # q) = form_parse q"
  by (simp add: search_params_def startsWith_def)

text \<open>The gateway reads from the tunnel's address the session id, the directory and the version the CLI
  was given, whatever characters they contain.\<close>

theorem tunnel_path_read:
  assumes "utf8_valid sessionID" "utf8_valid directory" "utf8_valid opencodeVersion"
  shows "search_params (dropWhile (\<lambda>c. c \<noteq> CHR ''?'') (tunnel_path sessionID directory opencodeVersion)) =
    [(''sessionId'', sessionID), (''directory'', directory)] @
    (if opencodeVersion \<noteq> [] then [(''opencodeVersion'', opencodeVersion)] else [])"
proof -
  let ?ps = "(''sessionId'', sessionID) # (''directory'', directory) # (if opencodeVersion \<noteq> [] then [(''opencodeVersion'', opencodeVersion)] else [])"
  have k: "\<forall>p\<in>set ?ps. plain_key (fst p) \<and> utf8_valid (snd p)" using assms by (simp add: plain_keys)
  let ?e = "\<lambda>(k, v). k @ CHR ''='' # encodeURIComponent v"
  have q: "dropWhile (\<lambda>c. c \<noteq> CHR ''?'') (tunnel_path sessionID directory opencodeVersion) = CHR ''?'' # join ''&'' (map ?e ?ps)"
    by (simp add: tunnel_path_def)
  show ?thesis unfolding q search_params_question form_parse_component [OF k] by simp
qed


theorem tunnel_path_read_witness:
  "search_params (dropWhile (\<lambda>c. c \<noteq> CHR ''?'') (tunnel_path ''a&b=c'' ''/home/me/my dir'' [])) =
    [(''sessionId'', ''a&b=c''), (''directory'', ''/home/me/my dir'')]"
proof -
  have v: "utf8_valid ''a&b=c''" "utf8_valid ''/home/me/my dir''" "utf8_valid []" by code_simp+
  show ?thesis using tunnel_path_read [OF v] by simp
qed

text \<open>The error member of a refusal.\<close>

definition refusal :: "preflight_reply \<Rightarrow> str" where
  "refusal r = (case pf_member r ''error'' of Inr (Some (JStr e)) \<Rightarrow> e | _ \<Rightarrow> [])"

definition gateway_supports :: "str \<Rightarrow> nat \<Rightarrow> bool" where
  "gateway_supports opencodeVersion protocol \<longleftrightarrow>
     MIN_GATEWAY_PROTOCOL \<le> protocol \<and> (startsWith opencodeVersion ''2.'' \<longrightarrow> MIN_GATEWAY_PROTOCOL_V2 \<le> protocol)"

lemma outdated_None:
  "outdated_check r = None \<longleftrightarrow> \<not> (pf_status r = 426 \<and> (pf_json r = Some JNull \<or> refusal r = ''client_outdated''))"
  by (auto simp: outdated_check_def refusal_def pf_member_def split: option.splits json.splits)

lemma unsupported_None:
  "unsupported_check r = None \<longleftrightarrow> \<not> (pf_status r = 422 \<and> (pf_json r = Some JNull \<or> refusal r = ''opencode_unsupported''))"
  by (auto simp: unsupported_check_def refusal_def pf_member_def split: option.splits json.splits)

lemma gateway_None:
  "gateway_check base v r = None \<longleftrightarrow> (pf_status r < 500 \<longrightarrow> gateway_supports v (readProtocol (pf_protocol r)))"
  by (auto simp: gateway_check_def gateway_supports_def Let_def)

lemma status_None: "status_check r = None \<longleftrightarrow> pf_status r \<noteq> 401 \<and> pf_status r \<noteq> 403 \<and> pf_status r < 500"
  by (auto simp: status_check_def)

text \<open>The pre-flight request lets the CLI go on exactly when the gateway answers below 500, neither 401
  nor 403, with a protocol this CLI supports (a newer one for opencode 2.x), and does not refuse its
  version or that of opencode; when it stops the CLI although the credentials were not refused and the
  server did not fail, a version is the reason and the error is fatal, unless the refusal's body is JSON null.\<close>

theorem preflight_verdict:
  "(preflight base v (Inr r) = None \<longleftrightarrow>
      pf_status r \<noteq> 401 \<and> pf_status r \<noteq> 403 \<and> pf_status r < 500 \<and> gateway_supports v (readProtocol (pf_protocol r)) \<and>
      (pf_status r = 426 \<longrightarrow> pf_json r \<noteq> Some JNull \<and> refusal r \<noteq> ''client_outdated'') \<and>
      (pf_status r = 422 \<longrightarrow> pf_json r \<noteq> Some JNull \<and> refusal r \<noteq> ''opencode_unsupported'')) \<and>
   (pf_status r \<noteq> 401 \<and> pf_status r \<noteq> 403 \<and> pf_status r < 500 \<and> pf_json r \<noteq> Some JNull \<longrightarrow>
      (\<forall>e. preflight base v (Inr r) \<noteq> Some (OtherError e)))"
proof -
  have first: "first_error es = None \<longleftrightarrow> set es \<subseteq> {None}" for es by (induction es rule: first_error.induct) auto
  have some: "first_error es = Some e \<Longrightarrow> Some e \<in> set es" for es e by (induction es rule: first_error.induct) auto
  have none: "preflight base v (Inr r) = None \<longleftrightarrow>
      outdated_check r = None \<and> unsupported_check r = None \<and> gateway_check base v r = None \<and> status_check r = None"
    by (simp add: preflight_def first)
  have iff: "preflight base v (Inr r) = None \<longleftrightarrow>
      pf_status r \<noteq> 401 \<and> pf_status r \<noteq> 403 \<and> pf_status r < 500 \<and> gateway_supports v (readProtocol (pf_protocol r)) \<and>
      (pf_status r = 426 \<longrightarrow> pf_json r \<noteq> Some JNull \<and> refusal r \<noteq> ''client_outdated'') \<and>
      (pf_status r = 422 \<longrightarrow> pf_json r \<noteq> Some JNull \<and> refusal r \<noteq> ''opencode_unsupported'')"
    unfolding none outdated_None unsupported_None gateway_None status_None by blast
  have "preflight base v (Inr r) \<noteq> Some (OtherError e)"
    if "pf_status r \<noteq> 401" "pf_status r \<noteq> 403" "pf_status r < 500" "pf_json r \<noteq> Some JNull" for e
  proof
    assume "preflight base v (Inr r) = Some (OtherError e)"
    then have "Some (OtherError e) \<in> {outdated_check r, unsupported_check r, gateway_check base v r, status_check r}"
      using some by (fastforce simp: preflight_def)
    moreover have "outdated_check r \<noteq> Some (OtherError e)" "unsupported_check r \<noteq> Some (OtherError e)"
      using that(4) by (auto simp: outdated_check_def unsupported_check_def pf_member_def split: option.splits json.splits)
    moreover have "gateway_check base v r \<noteq> Some (OtherError e)" by (simp add: gateway_check_def Let_def)
    moreover have "status_check r = None" using that status_None by blast
    ultimately show False by (metis empty_iff insert_iff option.distinct(1))
  qed
  then show ?thesis using iff by blast
qed

theorem preflight_verdict_witness:
  "preflight ''https://gw'' ''2.0.1'' (Inr \<lparr>pf_status = 400, pf_statusText = ''Bad Request'', pf_protocol = Some ''2'', pf_json = None, pf_text = []\<rparr>) = None"
proof -
  let ?r = "\<lparr>pf_status = 400, pf_statusText = ''Bad Request'', pf_protocol = Some ''2'', pf_json = None, pf_text = []\<rparr>"
  have "gateway_supports ''2.0.1'' (readProtocol (pf_protocol ?r))" by code_simp
  then show ?thesis using preflight_verdict [of "''https://gw''" "''2.0.1''" ?r] by simp
qed

definition not_close :: "conn_event \<Rightarrow> bool" where
  "not_close e = (case e of WsClose _ _ \<Rightarrow> False | _ \<Rightarrow> True)"

lemma not_close_acts: "not_close e \<Longrightarrow> Disconnect \<notin> set (snd (conn_step c e)) \<and> CloseStreams \<notin> set (snd (conn_step c e))"
  by (cases e) (auto simp: not_close_def rejectOnce_def)

interpretation conn_open: machine conn_step "\<lambda>_. True" not_close "\<lambda>a. a \<noteq> Disconnect \<and> a \<noteq> CloseStreams"
  by unfold_locales (use not_close_acts in auto)

lemma not_close_run: "\<forall>e\<in>set es. not_close e \<Longrightarrow> Disconnect \<notin> set (conn_run c es) \<and> CloseStreams \<notin> set (conn_run c es)"
  using conn_open.feed_does by (auto simp: list_all_iff)

lemma close_acts:
  "\<exists>acts. conn_run c [WsClose code reason] = CloseStreams # acts @ [Disconnect] \<and> Disconnect \<notin> set acts \<and> CloseStreams \<notin> set acts"
  by (auto simp: rejectOnce_def)

text \<open>C28. Starting a tunnel always settles: once its WebSocket has closed, the caller was told, by what happened
  first, that the tunnel was up or why it could not be established, and exactly once the sockets of the
  tunnel were destroyed and, after that, the end of the tunnel was reported.\<close>

theorem tunnel_settles:
  assumes "\<forall>e\<in>set es. not_close e"
  shows "settled (conn_run conn_start (es @ [WsClose code reason])) =
      (case es of
         [] \<Rightarrow> Some (Inl (''tunnel connection failed: '' @ close_detail code reason))
       | WsError m # _ \<Rightarrow> Some (Inl (''tunnel connection failed: '' @ (if m \<noteq> [] then m else ''connection failed'')))
       | _ \<Rightarrow> Some (Inr ())) \<and>
    filter (\<lambda>a. a = CloseStreams \<or> a = Disconnect) (conn_run conn_start (es @ [WsClose code reason])) = [CloseStreams, Disconnect]"
proof
  show "settled (conn_run conn_start (es @ [WsClose code reason])) =
      (case es of
         [] \<Rightarrow> Some (Inl (''tunnel connection failed: '' @ close_detail code reason))
       | WsError m # _ \<Rightarrow> Some (Inl (''tunnel connection failed: '' @ (if m \<noteq> [] then m else ''connection failed'')))
       | _ \<Rightarrow> Some (Inr ()))"
    using assms by (auto simp: conn_start_def rejectOnce_def not_close_def split: list.split conn_event.split)
  obtain c' where r: "conn_run conn_start (es @ [WsClose code reason]) = conn_run conn_start es @ conn_run c' [WsClose code reason]"
    by simp
  obtain acts where a: "conn_run c' [WsClose code reason] = CloseStreams # acts @ [Disconnect]" "Disconnect \<notin> set acts" "CloseStreams \<notin> set acts"
    using close_acts by blast
  have e: "filter (\<lambda>a. a = CloseStreams \<or> a = Disconnect) as = []" if "Disconnect \<notin> set as" "CloseStreams \<notin> set as" for as
    using that by (auto simp: filter_empty_conv)
  show "filter (\<lambda>a. a = CloseStreams \<or> a = Disconnect) (conn_run conn_start (es @ [WsClose code reason])) = [CloseStreams, Disconnect]"
    unfolding r a(1) using e [OF a(2,3)] e not_close_run [OF assms] by simp
qed

theorem tunnel_settles_witness:
  "settled (conn_run conn_start ([WsError ''timeout''] @ [WsClose 1006 []])) = Some (Inl ''tunnel connection failed: timeout'')"
  using tunnel_settles [of "[WsError ''timeout'']" 1006 "[]"] by (simp add: not_close_def)

definition rc_inv :: "reconnect \<Rightarrow> bool" where
  "rc_inv s \<longleftrightarrow> 1000 \<le> rc_backoff s \<and> rc_backoff s \<le> 30000 \<and> (rc_phase s \<in> {Returned, Up} \<longrightarrow> rc_backoff s = 1000)"

lemma rc_step_inv: "rc_inv s \<Longrightarrow> rc_inv (fst (rc_step s e))"
  by (cases e) (auto simp: rc_inv_def retry_later_def grow_def split: phase.splits sum.splits tunnel_error.splits)

lemma rc_step_wait: "rc_inv s \<Longrightarrow> Wait d \<in> set (snd (rc_step s e)) \<Longrightarrow> d = rc_backoff s"
  by (cases e) (auto simp: rc_inv_def retry_later_def split: phase.splits sum.splits tunnel_error.splits if_splits option.splits)

definition pause_ok :: "rc_action \<Rightarrow> bool" where
  "pause_ok a = (case a of Wait d \<Rightarrow> 1000 \<le> d \<and> d \<le> 30000 | _ \<Rightarrow> True)"

interpretation rc: machine rc_step rc_inv "\<lambda>_. True" pause_ok
proof
  show "pause_ok a" if "rc_inv s" "a \<in> set (snd (rc_step s e))" for s e a
    using rc_step_wait [OF that(1)] that unfolding pause_ok_def rc_inv_def by (cases a) auto
qed (rule rc_step_inv)

lemma all_permitted: "list_all (\<lambda>_. True) es"
  by (simp add: list_all_iff)

lemma rc_run_inv: "rc_inv s \<Longrightarrow> rc_inv (fst (rc_run s es))"
  using rc.feed_keeps all_permitted by blast

lemma rc_run_wait: "rc_inv s \<Longrightarrow> Wait d \<in> set (snd (rc_run s es)) \<Longrightarrow> 1000 \<le> d \<and> d \<le> 30000"
  using rc.feed_does [OF _ all_permitted, of s "Wait d" es] by (simp add: pause_ok_def)

definition failures :: "str list \<Rightarrow> rc_event list" where
  "failures ms = concat (map (\<lambda>m. [Attempt (Inl (OtherError m)), Timer]) ms)"

lemma failures_run:
  assumes "rc_phase s \<in> {Initial, Connecting}" "\<not> rc_closed s" "rc_backoff s = min (1000 * 2 ^ k) 30000"
  shows "snd (rc_run s (failures ms)) = map (\<lambda>i. Wait (min (1000 * 2 ^ i) 30000)) [k ..< k + length ms]"
  using assms
proof (induction ms arbitrary: s k)
  case (Cons m ms)
  define t where "t = fst (rc_run s [Attempt (Inl (OtherError m)), Timer])"
  have t: "rc_phase t \<in> {Initial, Connecting}" "\<not> rc_closed t" "rc_backoff t = min (1000 * 2 ^ Suc k) 30000"
    using Cons.prems by (auto simp: t_def grow_def min_def retry_later_def)
  have w: "snd (rc_run s [Attempt (Inl (OtherError m)), Timer]) = [Wait (rc_backoff s)]"
    using Cons.prems by (auto simp: retry_later_def)
  have "failures (m # ms) = [Attempt (Inl (OtherError m)), Timer] @ failures ms" by (simp add: failures_def)
  then have "snd (rc_run s (failures (m # ms))) = Wait (rc_backoff s) # snd (rc_run t (failures ms))"
    using w unfolding t_def by (simp only: feed_append) simp
  then show ?case using Cons.IH [OF t] Cons.prems(3) by (simp add: upt_conv_Cons del: upt_Suc)
qed (simp add: failures_def)

text \<open>C29. The CLI never hammers the gateway and never waits long: every pause before an attempt is between one and
  thirty seconds; attempts that keep failing are 1, 2, 4, 8, 16 and then 30 seconds apart; and the first
  pause after a tunnel was up is one second again.\<close>

theorem reconnect_backoff:
  "(\<forall>d. Wait d \<in> set (snd (rc_run reconnect_start es)) \<longrightarrow> 1000 \<le> d \<and> d \<le> 30000) \<and>
   (\<forall>d. rc_phase (fst (rc_run reconnect_start es)) = Up \<and> Wait d \<in> set (snd (rc_step (fst (rc_run reconnect_start es)) e)) \<longrightarrow> d = 1000) \<and>
   (rc_phase s \<in> {Initial, Connecting} \<and> \<not> rc_closed s \<and> rc_backoff s = 1000 \<longrightarrow>
      snd (rc_run s (failures ms)) = map (\<lambda>i. Wait (min (1000 * 2 ^ i) 30000)) [0 ..< length ms])"
proof -
  have start: "rc_inv reconnect_start" by (simp add: rc_inv_def reconnect_start_def)
  have "rc_inv (fst (rc_run reconnect_start es))" using rc_run_inv [OF start] .
  then have "d = 1000" if "rc_phase (fst (rc_run reconnect_start es)) = Up" "Wait d \<in> set (snd (rc_step (fst (rc_run reconnect_start es)) e))" for d
    using rc_step_wait [OF _ that(2)] that(1) by (simp add: rc_inv_def)
  then show ?thesis using rc_run_wait [OF start] failures_run [of s 0 ms] by auto
qed

theorem reconnect_backoff_witness:
  "snd (rc_run reconnect_start (failures [''a'', ''b'', ''c'', ''d'', ''e'', ''f'', ''g'']))
   = map Wait [1000, 2000, 4000, 8000, 16000, 30000, 30000]"
proof -
  have "[0 ..< length [''a'', ''b'', ''c'', ''d'', ''e'', ''f'', ''g'']] = [0, 1, 2, 3, 4, 5, 6]" by (simp add: upt_rec)
  then show ?thesis
    using reconnect_backoff [of "[]" Timer reconnect_start "[''a'', ''b'', ''c'', ''d'', ''e'', ''f'', ''g'']"]
    by (simp add: reconnect_start_def)
qed

text \<open>What ends the loop: a close by the caller or a version mismatch.\<close>

definition keeps_trying :: "rc_event \<Rightarrow> bool" where
  "keeps_trying e = (case e of CloseCall \<Rightarrow> False | Attempt (Inl (ProtocolError _)) \<Rightarrow> False | _ \<Rightarrow> True)"

lemma keeps_trying_step:
  "keeps_trying e \<Longrightarrow> rc_phase s \<noteq> Stopped \<Longrightarrow> \<not> rc_closed s \<Longrightarrow> rc_phase (fst (rc_step s e)) \<noteq> Stopped \<and> \<not> rc_closed (fst (rc_step s e))"
  by (cases e) (auto simp: keeps_trying_def retry_later_def split: phase.splits sum.splits tunnel_error.splits)

interpretation trying: machine rc_step "\<lambda>s. rc_phase s \<noteq> Stopped \<and> \<not> rc_closed s" keeps_trying "\<lambda>_. True"
  by unfold_locales (use keeps_trying_step in auto)

lemma rc_closed_step: "rc_closed s \<Longrightarrow> rc_closed (fst (rc_step s e))"
  by (cases e) (auto simp: retry_later_def split: phase.splits sum.splits tunnel_error.splits)

lemma rc_stopped_step: "rc_phase s = Stopped \<Longrightarrow> rc_phase (fst (rc_step s e)) = Stopped \<and> (\<forall>d. Wait d \<notin> set (snd (rc_step s e)))"
  by (cases e) (auto split: option.splits)

text \<open>C30. The tunnel is kept up until it is closed: failures of the network or of the gateway and tunnels that
  break never end the loop; only a close by the caller or a version mismatch does, and a stopped loop
  never waits for another attempt.\<close>

theorem reconnect_persists:
  "((\<forall>e\<in>set es. keeps_trying e) \<longrightarrow> rc_phase (fst (rc_run reconnect_start es)) \<noteq> Stopped) \<and>
   (rc_phase s = Stopped \<longrightarrow> rc_phase (fst (rc_step s e)) = Stopped \<and> (\<forall>d. Wait d \<notin> set (snd (rc_step s e)))) \<and>
   (rc_phase s \<in> {Up, Sleeping, Returned} \<and> rc_closed s \<longrightarrow>
      rc_phase (fst (rc_step s (if rc_phase s = Sleeping then Timer else Disconnected))) = Stopped)"
proof -
  have "(\<forall>e\<in>set es. keeps_trying e) \<longrightarrow> rc_phase (fst (rc_run reconnect_start es)) \<noteq> Stopped"
    using trying.feed_keeps [of reconnect_start es] by (simp add: reconnect_start_def list_all_iff)
  moreover have "rc_phase s \<in> {Up, Sleeping, Returned} \<and> rc_closed s \<longrightarrow>
      rc_phase (fst (rc_step s (if rc_phase s = Sleeping then Timer else Disconnected))) = Stopped"
    by (auto simp: retry_later_def)
  ultimately show ?thesis using rc_stopped_step by blast
qed

theorem reconnect_persists_witness:
  "rc_phase (fst (rc_run reconnect_start [Attempt (Inl (OtherError ''ECONNREFUSED'')), Timer, Attempt (Inr 1), Disconnected])) \<noteq> Stopped"
  using reconnect_persists [of "[Attempt (Inl (OtherError ''ECONNREFUSED'')), Timer, Attempt (Inr 1), Disconnected]" reconnect_start Timer]
  by (simp add: keeps_trying_def)

interpretation uncalled: machine rc_step "\<lambda>_. True" "\<lambda>e. e \<noteq> CloseCall" "\<lambda>a. \<forall>h. a \<noteq> CloseTunnel h"
proof
  show "\<forall>h. a \<noteq> CloseTunnel h" if "e \<noteq> CloseCall" "a \<in> set (snd (rc_step s e))" for s e a
    using that by (cases e) (auto simp: retry_later_def split: phase.splits sum.splits tunnel_error.splits if_splits)
qed simp

lemma close_needs_call: "CloseTunnel h \<in> set (snd (rc_run s es)) \<Longrightarrow> CloseCall \<in> set es"
  using uncalled.feed_does [of es "CloseTunnel h" s] by (auto simp: list_all_iff)

text \<open>A close that falls into a reconnection leaves the new tunnel open: the loop had been told to stop, yet
  the attempt it was waiting for brings a tunnel up, and nothing closes it until it breaks by itself.\<close>

theorem close_misses_new_tunnel:
  assumes "h' \<noteq> h" "CloseCall \<notin> set es"
  shows "let s = fst (rc_run reconnect_start [Attempt (Inr h), Disconnected, CloseCall, Attempt (Inr h')])
         in rc_closed s \<and> rc_phase s = Up \<and> rc_handle s = Some h' \<and>
            CloseTunnel h' \<notin> set (snd (rc_run reconnect_start ([Attempt (Inr h), Disconnected, CloseCall, Attempt (Inr h')] @ es)))"
  using assms close_needs_call by (auto simp: reconnect_start_def)

theorem close_misses_new_tunnel_witness:
  "CloseTunnel 2 \<notin> set (snd (rc_run reconnect_start ([Attempt (Inr 1), Disconnected, CloseCall, Attempt (Inr 2)] @ [Timer])))"
  using close_misses_new_tunnel [of 2 1 "[Timer]"] by (simp add: Let_def)

end
