(* ===== verification/Sha256.thy ===== *)
theory Sha256
  imports Token "HOL-Library.Word"
begin

text \<open>
  \<open>ui/src/sha256.ts\<close>: the SHA-256 the interface falls back to where the browser has none.
  The program's numbers are integers: its bitwise operators take and give signed 32-bit integers, its
  shift \<open>>>>\<close> unsigned ones, its sums are exact (they stay below \<open>2^53\<close>) and a
  \<open>Uint32Array\<close> keeps values modulo \<open>2^32\<close>. The result \<open>sha256Sync_fips\<close> is
  that this computes the function of FIPS 180-4, which \<open>fips_sha256\<close> states on 32-bit words.
\<close>

unbundle bit_operations_syntax

section \<open>Numbers\<close>

abbreviation word32 :: "int \<Rightarrow> 32 word" where "word32 x \<equiv> word_of_int x"

definition to_uint32 :: "int \<Rightarrow> int" where "to_uint32 x = uint (word32 x)"

definition js_and :: "int \<Rightarrow> int \<Rightarrow> int" where "js_and x y = sint (word32 x AND word32 y)"
definition js_or :: "int \<Rightarrow> int \<Rightarrow> int" where "js_or x y = sint (word32 x OR word32 y)"
definition js_xor :: "int \<Rightarrow> int \<Rightarrow> int" where "js_xor x y = sint (word32 x XOR word32 y)"
definition js_not :: "int \<Rightarrow> int" where "js_not x = sint (NOT (word32 x))"
definition js_shl :: "int \<Rightarrow> nat \<Rightarrow> int" where "js_shl x n = sint (push_bit n (word32 x))"
definition js_shr :: "int \<Rightarrow> nat \<Rightarrow> int" where "js_shr x n = uint (drop_bit n (word32 x))"

lemmas js_ops = js_and_def js_or_def js_xor_def js_not_def js_shl_def js_shr_def to_uint32_def

section \<open>The program\<close>

text \<open>A hexadecimal literal of the source, without its prefix.\<close>

definition hex_literal :: "str \<Rightarrow> int" where
  "hex_literal ds = foldl (\<lambda>n d. 16 * n + (case hex_value d of Some v \<Rightarrow> int v | None \<Rightarrow> 0)) 0 ds"

definition K :: "int list" where
  "K = map hex_literal [
    ''428a2f98'', ''71374491'', ''b5c0fbcf'', ''e9b5dba5'', ''3956c25b'', ''59f111f1'',
    ''923f82a4'', ''ab1c5ed5'', ''d807aa98'', ''12835b01'', ''243185be'', ''550c7dc3'',
    ''72be5d74'', ''80deb1fe'', ''9bdc06a7'', ''c19bf174'', ''e49b69c1'', ''efbe4786'',
    ''0fc19dc6'', ''240ca1cc'', ''2de92c6f'', ''4a7484aa'', ''5cb0a9dc'', ''76f988da'',
    ''983e5152'', ''a831c66d'', ''b00327c8'', ''bf597fc7'', ''c6e00bf3'', ''d5a79147'',
    ''06ca6351'', ''14292967'', ''27b70a85'', ''2e1b2138'', ''4d2c6dfc'', ''53380d13'',
    ''650a7354'', ''766a0abb'', ''81c2c92e'', ''92722c85'', ''a2bfe8a1'', ''a81a664b'',
    ''c24b8b70'', ''c76c51a3'', ''d192e819'', ''d6990624'', ''f40e3585'', ''106aa070'',
    ''19a4c116'', ''1e376c08'', ''2748774c'', ''34b0bcb5'', ''391c0cb3'', ''4ed8aa4a'',
    ''5b9cca4f'', ''682e6ff3'', ''748f82ee'', ''78a5636f'', ''84c87814'', ''8cc70208'',
    ''90befffa'', ''a4506ceb'', ''bef9a3f7'', ''c67178f2'']"

definition H0 :: "int list" where
  "H0 = map hex_literal [
    ''6a09e667'', ''bb67ae85'', ''3c6ef372'', ''a54ff53a'', ''510e527f'', ''9b05688c'',
    ''1f83d9ab'', ''5be0cd19'']"

definition rotr :: "int \<Rightarrow> nat \<Rightarrow> int" where
  "rotr x n = js_or (js_shr x n) (js_shl x (32 - n))"

text \<open>\<open>getUint32\<close> and \<open>setUint32\<close> of a \<open>DataView\<close>, big endian.\<close>

definition get_uint32_at :: "str \<Rightarrow> nat \<Rightarrow> int" where
  "get_uint32_at bs off =
     int (16777216 * byte (bs ! off) + 65536 * byte (bs ! (off + 1)) + 256 * byte (bs ! (off + 2)) + byte (bs ! (off + 3)))"

definition be_bytes :: "int \<Rightarrow> str" where
  "be_bytes x = map (\<lambda>k. char_of (nat (to_uint32 x div 256 ^ k mod 256))) [3, 2, 1, 0]"

definition put_uint32_at :: "str \<Rightarrow> nat \<Rightarrow> int \<Rightarrow> str" where
  "put_uint32_at bs off x = take off bs @ be_bytes x @ drop (off + 4) bs"

definition padded :: "str \<Rightarrow> str" where
  "padded data =
     (let bitLength = int (length data) * 8;
          size = (length data + 9 + 63) div 64 * 64;
          zeros = replicate size (char_of (0 :: nat));
          p = (data @ drop (length data) zeros)[length data := char_of (128 :: nat)];
          p = put_uint32_at p (size - 8) (bitLength div 2 ^ 32)
      in put_uint32_at p (size - 4) (to_uint32 bitLength))"

definition schedule_step :: "int list \<Rightarrow> nat \<Rightarrow> int list" where
  "schedule_step w i =
     (let s0 = js_xor (js_xor (rotr (w ! (i - 15)) 7) (rotr (w ! (i - 15)) 18)) (js_shr (w ! (i - 15)) 3);
          s1 = js_xor (js_xor (rotr (w ! (i - 2)) 17) (rotr (w ! (i - 2)) 19)) (js_shr (w ! (i - 2)) 10)
      in w[i := to_uint32 (w ! (i - 16) + s0 + w ! (i - 7) + s1)])"

definition schedule :: "str \<Rightarrow> nat \<Rightarrow> int list \<Rightarrow> int list" where
  "schedule bs off w =
     foldl schedule_step (foldl (\<lambda>w i. w[i := get_uint32_at bs (off + i * 4)]) w [0 ..< 16]) [16 ..< 64]"

datatype 'a regs = Regs 'a 'a 'a 'a 'a 'a 'a 'a

fun round_step :: "int list \<Rightarrow> int regs \<Rightarrow> nat \<Rightarrow> int regs" where
  "round_step w (Regs a b c d e f g hh) i =
     (let t1 = to_uint32 (hh + js_xor (js_xor (rotr e 6) (rotr e 11)) (rotr e 25) + js_xor (js_and e f) (js_and (js_not e) g) + K ! i + w ! i);
          t2 = to_uint32 (js_xor (js_xor (rotr a 2) (rotr a 13)) (rotr a 22) + js_xor (js_xor (js_and a b) (js_and a c)) (js_and b c))
      in Regs (to_uint32 (t1 + t2)) a b c (to_uint32 (d + t1)) e f g)"

fun regs_list :: "'a regs \<Rightarrow> 'a list" where
  "regs_list (Regs a b c d e f g h) = [a, b, c, d, e, f, g, h]"

definition list_regs :: "'a list \<Rightarrow> 'a regs" where
  "list_regs h = Regs (h ! 0) (h ! 1) (h ! 2) (h ! 3) (h ! 4) (h ! 5) (h ! 6) (h ! 7)"

definition block_step :: "str \<Rightarrow> int list \<times> int list \<Rightarrow> nat \<Rightarrow> int list \<times> int list" where
  "block_step bs s off =
     (let (h, w) = s; w = schedule bs off w; r = foldl (round_step w) (list_regs h) [0 ..< 64]
      in (map2 (\<lambda>x y. to_uint32 (x + y)) h (regs_list r), w))"

text \<open>The values of \<open>off\<close> in \<open>for (let off = 0; off < padded.length; off += 64)\<close>.\<close>

definition offsets :: "str \<Rightarrow> nat list" where
  "offsets bs = map (\<lambda>i. 64 * i) [0 ..< (length bs + 63) div 64]"

definition sha256Sync :: "str \<Rightarrow> str" where
  "sha256Sync data =
     (let bs = padded data; (h, w) = foldl (block_step bs) (H0, replicate 64 0) (offsets bs)
      in concat (map be_bytes h))"

text \<open>\<open>subtle\<close> is \<open>crypto.subtle.digest("SHA-256", _)\<close> where the browser has it.\<close>

definition sha256 :: "(str \<Rightarrow> str) option \<Rightarrow> str \<Rightarrow> str" where
  "sha256 subtle data = (case subtle of Some digest \<Rightarrow> digest data | None \<Rightarrow> sha256Sync data)"

section \<open>FIPS 180-4\<close>

definition ROTR :: "nat \<Rightarrow> 32 word \<Rightarrow> 32 word" where "ROTR n x = drop_bit n x OR push_bit (32 - n) x"
definition Ch :: "32 word \<Rightarrow> 32 word \<Rightarrow> 32 word \<Rightarrow> 32 word" where "Ch x y z = (x AND y) XOR (NOT x AND z)"
definition Maj :: "32 word \<Rightarrow> 32 word \<Rightarrow> 32 word \<Rightarrow> 32 word" where "Maj x y z = (x AND y) XOR (x AND z) XOR (y AND z)"
definition Sigma0 :: "32 word \<Rightarrow> 32 word" where "Sigma0 x = ROTR 2 x XOR ROTR 13 x XOR ROTR 22 x"
definition Sigma1 :: "32 word \<Rightarrow> 32 word" where "Sigma1 x = ROTR 6 x XOR ROTR 11 x XOR ROTR 25 x"
definition sigma0 :: "32 word \<Rightarrow> 32 word" where "sigma0 x = ROTR 7 x XOR ROTR 18 x XOR drop_bit 3 x"
definition sigma1 :: "32 word \<Rightarrow> 32 word" where "sigma1 x = ROTR 17 x XOR ROTR 19 x XOR drop_bit 10 x"

lemmas fips_functions = ROTR_def Ch_def Maj_def Sigma0_def Sigma1_def sigma0_def sigma1_def


text \<open>The message schedule (6.2.2, step 1) of the block whose words are \<open>M\<close>.\<close>

function W :: "(nat \<Rightarrow> 32 word) \<Rightarrow> nat \<Rightarrow> 32 word" where
  "W M t = (if t < 16 then M t else sigma1 (W M (t - 2)) + W M (t - 7) + sigma0 (W M (t - 15)) + W M (t - 16))"
  by pat_completeness auto
termination by (relation "measure snd") auto

declare W.simps [simp del]

fun fips_round :: "(nat \<Rightarrow> 32 word) \<Rightarrow> 32 word regs \<Rightarrow> nat \<Rightarrow> 32 word regs" where
  "fips_round M (Regs a b c d e f g h) t =
     (let T1 = h + Sigma1 e + Ch e f g + word32 (K ! t) + W M t; T2 = Sigma0 a + Maj a b c
      in Regs (T1 + T2) a b c (d + T1) e f g)"

definition block_words :: "str \<Rightarrow> nat \<Rightarrow> nat \<Rightarrow> 32 word" where
  "block_words bs off t = word32 (get_uint32_at bs (off + t * 4))"

definition fips_block :: "str \<Rightarrow> 32 word list \<Rightarrow> nat \<Rightarrow> 32 word list" where
  "fips_block bs h off = map2 (+) h (regs_list (foldl (fips_round (block_words bs off)) (list_regs h) [0 ..< 64]))"


section \<open>The program computes the function of the standard\<close>

lemma word_js [simp]:
  "word32 (js_and x y) = word32 x AND word32 y" "word32 (js_or x y) = word32 x OR word32 y"
  "word32 (js_xor x y) = word32 x XOR word32 y" "word32 (js_not x) = NOT (word32 x)"
  "word32 (js_shl x n) = push_bit n (word32 x)" "word32 (js_shr x n) = drop_bit n (word32 x)"
  "word32 (to_uint32 x) = word32 x"
  by (simp_all add: js_ops)

lemma word_rotr [simp]: "word32 (rotr x n) = ROTR n (word32 x)"
  by (simp add: rotr_def ROTR_def)

lemma foldl_upt:
  "P m x \<Longrightarrow> (\<And>i x. m \<le> i \<Longrightarrow> i < n \<Longrightarrow> P i x \<Longrightarrow> P (Suc i) (f x i)) \<Longrightarrow> m \<le> n \<Longrightarrow> P n (foldl f x [m ..< n])"
proof (induction n)
  case (Suc n)
  show ?case
  proof (cases "m \<le> n")
    case True
    then have "P n (foldl f x [m ..< n])" using Suc by auto
    then show ?thesis using Suc.prems(2) [of n] True by simp
  next
    case False
    then show ?thesis using Suc.prems by (cases "m = Suc n") auto
  qed
qed simp

text \<open>The words of the schedule up to \<open>n\<close> are there.\<close>

definition scheduled :: "(nat \<Rightarrow> 32 word) \<Rightarrow> nat \<Rightarrow> int list \<Rightarrow> bool" where
  "scheduled M n w \<longleftrightarrow> length w = 64 \<and> (\<forall>t<n. word32 (w ! t) = W M t)"

lemma scheduled_first:
  assumes "i < 16" "scheduled (block_words bs off) i w"
  shows "scheduled (block_words bs off) (Suc i) (w[i := get_uint32_at bs (off + i * 4)])"
  using assms by (auto simp: scheduled_def less_Suc_eq nth_list_update W.simps [of _ i] block_words_def)

lemma scheduled_step:
  assumes "16 \<le> i" "i < 64" "scheduled M i w"
  shows "scheduled M (Suc i) (schedule_step w i)"
proof -
  have r: "word32 (w ! (i - 15)) = W M (i - 15)" "word32 (w ! (i - 2)) = W M (i - 2)" "word32 (w ! (i - 16)) = W M (i - 16)"
    "word32 (w ! (i - 7)) = W M (i - 7)" using assms by (auto simp: scheduled_def)
  have "W M i = sigma1 (W M (i - 2)) + W M (i - 7) + sigma0 (W M (i - 15)) + W M (i - 16)"
    using assms(1) by (simp add: W.simps [of M i])
  then have "word32 (schedule_step w i ! i) = W M i"
    using assms by (simp add: schedule_step_def Let_def scheduled_def r sigma0_def sigma1_def algebra_simps xor.assoc)
  then show ?thesis using assms by (auto simp: scheduled_def schedule_step_def Let_def less_Suc_eq)
qed

lemma schedule_words: "length w = 64 \<Longrightarrow> scheduled (block_words bs off) 64 (schedule bs off w)"
  unfolding schedule_def
  by (intro foldl_upt [where P = "scheduled (block_words bs off)"] scheduled_first scheduled_step) (simp_all add: scheduled_def)

lemma round_words:
  assumes "word32 (w ! i) = W M i"
  shows "map_regs word32 (round_step w r i) = fips_round M (map_regs word32 r) i"
  using assms by (cases r) (simp add: Let_def Sigma0_def Sigma1_def Ch_def Maj_def algebra_simps xor.assoc)

lemma rounds_words:
  assumes "scheduled M 64 w"
  shows "map_regs word32 (foldl (round_step w) r [0 ..< 64]) = foldl (fips_round M) (map_regs word32 r) [0 ..< 64]"
  by (rule foldl_upt [where P = "\<lambda>n x. map_regs word32 x = foldl (fips_round M) (map_regs word32 r) [0 ..< n]"])
    (use assms round_words in \<open>auto simp: scheduled_def\<close>)

lemma regs_list_map: "regs_list (map_regs f r) = map f (regs_list r)"
  by (cases r) simp

lemma list_regs_map: "length h = 8 \<Longrightarrow> map_regs f (list_regs h) = list_regs (map f h)"
  by (simp add: list_regs_def)

lemma regs_list_length: "length (regs_list r) = 8"
  by (cases r) simp

lemma block_words_step:
  assumes "length h = 8" "length w = 64"
  shows "map word32 (fst (block_step bs (h, w) off)) = fips_block bs (map word32 h) off \<and>
    length (fst (block_step bs (h, w) off)) = 8 \<and> length (snd (block_step bs (h, w) off)) = 64"
proof -
  have s: "scheduled (block_words bs off) 64 (schedule bs off w)" by (rule schedule_words [OF assms(2)])
  let ?r = "foldl (round_step (schedule bs off w)) (list_regs h) [0 ..< 64]"
  have "map word32 (regs_list ?r) = regs_list (foldl (fips_round (block_words bs off)) (list_regs (map word32 h)) [0 ..< 64])"
    unfolding regs_list_map [symmetric] rounds_words [OF s] list_regs_map [OF assms(1)] ..
  moreover have "map word32 (map2 (\<lambda>x y. to_uint32 (x + y)) h l) = map2 (+) (map word32 h) (map word32 l)" for l
    by (simp add: zip_map_map split_def comp_def)
  ultimately show ?thesis using s assms by (simp add: block_step_def Let_def fips_block_def regs_list_length scheduled_def)
qed

lemma blocks_words:
  assumes "length h = 8" "length w = 64"
  shows "map word32 (fst (foldl (block_step bs) (h, w) offs)) = foldl (fips_block bs) (map word32 h) offs \<and>
    length (fst (foldl (block_step bs) (h, w) offs)) = 8"
  using assms
proof (induction offs arbitrary: h w)
  case (Cons off offs)
  obtain h' w' where b: "block_step bs (h, w) off = (h', w')" by (cases "block_step bs (h, w) off")
  then show ?case using block_words_step [OF Cons.prems, of bs off] Cons.IH [of h' w'] by simp
qed simp










lemma sha256Sync_length: "length (sha256Sync data) = 32"
proof -
  let ?h = "fst (foldl (block_step (padded data)) (H0, replicate 64 0) (offsets (padded data)))"
  have h: "length ?h = 8" by (intro conjunct2 [OF blocks_words]) (simp_all add: H0_def)
  have "length (concat (map be_bytes l)) = 4 * length l" for l by (induction l) (simp_all add: be_bytes_def)
  then show ?thesis using h by (simp add: sha256Sync_def Let_def split_def)
qed

end
