(* ===== verification/CliAuth.thy ===== *)
theory CliAuth
  imports Tunnel TokenStore Settings
begin

text \<open>
  The CLI's start: its configuration (\<open>cli/src/config.ts\<close>) and its sign-in by authorization
  code with PKCE over a local callback server (\<open>cli/src/oidc.ts\<close>). The HTTP calls, the ports
  the system grants, the requests the browser makes, random bytes and the clock are arguments. A wait of
  five minutes without a settling request is the end of the list of requests.
\<close>

section \<open>Configuration\<close>

record CliConfig =
  cl_gatewayUrl :: str
  cl_oidcIssuer :: str
  cl_oidcClientID :: str
  cl_oidcClientSecret :: "str option"
  cl_oidcTokenEndpoint :: str
  cl_oidcAuthorizationEndpoint :: str
  cl_oidcCallbackPorts :: "int option list option"   \<comment> \<open>\<open>None\<close> in the list is \<open>NaN\<close>\<close>

record FileConfig =
  fc_gatewayUrl :: "str option"
  fc_issuer :: "str option"
  fc_clientId :: "str option"
  fc_clientSecret :: "str option"
  fc_callbackPorts :: "int list option"

definition no_file :: FileConfig where
  "no_file = \<lparr>fc_gatewayUrl = None, fc_issuer = None, fc_clientId = None, fc_clientSecret = None, fc_callbackPorts = None\<rparr>"

text \<open>The file as parsed; a file that is absent or not JSON is empty.\<close>

definition loadFileConfig :: "FileConfig option \<Rightarrow> FileConfig" where
  "loadFileConfig raw = (case raw of None \<Rightarrow> no_file | Some f \<Rightarrow> f)"

text \<open>The answer of a \<open>fetch\<close>: the message of its failure, or status, text and JSON.\<close>

record cli_reply =
  cr_status :: nat
  cr_text :: str
  cr_json :: "json option"

definition cr_ok :: "cli_reply \<Rightarrow> bool" where "cr_ok r \<longleftrightarrow> 200 \<le> cr_status r \<and> cr_status r < 300"

type_synonym cli_fetch = "str \<Rightarrow> str + cli_reply"

definition string_member :: "json option \<Rightarrow> str \<Rightarrow> str option" where
  "string_member body k =
     (case body of Some (JObj ps) \<Rightarrow> (case get_prop ps k of Some (JStr s) \<Rightarrow> (if s \<noteq> [] then Some s else None) | _ \<Rightarrow> None) | _ \<Rightarrow> None)"

record ServerConfig =
  sc_issuer :: str
  sc_clientId :: str
  sc_authorizationEndpoint :: "str option"

definition fetchServerConfig :: "cli_fetch \<Rightarrow> str \<Rightarrow> str + ServerConfig" where
  "fetchServerConfig fetch gatewayUrl =
     (let url = base_url gatewayUrl @ ''/auth/cli-config''
      in case fetch url of
           Inl cause \<Rightarrow> Inl (''Cannot reach '' @ url @ '': '' @ cause)
         | Inr res \<Rightarrow>
             if cr_status res = 404
             then Inl (''The server at '' @ gatewayUrl @ '' does not provide /auth/cli-config; ask its administrator to upgrade it'')
             else if \<not> cr_ok res then Inl (url @ '' returned '' @ show_nat (cr_status res))
             else case (string_member (cr_json res) ''issuer'', string_member (cr_json res) ''clientId'') of
               (None, _) \<Rightarrow> Inl ''The server returned no OIDC issuer''
             | (_, None) \<Rightarrow> Inl ''The server returned no CLI client ID; ask its administrator to set oidc.cliClientId''
             | (Some issuer, Some clientId) \<Rightarrow>
                 Inr \<lparr>sc_issuer = issuer, sc_clientId = clientId,
                      sc_authorizationEndpoint = string_member (cr_json res) ''authorizationEndpoint''\<rparr>)"

record CliDiscovery =
  cd_token_endpoint :: str
  cd_authorization_endpoint :: str

definition cli_discoverOIDC :: "cli_fetch \<Rightarrow> str \<Rightarrow> str + CliDiscovery" where
  "cli_discoverOIDC fetch issuer =
     andThen (fetch (issuer @ ''/.well-known/openid-configuration'')) (\<lambda>res.
       if \<not> cr_ok res then Inl (''OIDC discovery failed: '' @ show_nat (cr_status res) @ '' '' @ cr_text res)
       else case cr_json res of
         None \<Rightarrow> Inl ''SyntaxError''
       | Some (JObj ps) \<Rightarrow>
           (case (get_prop ps ''token_endpoint'', get_prop ps ''authorization_endpoint'') of
              (Some (JStr t), Some (JStr a)) \<Rightarrow> Inr \<lparr>cd_token_endpoint = t, cd_authorization_endpoint = a\<rparr>
            | _ \<Rightarrow> Inl ''TypeError'')
       | Some _ \<Rightarrow> Inl ''TypeError'')"

text \<open>\<open>a || b\<close> on strings.\<close>

definition str_or :: "str option \<Rightarrow> str option \<Rightarrow> str option" where
  "str_or a b = (if truthy a then a else b)"

definition callback_ports :: "str option \<Rightarrow> FileConfig \<Rightarrow> int option list option" where
  "callback_ports env file =
     (if truthy env then Some (map (\<lambda>s. js_parseInt (trim s)) (split_on (CHR '','') (the env)))
      else map_option (map Some) (fc_callbackPorts file))"

definition cli_loadConfig :: "(str \<Rightarrow> str option) \<Rightarrow> FileConfig option \<Rightarrow> cli_fetch \<Rightarrow> str + CliConfig" where
  "cli_loadConfig env raw fetch =
     (let file = loadFileConfig raw; gatewayUrl = str_or (env ''OPENCODE_RC_GATEWAY_URL'') (fc_gatewayUrl file)
      in if \<not> truthy gatewayUrl then Inl ''OPENCODE_RC_GATEWAY_URL is required (env or ~/.config/opencode/rc.json)''
         else
           andThen (fetchServerConfig fetch (the gatewayUrl)) (\<lambda>server.
           andThen (cli_discoverOIDC fetch (sc_issuer server)) (\<lambda>discovery.
             let secret = str_or (env ''OIDC_CLIENT_SECRET'') (fc_clientSecret file)
             in Inr \<lparr>cl_gatewayUrl = the gatewayUrl, cl_oidcIssuer = sc_issuer server, cl_oidcClientID = sc_clientId server,
                     cl_oidcClientSecret = (if truthy secret then secret else None),
                     cl_oidcTokenEndpoint = cd_token_endpoint discovery,
                     cl_oidcAuthorizationEndpoint =
                       (case sc_authorizationEndpoint server of Some a \<Rightarrow> a | None \<Rightarrow> cd_authorization_endpoint discovery),
                     cl_oidcCallbackPorts = callback_ports (env ''OIDC_CALLBACK_PORTS'') file\<rparr>)))"

section \<open>The callback server\<close>

definition DEFAULT_CALLBACK_PORTS :: "int list" where
  "DEFAULT_CALLBACK_PORTS = [43212, 43213, 43214, 43215]"

text \<open>What the system makes of \<open>listen\<close> on a port; a port that is no port number is an error.\<close>

datatype listened = Listening nat | AddrInUse | ListenError str

definition show_port :: "int option \<Rightarrow> str" where
  "show_port p = (case p of None \<Rightarrow> ''NaN'' | Some n \<Rightarrow> show_int n)"

fun try_ports :: "(int option \<Rightarrow> listened) \<Rightarrow> int option list \<Rightarrow> int option list \<Rightarrow> str + nat" where
  "try_ports system tried [] = Inl (''All callback ports in use (tried '' @ join '', '' (map show_port tried) @ '')'')"
| "try_ports system tried (port # ports) =
     (case system port of
        Listening p \<Rightarrow> Inr p
      | AddrInUse \<Rightarrow> try_ports system tried ports
      | ListenError e \<Rightarrow> Inl e)"

definition listenOnAvailablePort :: "(int option \<Rightarrow> listened) \<Rightarrow> int option list \<Rightarrow> str + nat" where
  "listenOnAvailablePort system ports = try_ports system ports ports"

text \<open>A request of the browser: the path and the query of its URL.\<close>

record cb_request =
  cb_pathname :: str
  cb_params :: "(str \<times> str) list"

text \<open>The status of the answer and, when the sign-in settles, the error or the code.\<close>

definition callback_request :: "str \<Rightarrow> cb_request \<Rightarrow> nat \<times> (str + str) option" where
  "callback_request state q =
     (if cb_pathname q \<noteq> ''/callback'' then (404, None)
      else if truthy (params_get ''error'' (cb_params q))
      then (200, Some (Inl (''Authorization error: '' @ the (params_get ''error'' (cb_params q)) @ em_dash @
              (case params_get ''error_description'' (cb_params q) of None \<Rightarrow> [] | Some d \<Rightarrow> d))))
      else if params_get ''state'' (cb_params q) \<noteq> Some state then (200, Some (Inl ''State mismatch in callback''))
      else case params_get ''code'' (cb_params q) of
        None \<Rightarrow> (200, Some (Inl ''No authorization code in callback''))
      | Some code \<Rightarrow>
          if code = [] then (200, Some (Inl ''No authorization code in callback'')) else (200, Some (Inr code)))"

fun await_callback :: "str \<Rightarrow> cb_request list \<Rightarrow> str + str" where
  "await_callback state [] = Inl (''Authorization timed out'' @ em_dash @ ''no callback received within 5 minutes'')"
| "await_callback state (q # qs) = (case snd (callback_request state q) of Some r \<Rightarrow> r | None \<Rightarrow> await_callback state qs)"

definition redirect_uri :: "nat \<Rightarrow> str" where
  "redirect_uri port = ''http://127.0.0.1:'' @ show_nat port @ ''/callback''"

definition authorize_url :: "CliConfig \<Rightarrow> nat \<Rightarrow> str \<Rightarrow> str \<Rightarrow> str" where
  "authorize_url config port state challenge =
     cl_oidcAuthorizationEndpoint config @ ''?'' @
     form_serialize [(''response_type'', ''code''), (''client_id'', cl_oidcClientID config), (''redirect_uri'', redirect_uri port),
       (''scope'', ''openid email profile''), (''state'', state), (''code_challenge'', challenge), (''code_challenge_method'', ''S256'')]"

definition ports_of :: "CliConfig \<Rightarrow> int option list" where
  "ports_of config = (case cl_oidcCallbackPorts config of None \<Rightarrow> map Some DEFAULT_CALLBACK_PORTS | Some ps \<Rightarrow> ps)"

text \<open>\<open>browser\<close> is what the user's browser does with the address it is shown.\<close>

definition getAuthorizationCode ::
  "(int option \<Rightarrow> listened) \<Rightarrow> (str \<Rightarrow> cb_request list) \<Rightarrow> CliConfig \<Rightarrow> str \<Rightarrow> str \<Rightarrow> str + str \<times> str" where
  "getAuthorizationCode system browser config state challenge =
     andThen (listenOnAvailablePort system (ports_of config)) (\<lambda>port.
     andThen (await_callback state (browser (authorize_url config port state challenge))) (\<lambda>code.
       Inr (code, redirect_uri port)))"

definition generateCodeVerifier :: "str \<Rightarrow> str" where "generateCodeVerifier bytes = b64_encode bytes"

definition generateCodeChallenge :: "(str \<Rightarrow> str) \<Rightarrow> str \<Rightarrow> str" where
  "generateCodeChallenge sha256 verifier = b64_encode (sha256 verifier)"

definition token_params :: "CliConfig \<Rightarrow> str \<Rightarrow> str \<Rightarrow> str \<Rightarrow> (str \<times> str) list" where
  "token_params config code redirectUri codeVerifier =
     [(''grant_type'', ''authorization_code''), (''client_id'', cl_oidcClientID config), (''code'', code),
      (''redirect_uri'', redirectUri), (''code_verifier'', codeVerifier)] @
     (if truthy (cl_oidcClientSecret config) then [(''client_secret'', the (cl_oidcClientSecret config))] else [])"

text \<open>The random bytes of the state and of the verifier, \<open>post\<close> to the token endpoint and the clock.\<close>

record cli_env =
  ce_state :: str
  ce_verifier :: str
  ce_sha256 :: "str \<Rightarrow> str"
  ce_system :: "int option \<Rightarrow> listened"
  ce_browser :: "str \<Rightarrow> cb_request list"
  ce_post :: "str \<Rightarrow> (str \<times> str) list \<Rightarrow> str + cli_reply"
  ce_now :: int

definition authorizationCodeAuth :: "cli_env \<Rightarrow> CliConfig \<Rightarrow> str + str \<times> int" where
  "authorizationCodeAuth E config =
     (let state = hex_digest (ce_state E); codeVerifier = generateCodeVerifier (ce_verifier E);
          codeChallenge = generateCodeChallenge (ce_sha256 E) codeVerifier
      in andThen (getAuthorizationCode (ce_system E) (ce_browser E) config state codeChallenge) (\<lambda>(code, redirectUri).
         andThen (ce_post E (cl_oidcTokenEndpoint config) (token_params config code redirectUri codeVerifier)) (\<lambda>res.
           if \<not> cr_ok res then Inl (''Token exchange failed: '' @ show_nat (cr_status res) @ '' '' @ cr_text res)
           else case cr_json res of
             None \<Rightarrow> Inl ''SyntaxError''
           | Some (JObj ps) \<Rightarrow>
               (case (get_prop ps ''id_token'', get_prop ps ''expires_in'') of
                  (Some (JStr t), Some (JNum n e)) \<Rightarrow>
                    if 0 \<le> e then Inr (t, ce_now E + n * 10 ^ nat e * 1000) else Inl ''TypeError''
                | _ \<Rightarrow> Inl ''TypeError'')
           | Some _ \<Rightarrow> Inl ''TypeError'')))"

section \<open>Properties\<close>

text \<open>The settings that the CLI leaves to the server.\<close>

definition IGNORED :: "str list" where
  "IGNORED = [''OIDC_ISSUER'', ''OIDC_CLIENT_ID'', ''OIDC_TOKEN_ENDPOINT'', ''OIDC_AUTHORIZATION_ENDPOINT'']"

text \<open>C35. The server alone decides where the CLI signs in: its issuer, client and endpoints are those the
  server publishes and its provider's discovery document gives, and no environment variable and no
  configuration file can change them (nor anything else of the configuration).\<close>

theorem server_decides_sign_in:
  assumes "\<forall>k. k \<notin> set IGNORED \<longrightarrow> env' k = env k"
    and "loadFileConfig raw' = (loadFileConfig raw)\<lparr>fc_issuer := i, fc_clientId := c\<rparr>"
  shows "cli_loadConfig env' raw' fetch = cli_loadConfig env raw fetch \<and>
    (case cli_loadConfig env raw fetch of
       Inl e \<Rightarrow> True
     | Inr config \<Rightarrow>
         (\<exists>server discovery. fetchServerConfig fetch (cl_gatewayUrl config) = Inr server \<and>
            cli_discoverOIDC fetch (sc_issuer server) = Inr discovery \<and>
            cl_oidcIssuer config = sc_issuer server \<and> cl_oidcClientID config = sc_clientId server \<and>
            cl_oidcTokenEndpoint config = cd_token_endpoint discovery \<and>
            cl_oidcAuthorizationEndpoint config \<in> {the (sc_authorizationEndpoint server), cd_authorization_endpoint discovery}))"
proof
  have "''OPENCODE_RC_GATEWAY_URL'' \<notin> set IGNORED \<and> ''OIDC_CLIENT_SECRET'' \<notin> set IGNORED \<and> ''OIDC_CALLBACK_PORTS'' \<notin> set IGNORED"
    by code_simp
  then have "env' ''OPENCODE_RC_GATEWAY_URL'' = env ''OPENCODE_RC_GATEWAY_URL''" "env' ''OIDC_CLIENT_SECRET'' = env ''OIDC_CLIENT_SECRET''"
    "env' ''OIDC_CALLBACK_PORTS'' = env ''OIDC_CALLBACK_PORTS''" using assms(1) by blast+
  then show "cli_loadConfig env' raw' fetch = cli_loadConfig env raw fetch"
    unfolding cli_loadConfig_def Let_def assms(2) callback_ports_def by simp
  show "case cli_loadConfig env raw fetch of Inl e \<Rightarrow> True | Inr config \<Rightarrow>
      (\<exists>server discovery. fetchServerConfig fetch (cl_gatewayUrl config) = Inr server \<and>
         cli_discoverOIDC fetch (sc_issuer server) = Inr discovery \<and>
         cl_oidcIssuer config = sc_issuer server \<and> cl_oidcClientID config = sc_clientId server \<and>
         cl_oidcTokenEndpoint config = cd_token_endpoint discovery \<and>
         cl_oidcAuthorizationEndpoint config \<in> {the (sc_authorizationEndpoint server), cd_authorization_endpoint discovery})"
    by (auto simp: cli_loadConfig_def Let_def andThen_eq_Inr split: sum.split option.split)
qed


definition demo_fetch :: cli_fetch where
  "demo_fetch url =
     (if url = ''https://gw/auth/cli-config''
      then Inr \<lparr>cr_status = 200, cr_text = [], cr_json = Some (JObj [(''issuer'', JStr ''https://idp''), (''clientId'', JStr ''cli'')])\<rparr>
      else Inr \<lparr>cr_status = 200, cr_text = [], cr_json = Some (JObj [(''token_endpoint'', JStr ''https://idp/t''), (''authorization_endpoint'', JStr ''https://idp/a'')])\<rparr>)"

definition demo_env :: "str \<Rightarrow> str option" where
  "demo_env k = (if k = ''OPENCODE_RC_GATEWAY_URL'' then Some ''https://gw'' else None)"

lemma demo_config: "cli_loadConfig demo_env None demo_fetch =
    Inr \<lparr>cl_gatewayUrl = ''https://gw'', cl_oidcIssuer = ''https://idp'', cl_oidcClientID = ''cli'', cl_oidcClientSecret = None,
      cl_oidcTokenEndpoint = ''https://idp/t'', cl_oidcAuthorizationEndpoint = ''https://idp/a'', cl_oidcCallbackPorts = None\<rparr>"
  by code_simp

theorem server_decides_sign_in_witness:
  "cli_loadConfig (\<lambda>k. if k = ''OIDC_ISSUER'' then Some ''https://evil'' else demo_env k) (Some (no_file\<lparr>fc_issuer := Some ''https://evil''\<rparr>)) demo_fetch
   = cli_loadConfig demo_env None demo_fetch"
proof -
  have "loadFileConfig (Some (no_file\<lparr>fc_issuer := Some ''https://evil''\<rparr>)) = (loadFileConfig None)\<lparr>fc_issuer := Some ''https://evil'', fc_clientId := None\<rparr>"
    by (simp add: loadFileConfig_def no_file_def)
  moreover have "\<forall>k. k \<notin> set IGNORED \<longrightarrow> (if k = ''OIDC_ISSUER'' then Some ''https://evil'' else demo_env k) = demo_env k"
    by (simp add: IGNORED_def)
  ultimately show ?thesis using server_decides_sign_in [of "\<lambda>k. if k = ''OIDC_ISSUER'' then Some ''https://evil'' else demo_env k" demo_env] by blast
qed

lemma callback_code:
  "snd (callback_request state q) = Some (Inr code) \<longleftrightarrow>
    cb_pathname q = ''/callback'' \<and> \<not> truthy (params_get ''error'' (cb_params q)) \<and>
    params_get ''state'' (cb_params q) = Some state \<and> params_get ''code'' (cb_params q) = Some code \<and> code \<noteq> []"
  by (simp add: callback_request_def split: option.split) blast

lemma await_code:
  "await_callback state qs = Inr code \<Longrightarrow>
    \<exists>qs1 q qs2. qs = qs1 @ q # qs2 \<and> snd (callback_request state q) = Some (Inr code) \<and> (\<forall>p\<in>set qs1. snd (callback_request state p) = None)"
proof (induction qs)
  case (Cons q qs)
  show ?case
  proof (cases "snd (callback_request state q)")
    case None
    then obtain qs1 q' qs2 where "qs = qs1 @ q' # qs2" "snd (callback_request state q') = Some (Inr code)" "\<forall>p\<in>set qs1. snd (callback_request state p) = None"
      using Cons by auto
    then show ?thesis using None by (intro exI [of _ "q # qs1"] exI [of _ q'] exI [of _ qs2]) simp
  next
    case (Some r)
    then show ?thesis using Cons.prems by (intro exI [of _ "[]"] exI [of _ q] exI [of _ qs]) simp
  qed
qed simp

text \<open>C15. The CLI signs in with the code of its own attempt only: a token is asked for only with a code from the first
  request to the callback path that settles the attempt, which carried the attempt's state and no error;
  and the token request repeats the redirect address of the login address and proves
  the challenge in it with the verifier it was made of.\<close>

theorem cli_sign_in_bound:
  assumes "authorizationCodeAuth E config = Inr r"
  defines "state \<equiv> hex_digest (ce_state E)" and "verifier \<equiv> b64_encode (ce_verifier E)"
  shows "\<exists>port code before q after res.
    listenOnAvailablePort (ce_system E) (ports_of config) = Inr port \<and>
    ce_browser E (authorize_url config port state (codeChallenge (ce_sha256 E) verifier)) = before @ q # after \<and>
    (\<forall>p\<in>set before. snd (callback_request state p) = None) \<and>
    cb_pathname q = ''/callback'' \<and> params_get ''state'' (cb_params q) = Some state \<and> params_get ''code'' (cb_params q) = Some code \<and>
    \<not> truthy (params_get ''error'' (cb_params q)) \<and>
    ce_post E (cl_oidcTokenEndpoint config) (token_params config code (redirect_uri port) verifier) = Inr res \<and> cr_ok res"
proof -
  let ?c = "generateCodeChallenge (ce_sha256 E) verifier"
  have ch: "?c = codeChallenge (ce_sha256 E) verifier" by (simp add: generateCodeChallenge_def codeChallenge_def)
  obtain code uri res where g: "getAuthorizationCode (ce_system E) (ce_browser E) config state ?c = Inr (code, uri)"
      "ce_post E (cl_oidcTokenEndpoint config) (token_params config code uri verifier) = Inr res" "cr_ok res"
    using assms by (auto simp: authorizationCodeAuth_def Let_def andThen_eq_Inr generateCodeVerifier_def split: if_splits)
  obtain port where p: "uri = redirect_uri port" "listenOnAvailablePort (ce_system E) (ports_of config) = Inr port"
      "await_callback state (ce_browser E (authorize_url config port state ?c)) = Inr code"
    using g(1) by (auto simp: getAuthorizationCode_def Let_def andThen_eq_Inr)
  obtain before q after where q: "ce_browser E (authorize_url config port state ?c) = before @ q # after"
      "snd (callback_request state q) = Some (Inr code)" "\<forall>p\<in>set before. snd (callback_request state p) = None"
    using await_code [OF p(3)] by blast
  show ?thesis using q g(2,3) p(1,2) unfolding callback_code ch by (intro exI conjI) (assumption | blast)+
qed

definition demo_cli :: cli_env where
  "demo_cli = \<lparr>ce_state = ''s'', ce_verifier = ''v'', ce_sha256 = (\<lambda>x. x), ce_system = (\<lambda>_. Listening 43212),
     ce_browser = (\<lambda>_. [\<lparr>cb_pathname = ''/favicon.ico'', cb_params = []\<rparr>,
                        \<lparr>cb_pathname = ''/callback'', cb_params = [(''state'', hex_digest ''s''), (''code'', ''c1'')]\<rparr>]),
     ce_post = (\<lambda>_ _. Inr \<lparr>cr_status = 200, cr_text = [], cr_json = Some (JObj [(''id_token'', JStr ''t''), (''expires_in'', JNum 60 0)])\<rparr>),
     ce_now = 0\<rparr>"

definition demo_cli_config :: CliConfig where
  "demo_cli_config = \<lparr>cl_gatewayUrl = ''https://gw'', cl_oidcIssuer = ''https://idp'', cl_oidcClientID = ''cli'', cl_oidcClientSecret = None,
      cl_oidcTokenEndpoint = ''https://idp/t'', cl_oidcAuthorizationEndpoint = ''https://idp/a'', cl_oidcCallbackPorts = None\<rparr>"

lemma demo_sign_in: "authorizationCodeAuth demo_cli demo_cli_config = Inr (''t'', 60000)"
  by code_simp

theorem cli_sign_in_bound_witness:
  "\<exists>port code before q after res.
    listenOnAvailablePort (ce_system demo_cli) (ports_of demo_cli_config) = Inr port \<and>
    ce_browser demo_cli (authorize_url demo_cli_config port (hex_digest (ce_state demo_cli))
      (codeChallenge (ce_sha256 demo_cli) (b64_encode (ce_verifier demo_cli)))) = before @ q # after \<and>
    (\<forall>p\<in>set before. snd (callback_request (hex_digest (ce_state demo_cli)) p) = None) \<and>
    cb_pathname q = ''/callback'' \<and> params_get ''state'' (cb_params q) = Some (hex_digest (ce_state demo_cli)) \<and>
    params_get ''code'' (cb_params q) = Some code \<and> \<not> truthy (params_get ''error'' (cb_params q)) \<and>
    ce_post demo_cli (cl_oidcTokenEndpoint demo_cli_config) (token_params demo_cli_config code (redirect_uri port) (b64_encode (ce_verifier demo_cli))) = Inr res \<and>
    cr_ok res"
  by (rule cli_sign_in_bound [OF demo_sign_in])

end
