(* ===== verification/LocalServer.thy ===== *)
theory LocalServer
  imports Json Machines
begin

text \<open>
  The opencode server the CLI runs on the machine: \<open>startServerV2\<close> of
  \<open>cli/src/server.ts\<close> as a state machine over the events of the child process, its timers and
  \<open>close()\<close>, and the end of the CLI, \<open>cli/src/shutdown.ts\<close> with the handler of
  \<open>cli/src/index.ts\<close> for a server that exits. The child's output arrives in chunks of text;
  console output is not modelled.
\<close>

section \<open>Lines\<close>

text \<open>\<open>(buf + chunk).split(/\r?\n/)\<close>: the complete lines that are not empty, and the rest.\<close>

definition strip_cr :: "str \<Rightarrow> str" where
  "strip_cr s = (if s \<noteq> [] \<and> last s = CHR 0x0D then butlast s else s)"

definition splitLines :: "str \<Rightarrow> str \<Rightarrow> str list \<times> str" where
  "splitLines chunk buf =
     (let ps = split_on (CHR 0x0A) (buf @ chunk)
      in (filter (\<lambda>l. l \<noteq> []) (map strip_cr (butlast ps)), last ps))"

section \<open>The child process\<close>

record child =
  ch_started :: bool
  ch_settled :: bool
  ch_exited :: bool
  ch_closing :: bool
  ch_stdoutBuf :: str
  ch_stderrBuf :: str
  ch_stderrTail :: "str list"

definition child_new :: child where
  "child_new = \<lparr>ch_started = False, ch_settled = False, ch_exited = False, ch_closing = False, ch_stdoutBuf = [], ch_stderrBuf = [], ch_stderrTail = []\<rparr>"

text \<open>\<open>TermTimer\<close> fires three seconds after a termination, \<open>CloseTimer\<close> five after \<open>close()\<close>; \<open>Exited\<close> names the signal or the code.\<close>

datatype child_event =
    Stdout str
  | Stderr str
  | Timeout nat
  | SpawnError str str
  | Exited "str option" str
  | CloseHandle
  | TermTimer
  | CloseTimer

datatype child_action =
    Resolve str
  | Reject str
  | Kill str
  | EndStdin
  | OnExit

text \<open>\<open>msg && typeof msg.url === "string"\<close> of a line, where it is JSON.\<close>

definition url_line :: "str \<Rightarrow> str option" where
  "url_line line =
     (case jparse line of
        Some (JObj ps) \<Rightarrow> (case get_prop ps ''url'' of Some (JStr u) \<Rightarrow> Some u | _ \<Rightarrow> None)
      | _ \<Rightarrow> None)"

definition onStdoutLine :: "child \<Rightarrow> str \<Rightarrow> child \<times> child_action list" where
  "onStdoutLine c line =
     (if ch_started c then (c, [])
      else case url_line line of
        None \<Rightarrow> (c, [])
      | Some u \<Rightarrow> (c\<lparr>ch_started := True, ch_settled := True\<rparr>, [Resolve u]))"

definition onStderrLine :: "child \<Rightarrow> str \<Rightarrow> child" where
  "onStderrLine c line =
     (let tail = ch_stderrTail c @ [line] in c\<lparr>ch_stderrTail := (if length tail > 20 then tl tail else tail)\<rparr>)"

fun stdout_lines :: "child \<Rightarrow> str list \<Rightarrow> child \<times> child_action list" where
  "stdout_lines c [] = (c, [])"
| "stdout_lines c (l # ls) = (let (c', a) = onStdoutLine c l; (c'', as) = stdout_lines c' ls in (c'', a @ as))"

definition fail_with :: "child \<Rightarrow> str \<Rightarrow> child \<times> child_action list" where
  "fail_with c message = (if ch_settled c then (c, []) else (c\<lparr>ch_settled := True\<rparr>, [Reject message]))"

definition exit_message :: "child \<Rightarrow> str option \<Rightarrow> str \<Rightarrow> str" where
  "exit_message c signal code =
     (let tail = join [CHR 0x0A] (ch_stderrTail c)
      in ''opencode serve exited ('' @ (case signal of Some s \<Rightarrow> s | None \<Rightarrow> ''code '' @ code) @ '') before it was ready'' @
         (if tail \<noteq> [] then CHR '':'' # CHR 0x0A # tail else []))"

definition on_close :: "child \<Rightarrow> str option \<Rightarrow> str \<Rightarrow> child \<times> child_action list" where
  "on_close c signal code =
     (let c = c\<lparr>ch_exited := True\<rparr>;
          (c, out) = (if ch_stdoutBuf c \<noteq> [] then onStdoutLine c (ch_stdoutBuf c) else (c, []));
          c = (if ch_stderrBuf c \<noteq> [] then onStderrLine c (ch_stderrBuf c) else c)
      in if ch_started c then (c, out @ (if \<not> ch_closing c then [OnExit] else []))
         else let (c, acts) = fail_with c (exit_message c signal code) in (c, out @ acts))"

fun child_step :: "child \<Rightarrow> child_event \<Rightarrow> child \<times> child_action list" where
  "child_step c (Stdout chunk) =
     (let (ls, rest) = splitLines chunk (ch_stdoutBuf c); (c', acts) = stdout_lines c ls in (c'\<lparr>ch_stdoutBuf := rest\<rparr>, acts))"
| "child_step c (Stderr chunk) =
     (let (ls, rest) = splitLines chunk (ch_stderrBuf c) in ((foldl onStderrLine c ls)\<lparr>ch_stderrBuf := rest\<rparr>, []))"
| "child_step c (Timeout ms) =
     (if ch_settled c then (c, [])
      else let (c', acts) = fail_with c (''opencode serve timed out after '' @ show_nat ms @ '' ms without reporting its URL'')
           in (c', (if \<not> ch_exited c then [Kill ''SIGTERM''] else []) @ acts))"
| "child_step c (SpawnError command message) = fail_with c (''could not start '' @ command @ '': '' @ message)"
| "child_step c (Exited signal code) = on_close c signal code"
| "child_step c CloseHandle = (c\<lparr>ch_closing := True\<rparr>, [EndStdin])"
| "child_step c TermTimer = (c, if \<not> ch_exited c then [Kill ''SIGKILL''] else [])"
| "child_step c CloseTimer = (c, if \<not> ch_exited c then [Kill ''SIGTERM''] else [])"

abbreviation child_run :: "child \<Rightarrow> child_event list \<Rightarrow> child \<times> child_action list" where
  "child_run \<equiv> feed child_step"

text \<open>The settlement of the promise: the first one counts.\<close>

fun outcome :: "child_action list \<Rightarrow> (str + str) option" where
  "outcome [] = None"
| "outcome (Resolve u # _) = Some (Inr u)"
| "outcome (Reject e # _) = Some (Inl e)"
| "outcome (_ # as) = outcome as"

section \<open>The end of the CLI\<close>

datatype cli_action = CloseTunnel | CloseServer | Exit nat

text \<open>\<open>shutdown()\<close>, with the tunnel and the server there are, and \<open>onExit\<close> of the server.\<close>

definition shutdown :: "bool \<Rightarrow> bool \<Rightarrow> bool \<times> cli_action list" where
  "shutdown has_tunnel has_server =
     (True, (if has_tunnel then [CloseTunnel] else []) @ (if has_server then [CloseServer] else []) @ [Exit 0])"

definition server_exited :: "bool \<Rightarrow> bool \<Rightarrow> cli_action list" where
  "server_exited shuttingDown has_tunnel =
     (if shuttingDown then [] else (if has_tunnel then [CloseTunnel] else []) @ [Exit 1])"

section \<open>Properties\<close>

lemma split_on_chunks: "split_on c (a @ b) = butlast (split_on c a) @ split_on c (last (split_on c a) @ b)"
proof (induction a)
  case (Cons x a)
  obtain p ps where p: "split_on c a = p # ps" by (cases "split_on c a") auto
  show ?case using Cons p by (cases ps) (auto split: list.splits)
qed simp

lemma split_chunks:
  "fst (splitLines (c1 @ c2) buf) = fst (splitLines c1 buf) @ fst (splitLines c2 (snd (splitLines c1 buf)))"
  "snd (splitLines (c1 @ c2) buf) = snd (splitLines c2 (snd (splitLines c1 buf)))"
  using split_on_chunks [of "CHR 0x0A" "buf @ c1" c2] by (simp_all add: splitLines_def Let_def butlast_append)

lemma onStdoutLine_buf: "onStdoutLine (c\<lparr>ch_stdoutBuf := r\<rparr>) l = (fst (onStdoutLine c l)\<lparr>ch_stdoutBuf := r\<rparr>, snd (onStdoutLine c l))"
  by (simp add: onStdoutLine_def split: option.split)

lemma stdout_lines_buf:
  "stdout_lines (c\<lparr>ch_stdoutBuf := r\<rparr>) ls = (fst (stdout_lines c ls)\<lparr>ch_stdoutBuf := r\<rparr>, snd (stdout_lines c ls))"
  by (induction ls arbitrary: c) (simp_all add: onStdoutLine_buf Let_def split_def)

lemma stdout_lines_append:
  "snd (stdout_lines c (ls @ ms)) = snd (stdout_lines c ls) @ snd (stdout_lines (fst (stdout_lines c ls)) ms)"
  by (induction ls arbitrary: c) (simp_all add: Let_def split_def)

lemma rest_no_newline: "CHR 0x0A \<notin> set (snd (splitLines chunk buf))"
  using split_on_set [of "last (split_on (CHR 0x0A) (buf @ chunk))" "CHR 0x0A" "buf @ chunk"] by (simp add: splitLines_def Let_def)

lemma run_stdout:
  assumes "CHR 0x0A \<notin> set (ch_stdoutBuf c)"
  shows "snd (child_run c (map Stdout chunks)) = snd (stdout_lines c (fst (splitLines (concat chunks) (ch_stdoutBuf c))))"
  using assms
proof (induction chunks arbitrary: c)
  case Nil
  then show ?case by (simp add: splitLines_def split_on_single)
next
  case (Cons ch chunks)
  let ?c = "fst (stdout_lines c (fst (splitLines ch (ch_stdoutBuf c))))\<lparr>ch_stdoutBuf := snd (splitLines ch (ch_stdoutBuf c))\<rparr>"
  have "child_step c (Stdout ch) = (?c, snd (stdout_lines c (fst (splitLines ch (ch_stdoutBuf c)))))"
    by (simp add: Let_def split_def)
  then have r: "snd (child_run c (map Stdout (ch # chunks))) =
      snd (stdout_lines c (fst (splitLines ch (ch_stdoutBuf c)))) @ snd (child_run ?c (map Stdout chunks))"
    by (simp add: Let_def split_def del: child_step.simps)
  have "CHR 0x0A \<notin> set (ch_stdoutBuf ?c)" using rest_no_newline by simp
  from Cons.IH [OF this] show ?case unfolding r by (simp add: split_chunks stdout_lines_append stdout_lines_buf)
qed

fun first_url :: "str list \<Rightarrow> str option" where
  "first_url [] = None"
| "first_url (l # ls) = (case url_line l of Some u \<Rightarrow> Some u | None \<Rightarrow> first_url ls)"

lemma lines_outcome: "\<not> ch_started c \<Longrightarrow> outcome (snd (stdout_lines c ls)) = map_option Inr (first_url ls)"
  by (induction ls arbitrary: c) (auto simp: onStdoutLine_def Let_def split_def split: option.split)

text \<open>C26. However the child's output is cut into chunks, inside a line or between the two characters that end one, the
  server is taken to run at the address of the first complete line that is a JSON object with a string
  \<open>url\<close>, and only then.\<close>

theorem url_found:
  "outcome (snd (child_run child_new (map Stdout chunks))) = map_option Inr (first_url (fst (splitLines (concat chunks) [])))"
  using run_stdout [of child_new chunks] lines_outcome [of child_new] by (simp add: child_new_def)













lemma stays_exited: "ch_exited c \<Longrightarrow> ch_exited (fst (child_step c e)) \<and> (\<forall>s. Kill s \<notin> set (snd (child_step c e)))"
proof -
  have l: "ch_exited (fst (onStdoutLine c l)) = ch_exited c" "Kill s \<notin> set (snd (onStdoutLine c l))" for c l s
    by (simp_all add: onStdoutLine_def split: option.split)
  have ls: "ch_exited (fst (stdout_lines c ls)) = ch_exited c \<and> Kill s \<notin> set (snd (stdout_lines c ls))" for c ls s
    by (induction ls arbitrary: c) (simp_all add: l Let_def split_def)
  have r: "ch_exited (foldl onStderrLine c ls) = ch_exited c" for c ls
    by (induction ls arbitrary: c) (simp_all add: onStderrLine_def Let_def)
  show "ch_exited c \<Longrightarrow> ?thesis"
    using l ls r by (cases e) (auto simp: Let_def split_def fail_with_def on_close_def onStderrLine_def)
qed

interpretation exited: machine child_step ch_exited "\<lambda>_. True" "\<lambda>a. \<forall>s. a \<noteq> Kill s"
  by unfold_locales (use stays_exited in blast)+





end
