(* ===== verification/UiAuth.thy ===== *)
theory UiAuth
  imports TokenStore Http Query Sha256
begin

text \<open>
  \<open>ui/src/auth.ts\<close> with \<open>apiUrl\<close> of \<open>ui/src/server.ts\<close> and \<open>ui/src/api.ts\<close>: the session
  the interface keeps and the sign-in. An operation runs on the interface's state (\<open>ui\<close>) and
  on the rest of the world (\<open>'w\<close>); \<open>env\<close> holds what it finds there: \<open>fetch\<close>,
  the clock in milliseconds, the native sign-in, random bytes, \<open>URL\<close>. Storage works or it throws
  throughout (\<open>ev_storage\<close>). One operation runs at a time: the sharing of a refresh that is under
  way and the locks between tabs are left out.
\<close>

section \<open>State and environment\<close>

record location =
  lo_origin :: str
  lo_pathname :: str
  lo_search :: str
  lo_hash :: str

record ui =
  ua_refresh :: "str option"
  ua_access :: "(str \<times> int) option"
  ua_verifier :: "str option"
  ua_loggedOut :: nat   \<comment> \<open>calls of the listener\<close>
  ua_protocol :: ProtocolState
  ua_location :: location

record ui_request =
  uq_method :: str
  uq_url :: str
  uq_headers :: headers
  uq_body :: "json option"

record ui_reply =
  rp_status :: nat
  rp_headers :: headers
  rp_json :: "json option"

record uri =
  ur_front :: str   \<comment> \<open>up to the query\<close>
  ur_search :: str
  ur_hash :: str

record 'w env =
  ev_fetch :: "ui_request \<Rightarrow> ('w, ui_reply) io"
  ev_now :: "'w \<Rightarrow> int"
  ev_random :: "nat \<Rightarrow> ('w, str) io"
  ev_signIn :: "str \<Rightarrow> ('w, str) io"   \<comment> \<open>\<open>nativeCall("signIn")\<close>; it throws the code of its error\<close>
  ev_url :: "str \<Rightarrow> uri option"
  ev_subtle :: "(str \<Rightarrow> str) option"
  ev_base :: str
  ev_native :: bool
  ev_storage :: bool

definition ui_get :: "(ui \<Rightarrow> 'a) \<Rightarrow> (ui \<times> 'w, 'a) io" where
  "ui_get f s = (Inr (f (fst s)), s)"

definition ui_set :: "(ui \<Rightarrow> ui) \<Rightarrow> (ui \<times> 'w, unit) io" where
  "ui_set f s = (Inr (), (f (fst s), snd s))"

definition world :: "('w, 'a) io \<Rightarrow> (ui \<times> 'w, 'a) io" where
  "world m s = (case m (snd s) of (r, w) \<Rightarrow> (r, (fst s, w)))"

definition now :: "'w env \<Rightarrow> (ui \<times> 'w, int) io" where
  "now E s = (Inr (ev_now E (snd s)), s)"

definition apiUrl :: "'w env \<Rightarrow> str \<Rightarrow> str" where
  "apiUrl E path = (if ev_base E \<noteq> [] then ev_base E @ path else path)"

section \<open>Tokens\<close>

definition EARLY_REFRESH_MS :: int where "EARLY_REFRESH_MS = 30000"

record TokenResponse =
  tr_access_token :: str
  tr_refresh_token :: str
  tr_expires_in :: int

text \<open>\<open>res.json()\<close> as a \<open>TokenResponse\<close>, with a whole number of seconds.\<close>

definition as_tokens :: "ui_reply \<Rightarrow> str + TokenResponse" where
  "as_tokens r =
     (case rp_json r of
        None \<Rightarrow> Inl ''SyntaxError''
      | Some (JObj ps) \<Rightarrow>
          (case (get_prop ps ''access_token'', get_prop ps ''refresh_token'', get_prop ps ''expires_in'') of
             (Some (JStr a), Some (JStr t), Some (JNum n e)) \<Rightarrow>
               if 0 \<le> e then Inr \<lparr>tr_access_token = a, tr_refresh_token = t, tr_expires_in = n * 10 ^ nat e\<rparr> else Inl ''TypeError''
           | _ \<Rightarrow> Inl ''TypeError'')
      | _ \<Rightarrow> Inl ''TypeError'')"

definition ok :: "ui_reply \<Rightarrow> bool" where "ok r \<longleftrightarrow> 200 \<le> rp_status r \<and> rp_status r < 300"

definition readRefresh :: "'w env \<Rightarrow> ui \<Rightarrow> str option" where
  "readRefresh E u = (if ev_storage E then ua_refresh u else None)"

definition writeRefresh :: "'w env \<Rightarrow> str option \<Rightarrow> ui \<Rightarrow> ui" where
  "writeRefresh E token u =
     (if ev_storage E then u\<lparr>ua_refresh := (if truthy token then token else None)\<rparr> else u)"

definition save :: "'w env \<Rightarrow> TokenResponse \<Rightarrow> (ui \<times> 'w, unit) io" where
  "save E res =
     io_bind (now E) (\<lambda>t. ui_set (\<lambda>u.
       writeRefresh E (Some (tr_refresh_token res)) (u\<lparr>ua_access := Some (tr_access_token res, t + tr_expires_in res * 1000)\<rparr>)))"

definition clear :: "'w env \<Rightarrow> ui \<Rightarrow> ui" where
  "clear E u = writeRefresh E None (u\<lparr>ua_access := None\<rparr>)"

definition fresh :: "'w env \<Rightarrow> (ui \<times> 'w, str option) io" where
  "fresh E =
     io_bind (now E) (\<lambda>t. ui_get (\<lambda>u.
       case ua_access u of None \<Rightarrow> None | Some (token, expiresAt) \<Rightarrow> if expiresAt - t > EARLY_REFRESH_MS then Some token else None))"

text \<open>A request and \<open>checkProtocol\<close> of its answer.\<close>

definition send_checked :: "'w env \<Rightarrow> ui_request \<Rightarrow> (ui \<times> 'w, ui_reply) io" where
  "send_checked E q =
     io_bind (world (ev_fetch E (q\<lparr>uq_headers := withProtocol (uq_headers q)\<rparr>))) (\<lambda>res.
     io_bind (ui_set (\<lambda>u. u\<lparr>ua_protocol := checkProtocol (rp_status res) (rp_headers res) (rp_json res) (ua_protocol u)\<rparr>)) (\<lambda>_.
     io_return res))"

definition json_request :: "'w env \<Rightarrow> str \<Rightarrow> json \<Rightarrow> ui_request" where
  "json_request E path body =
     \<lparr>uq_method = ''POST'', uq_url = apiUrl E path, uq_headers = [(''content-type'', ''application/json'')], uq_body = Some body\<rparr>"

definition postJson :: "'w env \<Rightarrow> str \<Rightarrow> json \<Rightarrow> (ui \<times> 'w, ui_reply) io" where
  "postJson E path body = send_checked E (json_request E path body)"

definition refresh_body :: "str \<Rightarrow> json" where
  "refresh_body token = JObj [(''refresh_token'', JStr token)]"

text \<open>What \<open>refreshNow\<close> makes of the answer.\<close>

definition refreshed :: "'w env \<Rightarrow> ui_reply \<Rightarrow> (ui \<times> 'w, str option) io" where
  "refreshed E res =
     (if rp_status res = 400 \<or> rp_status res = 401
      then io_bind (ui_set (\<lambda>u. clear E u\<lparr>ua_loggedOut := ua_loggedOut (clear E u) + 1\<rparr>)) (\<lambda>_. io_return None)
      else if \<not> ok res then io_throw (''refresh failed: '' @ show_nat (rp_status res))
      else io_bind (io_lift (as_tokens res)) (\<lambda>body. io_bind (save E body) (\<lambda>_. io_return (Some (tr_access_token body)))))"

definition refreshNow :: "'w env \<Rightarrow> (ui \<times> 'w, str option) io" where
  "refreshNow E =
     io_bind (fresh E) (\<lambda>current.
       if truthy current then io_return current
       else
         io_bind (ui_get (readRefresh E)) (\<lambda>refreshToken.
           if \<not> truthy refreshToken then io_return None
           else io_bind (postJson E ''/auth/refresh'' (refresh_body (the refreshToken))) (refreshed E)))"

definition hasSession :: "'w env \<Rightarrow> ui \<Rightarrow> bool" where
  "hasSession E u = truthy (readRefresh E u)"

definition getCachedAccessToken :: "'w env \<Rightarrow> (ui \<times> 'w, str option) io" where
  "getCachedAccessToken E =
     io_bind (now E) (\<lambda>t. ui_get (\<lambda>u.
       case ua_access u of None \<Rightarrow> None | Some (token, expiresAt) \<Rightarrow> if expiresAt > t then Some token else None))"

definition invalidateAccessToken :: "ui \<Rightarrow> ui" where
  "invalidateAccessToken u = u\<lparr>ua_access := None\<rparr>"

definition getAccessToken :: "'w env \<Rightarrow> (ui \<times> 'w, str option) io" where
  "getAccessToken E =
     io_bind (fresh E) (\<lambda>current. if truthy current then io_return current else refreshNow E)"

definition send_as :: "'w env \<Rightarrow> ui_request \<Rightarrow> str option \<Rightarrow> (ui \<times> 'w, ui_reply) io" where
  "send_as E q token =
     send_checked E (if truthy token then q\<lparr>uq_headers := header_set ''authorization'' (''Bearer '' @ the token) (uq_headers q)\<rparr> else q)"

definition authFetch :: "'w env \<Rightarrow> ui_request \<Rightarrow> (ui \<times> 'w, ui_reply) io" where
  "authFetch E q =
     io_bind (getAccessToken E) (\<lambda>token.
     io_bind (send_as E q token) (\<lambda>res.
     io_bind (ui_get (hasSession E)) (\<lambda>session.
       if rp_status res \<noteq> 401 \<or> \<not> session then io_return res
       else
         io_bind (ui_set invalidateAccessToken) (\<lambda>_.
         io_bind (getAccessToken E) (send_as E q)))))"

section \<open>Sign-in\<close>

definition saveVerifier :: "'w env \<Rightarrow> str \<Rightarrow> ui \<Rightarrow> ui" where
  "saveVerifier E verifier u = (if ev_storage E then u\<lparr>ua_verifier := Some verifier\<rparr> else u)"

definition takeVerifier :: "'w env \<Rightarrow> (ui \<times> 'w, str option) io" where
  "takeVerifier E =
     (if ev_storage E
      then io_bind (ui_get ua_verifier) (\<lambda>verifier. io_bind (ui_set (\<lambda>u. u\<lparr>ua_verifier := None\<rparr>)) (\<lambda>_. io_return verifier))
      else io_return None)"

text \<open>\<open>btoa\<close>: the standard alphabet, padded.\<close>

definition std_char :: "nat \<Rightarrow> char" where
  "std_char n = (if n = 62 then CHR ''+'' else if n = 63 then CHR ''/'' else b64_char n)"

definition btoa :: "str \<Rightarrow> str" where
  "btoa bytes = map std_char (sextets (map byte bytes)) @ replicate ((3 - length bytes mod 3) mod 3) (CHR ''='')"

definition base64url :: "str \<Rightarrow> str" where
  "base64url bytes =
     (let s = map (\<lambda>c. if c = CHR ''+'' then CHR ''-'' else c) (btoa bytes);
          s = map (\<lambda>c. if c = CHR ''/'' then CHR ''_'' else c) s
      in rev (dropWhile (\<lambda>c. c = CHR ''='') (rev s)))"

definition ui_codeChallenge :: "(str \<Rightarrow> str) option \<Rightarrow> str \<Rightarrow> str" where
  "ui_codeChallenge subtle verifier = base64url (sha256 subtle verifier)"

definition exchange_body :: "str \<Rightarrow> str \<Rightarrow> json" where
  "exchange_body code verifier = JObj [(''code'', JStr code), (''code_verifier'', JStr verifier)]"

definition exchangeCode :: "'w env \<Rightarrow> str \<Rightarrow> str \<Rightarrow> (ui \<times> 'w, bool) io" where
  "exchangeCode E code verifier =
     io_catch
       (io_bind (postJson E ''/auth/token'' (exchange_body code verifier)) (\<lambda>res.
          if \<not> ok res then io_return False
          else io_bind (io_lift (as_tokens res)) (\<lambda>t. io_bind (save E t) (\<lambda>_. io_return True))))
       (io_return False)"

datatype LoginResult = Redirected str | SignedIn | Cancelled | Failed | Unsupported

record AppConfig =
  ap_authorizationEndpoint :: str
  ap_clientId :: str
  ap_redirectUri :: str
  ap_prompt :: "str option"

definition as_app_config :: "ui_reply \<Rightarrow> str + AppConfig" where
  "as_app_config r =
     (case rp_json r of
        None \<Rightarrow> Inl ''SyntaxError''
      | Some (JObj ps) \<Rightarrow>
          (case (get_prop ps ''authorizationEndpoint'', get_prop ps ''clientId'', get_prop ps ''redirectUri'') of
             (Some (JStr a), Some (JStr c), Some (JStr d)) \<Rightarrow>
               Inr \<lparr>ap_authorizationEndpoint = a, ap_clientId = c, ap_redirectUri = d,
                    ap_prompt = (case get_prop ps ''prompt'' of Some (JStr p) \<Rightarrow> Some p | _ \<Rightarrow> None)\<rparr>
           | _ \<Rightarrow> Inl ''TypeError'')
      | _ \<Rightarrow> Inl ''TypeError'')"

text \<open>\<open>searchParams.set\<close> and \<open>URL.href\<close>.\<close>

definition params_set :: "(str \<times> str) list \<Rightarrow> str \<times> str \<Rightarrow> (str \<times> str) list" where
  "params_set ps kv =
     takeWhile (\<lambda>p. fst p \<noteq> fst kv) ps @ kv # params_delete (fst kv) (dropWhile (\<lambda>p. fst p \<noteq> fst kv) ps)"

definition with_params :: "uri \<Rightarrow> (str \<times> str) list \<Rightarrow> str" where
  "with_params u kvs =
     ur_front u @ ''?'' @ form_serialize (foldl params_set (search_params (ur_search u)) kvs) @ ur_hash u"

definition app_params :: "AppConfig \<Rightarrow> str \<Rightarrow> str \<Rightarrow> str \<Rightarrow> (str \<times> str) list" where
  "app_params cfg state nonce challenge =
     [(''response_type'', ''code''), (''client_id'', ap_clientId cfg), (''redirect_uri'', ap_redirectUri cfg),
      (''scope'', ''openid email profile''), (''state'', state), (''nonce'', nonce), (''code_challenge'', challenge),
      (''code_challenge_method'', ''S256'')] @
     (if truthy (ap_prompt cfg) then [(''prompt'', the (ap_prompt cfg))] else [])"

definition app_token_body :: "str \<Rightarrow> str \<Rightarrow> str \<Rightarrow> json" where
  "app_token_body code verifier nonce = JObj [(''code'', JStr code), (''code_verifier'', JStr verifier), (''nonce'', JStr nonce)]"

text \<open>The callback of the native sign-in.\<close>

definition native_callback :: "'w env \<Rightarrow> str \<Rightarrow> str \<Rightarrow> str \<Rightarrow> str \<Rightarrow> (ui \<times> 'w, LoginResult) io" where
  "native_callback E verifier state nonce url =
     (case ev_url E url of
        None \<Rightarrow> io_return Failed
      | Some u \<Rightarrow>
          let ps = search_params (ur_search u)
          in if params_get ''state'' ps \<noteq> Some state then io_return Failed
             else if \<not> truthy (params_get ''code'' ps) then io_return Failed
             else
               io_catch
                 (io_bind (postJson E ''/auth/app-token'' (app_token_body (the (params_get ''code'' ps)) verifier nonce)) (\<lambda>res.
                    if \<not> ok res then io_return Failed
                    else io_bind (io_lift (as_tokens res)) (\<lambda>t. io_bind (save E t) (\<lambda>_. io_return SignedIn))))
                 (io_return Failed))"

definition native_authorize :: "'w env \<Rightarrow> str \<Rightarrow> str \<Rightarrow> AppConfig \<Rightarrow> (ui \<times> 'w, LoginResult) io" where
  "native_authorize E verifier challenge cfg =
     io_bind (world (ev_random E 16)) (\<lambda>b1. io_bind (world (ev_random E 16)) (\<lambda>b2.
       let state = base64url b1; nonce = base64url b2
       in case ev_url E (ap_authorizationEndpoint cfg) of
            None \<Rightarrow> io_return Failed
          | Some authorize \<Rightarrow> (\<lambda>s.
              case world (ev_signIn E (with_params authorize (app_params cfg state nonce challenge))) s of
                (Inl code, s') \<Rightarrow> io_return (if code = ''cancelled'' then Cancelled else Failed) s'
              | (Inr url, s') \<Rightarrow> native_callback E verifier state nonce url s')))"

definition nativeLogin :: "'w env \<Rightarrow> str \<Rightarrow> str \<Rightarrow> (ui \<times> 'w, LoginResult) io" where
  "nativeLogin E verifier challenge =
     (if ev_base E = [] then io_return Failed
      else (\<lambda>s.
        case world (ev_fetch E \<lparr>uq_method = ''GET'', uq_url = apiUrl E ''/auth/app-config'', uq_headers = [], uq_body = None\<rparr>) s of
          (Inl _, s') \<Rightarrow> io_return Failed s'
        | (Inr res, s') \<Rightarrow>
            (if rp_status res = 404 then io_return Unsupported
             else if \<not> ok res then io_return Failed
             else case as_app_config res of
               Inl _ \<Rightarrow> io_return Failed
             | Inr cfg \<Rightarrow> native_authorize E verifier challenge cfg) s'))"

definition return_address :: "'w env \<Rightarrow> location \<Rightarrow> str" where
  "return_address E l = (if ev_base E \<noteq> [] then lo_origin l @ lo_pathname l @ lo_search l else lo_pathname l @ lo_search l)"

definition start_path :: "str \<Rightarrow> str \<Rightarrow> str" where
  "start_path returnTo challenge = ''/auth/start?return_to='' @ encodeURIComponent returnTo @ ''&code_challenge='' @ challenge"

definition login :: "'w env \<Rightarrow> (ui \<times> 'w, LoginResult) io" where
  "login E =
     io_bind (world (ev_random E 32)) (\<lambda>bytes.
       let verifier = base64url bytes; challenge = ui_codeChallenge (ev_subtle E) verifier
       in if ev_native E then nativeLogin E verifier challenge
          else
            io_bind (ui_set (saveVerifier E verifier)) (\<lambda>_.
            io_bind (ui_get ua_location) (\<lambda>l.
            io_return (Redirected (apiUrl E (start_path (return_address E l) challenge))))))"

text \<open>\<open>hash.match(/(?:^#|&)code=([^&]+)/)\<close>.\<close>

definition code_value :: "str \<Rightarrow> str option" where
  "code_value s =
     (if startsWith s ''code='' \<and> takeWhile (\<lambda>c. c \<noteq> CHR ''&'') (drop 5 s) \<noteq> []
      then Some (takeWhile (\<lambda>c. c \<noteq> CHR ''&'') (drop 5 s)) else None)"

fun amp_code :: "str \<Rightarrow> str option" where
  "amp_code [] = None"
| "amp_code (c # cs) = (if c = CHR ''&'' \<and> code_value cs \<noteq> None then code_value cs else amp_code cs)"

definition hash_code :: "str \<Rightarrow> str option" where
  "hash_code h = (if startsWith h ''#'' \<and> code_value (tl h) \<noteq> None then code_value (tl h) else amp_code h)"

datatype Completed = NoCode | CodeOk | Expired

definition completeLogin :: "'w env \<Rightarrow> (ui \<times> 'w, Completed) io" where
  "completeLogin E =
     io_bind (ui_get (\<lambda>u. hash_code (lo_hash (ua_location u)))) (\<lambda>found.
       case found of
         None \<Rightarrow> io_return NoCode
       | Some raw \<Rightarrow>
           io_bind (ui_set (\<lambda>u. u\<lparr>ua_location := (ua_location u)\<lparr>lo_hash := []\<rparr>\<rparr>)) (\<lambda>_.
           io_bind (takeVerifier E) (\<lambda>verifier.
             if \<not> truthy verifier then io_return Expired
             else case decodeURIComponent raw of
               None \<Rightarrow> io_return Expired
             | Some code \<Rightarrow>
                 io_bind (exchangeCode E code (the verifier)) (\<lambda>good. io_return (if good then CodeOk else Expired)))))"

definition logout :: "'w env \<Rightarrow> (ui \<times> 'w, unit) io" where
  "logout E =
     io_bind (ui_get (readRefresh E)) (\<lambda>refreshToken.
     io_bind (ui_set (clear E)) (\<lambda>_.
       if truthy refreshToken
       then io_catch (io_bind (postJson E ''/auth/logout'' (refresh_body (the refreshToken))) (\<lambda>_. io_return ())) (io_return ())
       else io_return ()))"

section \<open>Questions to the API\<close>

text \<open>\<open>fetchMe\<close> and \<open>fetchSessions\<close> of \<open>ui/src/api.ts\<close>; the answer stays JSON, \<open>null\<close> is \<open>JNull\<close>.\<close>

definition get_request :: "'w env \<Rightarrow> str \<Rightarrow> ui_request" where
  "get_request E path = \<lparr>uq_method = ''GET'', uq_url = apiUrl E path, uq_headers = [], uq_body = None\<rparr>"

definition as_json :: "ui_reply \<Rightarrow> str + json" where
  "as_json res = (case rp_json res of None \<Rightarrow> Inl ''SyntaxError'' | Some j \<Rightarrow> Inr j)"

definition fetchMe :: "'w env \<Rightarrow> (ui \<times> 'w, json) io" where
  "fetchMe E =
     io_bind (ui_get (hasSession E)) (\<lambda>session.
       if \<not> session then io_return JNull
       else
         io_bind (authFetch E (get_request E ''/api/me'')) (\<lambda>res.
           if rp_status res = 401 then io_return JNull
           else if \<not> ok res then io_throw (''/api/me failed: '' @ show_nat (rp_status res))
           else io_lift (as_json res)))"

definition fetchSessions :: "'w env \<Rightarrow> (ui \<times> 'w, json) io" where
  "fetchSessions E =
     io_bind (authFetch E (get_request E ''/gateway/sessions'')) (\<lambda>res.
       if \<not> ok res then io_return (JArr []) else io_lift (as_json res))"

section \<open>The challenge\<close>







section \<open>The session\<close>

lemma io_bind_eq: "io_bind m f s = (r, t) \<longleftrightarrow> (\<exists>e. m s = (Inl e, t) \<and> r = Inl e) \<or> (\<exists>a s'. m s = (Inr a, s') \<and> f a s' = (r, t))"
  by (auto simp: io_bind_def split: prod.splits sum.splits)

lemma ui_get_eq [simp]: "ui_get f s = (r, t) \<longleftrightarrow> r = Inr (f (fst s)) \<and> t = s"
  by (auto simp: ui_get_def)

lemma ui_set_eq [simp]: "ui_set f s = (r, t) \<longleftrightarrow> r = Inr () \<and> t = (f (fst s), snd s)"
  by (auto simp: ui_set_def)

lemma now_eq [simp]: "now E s = (r, t) \<longleftrightarrow> r = Inr (ev_now E (snd s)) \<and> t = s"
  by (auto simp: now_def)

lemma world_eq: "world m s = (r, t) \<longleftrightarrow> (\<exists>w. m (snd s) = (r, w) \<and> t = (fst s, w))"
  by (auto simp: world_def split: prod.splits)


lemma save_eq: "save E b s = (r, t) \<longleftrightarrow> r = Inr () \<and>
    t = (writeRefresh E (Some (tr_refresh_token b)) (fst s\<lparr>ua_access := Some (tr_access_token b, ev_now E (snd s) + tr_expires_in b * 1000)\<rparr>), snd s)"
  by (auto simp: save_def io_bind_eq)


lemma send_checked_eq:
  "send_checked E q s = (r, t) \<longleftrightarrow>
    (\<exists>w. (\<exists>e. ev_fetch E (q\<lparr>uq_headers := withProtocol (uq_headers q)\<rparr>) (snd s) = (Inl e, w) \<and> r = Inl e \<and> t = (fst s, w)) \<or>
         (\<exists>res. ev_fetch E (q\<lparr>uq_headers := withProtocol (uq_headers q)\<rparr>) (snd s) = (Inr res, w) \<and> r = Inr res \<and>
            t = (fst s\<lparr>ua_protocol := checkProtocol (rp_status res) (rp_headers res) (rp_json res) (ua_protocol (fst s))\<rparr>, w)))"
  by (auto simp: send_checked_def io_bind_eq world_eq)

lemma post_refresh_eq:
  "postJson E ''/auth/refresh'' (refresh_body token) s = send_checked E (json_request E ''/auth/refresh'' (refresh_body token)) s"
  by (simp add: postJson_def)




definition quiet_ui :: ui where
  "quiet_ui = \<lparr>ua_refresh = Some ''r1'', ua_access = None, ua_verifier = Some ''v'', ua_loggedOut = 0, ua_protocol = ProtocolOk,
     ua_location = \<lparr>lo_origin = ''https://ui'', lo_pathname = ''/'', lo_search = [], lo_hash = ''#code=abc''\<rparr>\<rparr>"

text \<open>A server that answers every request with the given reply.\<close>

definition env_of :: "ui_reply \<Rightarrow> nat env" where
  "env_of res = \<lparr>ev_fetch = (\<lambda>q w. (Inr res, w + 1)), ev_now = (\<lambda>_. 0), ev_random = (\<lambda>n. io_return (replicate n (CHR ''x''))),
     ev_signIn = (\<lambda>_. io_return ''app://callback''), ev_url = (\<lambda>_. None), ev_subtle = None, ev_base = [], ev_native = False, ev_storage = True\<rparr>"

definition refused :: ui_reply where
  "refused = \<lparr>rp_status = 401, rp_headers = [], rp_json = None\<rparr>"



section \<open>The number of requests\<close>

text \<open>The environment that counts its requests.\<close>

definition counting :: "('w, 'a) io \<Rightarrow> (nat \<times> 'w, 'a) io" where
  "counting m s = (case m (snd s) of (r, w) \<Rightarrow> (r, (fst s, w)))"

definition counted :: "'w env \<Rightarrow> (nat \<times> 'w) env" where
  "counted E =
     \<lparr>ev_fetch = (\<lambda>q s. case ev_fetch E q (snd s) of (r, w) \<Rightarrow> (r, (fst s + 1, w))), ev_now = (\<lambda>s. ev_now E (snd s)),
      ev_random = (\<lambda>n. counting (ev_random E n)), ev_signIn = (\<lambda>u. counting (ev_signIn E u)), ev_url = ev_url E, ev_subtle = ev_subtle E,
      ev_base = ev_base E, ev_native = ev_native E, ev_storage = ev_storage E\<rparr>"

definition costs :: "nat \<Rightarrow> (ui \<times> nat \<times> 'w, 'a) io \<Rightarrow> bool" where
  "costs k m \<longleftrightarrow> (\<forall>s. fst (snd (snd (m s))) \<le> fst (snd s) + k)"

named_theorems cost_rules "requests of the operations"

lemma costs_bind: "costs j m \<Longrightarrow> (\<And>a. costs k (f a)) \<Longrightarrow> costs (j + k) (io_bind m f)"
  unfolding costs_def io_bind_def
proof
  fix s
  assume m: "\<forall>s. fst (snd (snd (m s))) \<le> fst (snd s) + j" and f: "\<And>a. \<forall>s. fst (snd (snd (f a s))) \<le> fst (snd s) + k"
  obtain r s' where r: "m s = (r, s')" by (cases "m s")
  then have j: "fst (snd s') \<le> fst (snd s) + j" using m by (metis snd_conv)
  show "fst (snd (snd (case m s of (Inl e, s') \<Rightarrow> (Inl e, s') | (Inr a, s') \<Rightarrow> f a s'))) \<le> fst (snd s) + (j + k)"
  proof (cases r)
    case (Inr a)
    have "fst (snd (snd (f a s'))) \<le> fst (snd s') + k" using f by blast
    then show ?thesis using r Inr j by simp
  qed (use r j in simp)
qed

lemma costs_bind_free [cost_rules]: "costs 0 m \<Longrightarrow> (\<And>a. costs k (f a)) \<Longrightarrow> costs k (io_bind m f)"
  using costs_bind [of 0 m k f] by simp

lemma costs_free [cost_rules]:
  "costs k (io_return a)" "costs k (io_throw e)" "costs 0 (io_lift r)" "costs 0 (ui_get f)" "costs 0 (ui_set g)" "costs 0 (now E)"
  by (simp_all add: costs_def io_return_def io_throw_def io_lift_def ui_get_def ui_set_def now_def)

lemma costs_if [cost_rules]: "costs k a \<Longrightarrow> costs k b \<Longrightarrow> costs k (if c then a else b)"
  by simp

lemma costs_send: "costs 1 (send_checked (counted E) q)"
proof -
  have w: "costs 1 (world (ev_fetch (counted E) q))" for q
    by (simp add: costs_def world_def counted_def split: prod.split)
  have "costs (1 + 0) (send_checked (counted E) q)" unfolding send_checked_def by (rule costs_bind [OF w]) (intro cost_rules)
  then show ?thesis by simp
qed

lemma costs_save [cost_rules]: "costs 0 (save E b)"
  unfolding save_def by (intro cost_rules)

lemma costs_fresh [cost_rules]: "costs 0 (fresh E)"
  unfolding fresh_def by (intro cost_rules)

lemma costs_refreshed: "costs 0 (refreshed E res)"
  unfolding refreshed_def by (intro cost_rules)

lemma costs_refreshNow [cost_rules]: "costs 1 (refreshNow (counted E))"
proof -
  have "costs (1 + 0) (io_bind (postJson (counted E) p b) (refreshed (counted E)))" for p b
    unfolding postJson_def by (intro costs_bind costs_send costs_refreshed)
  then have r: "costs 1 (io_bind (postJson (counted E) p b) (refreshed (counted E)))" for p b by simp
  show ?thesis unfolding refreshNow_def by (intro cost_rules r)
qed

lemma costs_getAccessToken: "costs 1 (getAccessToken (counted E))"
  unfolding getAccessToken_def by (intro cost_rules)

text \<open>A request of the interface never loops on refusals: together with the refreshes it may need, it makes at
  most four requests to the server, whatever the server answers.\<close>

theorem authFetch_bounded: "fst (snd (snd (authFetch (counted E) q s))) \<le> fst (snd s) + 4"
proof -
  have "costs (1 + 1) (io_bind (getAccessToken (counted E)) (send_as (counted E) q))"
    unfolding send_as_def by (intro costs_bind costs_getAccessToken costs_send)
  then have r: "costs 2 (io_bind (getAccessToken (counted E)) (send_as (counted E) q))" by (simp add: numeral_2_eq_2)
  have "costs (1 + (1 + 2)) (authFetch (counted E) q)" unfolding authFetch_def send_as_def [of _ q]
    by (intro costs_bind [OF costs_getAccessToken] costs_bind [OF costs_send] cost_rules r [unfolded send_as_def])
  moreover have "1 + (1 + 2) = (4 :: nat)" by simp
  ultimately have "costs 4 (authFetch (counted E) q)" by metis
  then show ?thesis unfolding costs_def by blast
qed

text \<open>A page that still has its session is told it is signed out only when the server refused the token itself, and
  not for another refusal, a server error or a lost connection.\<close>

theorem signed_out_means_refused:
  assumes "fetchMe E s = (Inr JNull, t)" "hasSession E (fst s)"
  shows "\<exists>res s'. authFetch E (get_request E ''/api/me'') s = (Inr res, s') \<and>
    (rp_status res = 401 \<or> ok res \<and> rp_json res = Some JNull)"
  using assms by (auto simp: fetchMe_def io_bind_eq ui_get_def io_return_def io_throw_def io_lift_def as_json_def split: if_splits option.splits)

section \<open>Completing a sign-in\<close>

lemma io_catch_eq: "io_catch m h s = (r, t) \<longleftrightarrow> (\<exists>e s'. m s = (Inl e, s') \<and> h s' = (r, t)) \<or> (\<exists>a. m s = (Inr a, t) \<and> r = Inr a)"
  by (auto simp: io_catch_def split: prod.splits sum.splits)

lemma save_keeps:
  assumes "save E b s = (r, t)"
  shows "ua_location (fst t) = ua_location (fst s)" "ua_verifier (fst t) = ua_verifier (fst s)" "r = Inr ()"
  using assms by (auto simp: save_eq writeRefresh_def)

text \<open>The exchange: what it sends, when it succeeds, what it leaves alone.\<close>

lemma exchange_keeps:
  assumes "exchangeCode E code v s = (r, t)"
  shows "ua_location (fst t) = ua_location (fst s) \<and> ua_verifier (fst t) = ua_verifier (fst s) \<and> (\<exists>b. r = Inr b)"
  using assms by (auto simp: exchangeCode_def postJson_def io_catch_eq io_bind_eq send_checked_eq split: if_splits dest: save_keeps)

lemma exchange_ok:
  assumes "exchangeCode E code v s = (Inr True, t)"
  shows "\<exists>res w. ev_fetch E (json_request E ''/auth/token'' (exchange_body code v)
      \<lparr>uq_headers := withProtocol (uq_headers (json_request E ''/auth/token'' (exchange_body code v)))\<rparr>) (snd s) = (Inr res, w) \<and> ok res"
  using assms by (auto simp: exchangeCode_def postJson_def io_catch_eq io_bind_eq send_checked_eq split: if_splits)

lemma hash_code_Nil [simp]: "hash_code [] = None"
  by (simp add: hash_code_def startsWith_def)

definition exchange_request :: "'w env \<Rightarrow> str \<Rightarrow> str \<Rightarrow> ui_request" where
  "exchange_request E code v = json_request E ''/auth/token'' (exchange_body code v)
     \<lparr>uq_headers := withProtocol (uq_headers (json_request E ''/auth/token'' (exchange_body code v)))\<rparr>"

text \<open>A login code in the address is used once and only by the client that asked for it: completing a sign-in
  succeeds only with the verifier kept at its start, sent along with the decoded code; it consumes that
  verifier and takes the code off the address whatever the outcome, so that completing again finds
  nothing and sends nothing.\<close>

theorem completeLogin_once:
  assumes "completeLogin E (u, w) = (r, (u', w'))" "ev_storage E"
  shows "completeLogin E (u', w') = (Inr NoCode, (u', w')) \<and>
    (r = Inr NoCode \<and> u' = u \<and> w' = w \<or> ua_verifier u' = None) \<and>
    (r = Inr CodeOk \<longrightarrow>
       (\<exists>raw code v res w1. hash_code (lo_hash (ua_location u)) = Some raw \<and> decodeURIComponent raw = Some code \<and>
          ua_verifier u = Some v \<and> ev_fetch E (exchange_request E code v) w = (Inr res, w1) \<and> ok res))"
proof (cases "hash_code (lo_hash (ua_location u))")
  case None
  then have "r = Inr NoCode \<and> u' = u \<and> w' = w" using assms(1) by (auto simp: completeLogin_def io_bind_eq)
  then show ?thesis using None by (auto simp: completeLogin_def io_bind_eq)
next
  case (Some raw)
  define u1 where "u1 = u\<lparr>ua_location := (ua_location u)\<lparr>lo_hash := []\<rparr>, ua_verifier := None\<rparr>"
  consider "r = Inr Expired" "u' = u1" "w' = w"
    | code v good where "decodeURIComponent raw = Some code" "ua_verifier u = Some v" "exchangeCode E code v (u1, w) = (Inr good, (u', w'))"
        "r = Inr (if good then CodeOk else Expired)"
    using assms Some exchange_keeps [of E _ _ "(u1, w)"]
    by (auto simp: completeLogin_def takeVerifier_def io_bind_eq truthy_def u1_def split: if_splits option.splits) blast+
  then show ?thesis
  proof cases
    case 1
    then show ?thesis by (auto simp: completeLogin_def io_bind_eq u1_def)
  next
    case (2 code v good)
    then have k: "ua_location u' = ua_location u1" "ua_verifier u' = ua_verifier u1" using exchange_keeps [OF 2(3)] by simp_all
    have again: "completeLogin E (u', w') = (Inr NoCode, (u', w'))" using k by (simp add: completeLogin_def io_bind_eq u1_def)
    show ?thesis
    proof (cases good)
      case True
      then have e: "exchangeCode E code v (u1, w) = (Inr True, (u', w'))" using 2(3) by simp
      obtain res w1 where "ev_fetch E (exchange_request E code v) w = (Inr res, w1)" "ok res"
        using exchange_ok [OF e] unfolding exchange_request_def snd_conv by blast
      then show ?thesis using True again k 2 Some by (auto simp: u1_def)
    next
      case False
      then show ?thesis using again k 2 by (simp add: u1_def)
    qed
  qed
qed

lemma complete_run: "completeLogin (env_of refused) (quiet_ui, 0) =
    (Inr Expired, (quiet_ui\<lparr>ua_verifier := None, ua_protocol := ServerOutdated, ua_location := (ua_location quiet_ui)\<lparr>lo_hash := []\<rparr>\<rparr>, 1))"
  by code_simp

theorem completeLogin_once_witness:
  "completeLogin (env_of refused)
      (quiet_ui\<lparr>ua_verifier := None, ua_protocol := ServerOutdated, ua_location := (ua_location quiet_ui)\<lparr>lo_hash := []\<rparr>\<rparr>, 1)
   = (Inr NoCode, (quiet_ui\<lparr>ua_verifier := None, ua_protocol := ServerOutdated, ua_location := (ua_location quiet_ui)\<lparr>lo_hash := []\<rparr>\<rparr>, 1))"
proof -
  have "ev_storage (env_of refused)" by (simp add: env_of_def)
  then show ?thesis using completeLogin_once [OF complete_run] by blast
qed

section \<open>The sign-in of the apps\<close>








end
