(* ===== verification/ProxyFetch.thy ===== *)
theory ProxyFetch
  imports UiAuth Machines
begin

text \<open>
  \<open>ui/src/proxy-fetch.ts\<close>: the patches that send the requests of the opencode web app in the
  page to the proxy of its session: \<open>proxyTarget\<close>, \<open>proxySocketUrl\<close>, the wrapped
  \<open>fetch\<close>, the wrapped WebSocket and the state machine of the wrapped XMLHttpRequest.
  \<open>new URL\<close> is the argument \<open>parse\<close> (\<open>None\<close> when it throws), the original
  \<open>fetch\<close> and the token functions are members of \<open>proxied\<close>. Bodies are opaque.
\<close>

section \<open>Targets\<close>

record page_url =
  pu_protocol :: str
  pu_host :: str
  pu_pathname :: str
  pu_search :: str

type_synonym url_parser = "str \<Rightarrow> str option \<Rightarrow> page_url option"

record ProxyOptions =
  po_pageOrigin :: str
  po_serverOrigin :: str
  po_sessionId :: str
  po_base :: str   \<comment> \<open>\<open>BASE\<close> of the build\<close>

definition RC_PREFIXES :: "str \<Rightarrow> str list" where
  "RC_PREFIXES base = [''/auth/'', ''/gateway/'', ''/assets/'', base @ ''/assets/'']"

definition RC_PATHS :: "str list" where
  "RC_PATHS = [''/healthz'', ''/api/me'']"

definition url_origin :: "page_url \<Rightarrow> str" where
  "url_origin u = pu_protocol u @ ''//'' @ pu_host u"

definition page_originOf :: "url_parser \<Rightarrow> str \<Rightarrow> str + str" where
  "page_originOf parse input = (case parse input None of None \<Rightarrow> Inl ''TypeError'' | Some u \<Rightarrow> Inr (url_origin u))"

definition proxy_prefix :: "ProxyOptions \<Rightarrow> str" where
  "proxy_prefix opts = ''/proxy/'' @ encodeURIComponent (po_sessionId opts)"

definition proxy_path :: "ProxyOptions \<Rightarrow> str \<Rightarrow> str" where
  "proxy_path opts pathname =
     (let path = collapse_slashes pathname
      in if path \<noteq> proxy_prefix opts \<and> \<not> startsWith path (proxy_prefix opts @ ''/'') then proxy_prefix opts @ path else path)"

definition proxyTarget :: "url_parser \<Rightarrow> str \<Rightarrow> ProxyOptions \<Rightarrow> str + str option" where
  "proxyTarget parse input opts =
     (case parse input (Some (po_pageOrigin opts)) of
        None \<Rightarrow> Inr None
      | Some url \<Rightarrow>
          andThen (page_originOf parse (po_pageOrigin opts)) (\<lambda>page.
          andThen (if url_origin url \<noteq> page then page_originOf parse (po_serverOrigin opts) else Inr page) (\<lambda>server.
            if url_origin url \<noteq> page \<and> url_origin url \<noteq> server then Inr None
            else if pu_pathname url \<in> set RC_PATHS \<or> list_ex (startsWith (pu_pathname url)) (RC_PREFIXES (po_base opts)) then Inr None
            else Inr (Some (po_serverOrigin opts @ proxy_path opts (pu_pathname url) @ pu_search url)))))"

definition url_href :: "page_url \<Rightarrow> str" where
  "url_href u = url_origin u @ pu_pathname u @ pu_search u"

definition proxySocketUrl :: "url_parser \<Rightarrow> str \<Rightarrow> ProxyOptions \<Rightarrow> str option \<Rightarrow> str + str option" where
  "proxySocketUrl parse input opts token =
     (case parse input (Some (po_pageOrigin opts)) of
        None \<Rightarrow> Inr None
      | Some url \<Rightarrow>
          let httpUrl = (if pu_protocol url = ''wss:'' then url\<lparr>pu_protocol := ''https:''\<rparr>
                         else if pu_protocol url = ''ws:'' then url\<lparr>pu_protocol := ''http:''\<rparr> else url)
          in andThen (proxyTarget parse (url_href httpUrl) opts) (\<lambda>target.
               case target of
                 None \<Rightarrow> Inr None
               | Some t \<Rightarrow>
                   (case parse t None of
                      None \<Rightarrow> Inl ''TypeError''
                    | Some out \<Rightarrow>
                        let out = out\<lparr>pu_protocol := (if pu_protocol out = ''https:'' then ''wss:'' else ''ws:'')\<rparr>
                        in Inr (Some (url_href
                             (if truthy token
                              then out\<lparr>pu_search := CHR ''?'' # form_serialize (params_set (search_params (pu_search out)) (''access_token'', the token))\<rparr>
                              else out))))))"

section \<open>The wrapped fetch\<close>

record page_request =
  pq_url :: str
  pq_method :: str
  pq_headers :: headers
  pq_body :: "str option"

record ('w, 'r) proxied =
  px_fetch :: "page_request \<Rightarrow> ('w, nat \<times> 'r) io"
  px_getToken :: "('w, str option) io"
  px_invalidate :: "'w \<Rightarrow> 'w"
  px_onForbidden :: "'w \<Rightarrow> 'w"

definition px_do :: "('w \<Rightarrow> 'w) \<Rightarrow> ('w, unit) io" where
  "px_do f w = (Inr (), f w)"

definition buildRequest :: "str \<Rightarrow> page_request \<Rightarrow> page_request" where
  "buildRequest target q =
     q\<lparr>pq_url := target, pq_body := (if pq_method q \<noteq> ''GET'' \<and> pq_method q \<noteq> ''HEAD'' then pq_body q else None)\<rparr>"

definition px_send :: "('w, 'r) proxied \<Rightarrow> str \<Rightarrow> page_request \<Rightarrow> ('w, nat \<times> 'r) io" where
  "px_send P target q =
     io_bind (px_getToken P) (\<lambda>token.
       let req = buildRequest target q
       in px_fetch P (if truthy token then req\<lparr>pq_headers := header_set ''authorization'' (''Bearer '' @ the token) (pq_headers req)\<rparr> else req))"

definition installProxyFetch :: "url_parser \<Rightarrow> ProxyOptions \<Rightarrow> ('w, 'r) proxied \<Rightarrow> page_request \<Rightarrow> ('w, nat \<times> 'r) io" where
  "installProxyFetch parse opts P q =
     io_bind (io_lift (proxyTarget parse (pq_url q) opts)) (\<lambda>target.
       case target of
         None \<Rightarrow> px_fetch P q
       | Some t \<Rightarrow>
           io_bind (px_send P t q) (\<lambda>first.
           io_bind (if fst first = 401 then io_bind (px_do (px_invalidate P)) (\<lambda>_. px_send P t q) else io_return first) (\<lambda>res.
           io_bind (if fst res = 403 then px_do (px_onForbidden P) else io_return ()) (\<lambda>_.
           io_return res))))"

text \<open>The address a wrapped WebSocket dials and whether it starts a refresh; the close code that asks again.\<close>

definition socket_open :: "url_parser \<Rightarrow> ProxyOptions \<Rightarrow> str \<Rightarrow> str option \<Rightarrow> str + str \<times> bool" where
  "socket_open parse opts url token =
     andThen (proxySocketUrl parse url opts token) (\<lambda>u. Inr (case u of Some t \<Rightarrow> t | None \<Rightarrow> url, \<not> truthy token))"

definition socket_forbidden :: "nat \<Rightarrow> bool" where
  "socket_forbidden code \<longleftrightarrow> code = 1008"

section \<open>The wrapped XMLHttpRequest\<close>

text \<open>The native object: not opened, opened, sent (its \<open>readyState\<close> is still \<open>OPENED\<close>), over.\<close>

datatype xhr_state = Unsent | Opened | Sent | Done

record xhr =
  xh_state :: xhr_state
  xh_proxied :: bool
  xh_listening :: bool
  xh_pending :: bool

definition xhr_new :: xhr where
  "xhr_new = \<lparr>xh_state = Unsent, xh_proxied = False, xh_listening = False, xh_pending = False\<rparr>"

text \<open>
  \<open>Open\<close> has the target (none for another address or a synchronous request) and the address.
  \<open>GotToken\<close> is the continuation of the \<open>send\<close> that asked for the token, with its body.
\<close>

datatype xhr_event =
    Open "str option" str
  | SetHeader str str
  | SendBody str
  | GotToken str "str option"
  | Abort
  | LoadEnd nat

datatype xhr_action =
    NativeOpen str
  | NativeSetHeader str str
  | NativeSend str
  | NativeAbort
  | AskToken str
  | Dispatch str
  | Forbidden

definition native_send :: "xhr \<Rightarrow> str \<Rightarrow> xhr \<times> xhr_action list" where
  "native_send x body = (if xh_state x = Opened then (x\<lparr>xh_state := Sent\<rparr>, [NativeSend body]) else (x, []))"

fun xhr_step :: "xhr \<Rightarrow> xhr_event \<Rightarrow> xhr \<times> xhr_action list" where
  "xhr_step x (Open target url) =
     (x\<lparr>xh_state := Opened, xh_pending := False, xh_proxied := (target \<noteq> None), xh_listening := xh_listening x \<or> target \<noteq> None\<rparr>,
      [NativeOpen (case target of Some t \<Rightarrow> t | None \<Rightarrow> url)])"
| "xhr_step x (SetHeader name v) =
     (x, if xh_proxied x \<and> lower name = ''authorization'' then [] else [NativeSetHeader name v])"
| "xhr_step x (SendBody body) =
     (if \<not> xh_proxied x then native_send x body else (x\<lparr>xh_pending := True\<rparr>, [AskToken body]))"
| "xhr_step x (GotToken body token) =
     (if \<not> xh_pending x then (x, [])
      else let x = x\<lparr>xh_pending := False\<rparr>
        in if xh_state x \<noteq> Opened \<and> xh_state x \<noteq> Sent then (x, [])
           else case native_send x body of
             (x', acts) \<Rightarrow> (x', (if truthy token \<and> xh_state x = Opened then [NativeSetHeader ''authorization'' (''Bearer '' @ the token)] else []) @ acts))"
| "xhr_step x Abort =
     (let waiting = xh_pending x
      in (x\<lparr>xh_pending := False, xh_state := (if xh_state x = Sent then Unsent else xh_state x)\<rparr>,
          NativeAbort # (if waiting then [Dispatch ''abort'', Dispatch ''loadend''] else [])))"
| "xhr_step x (LoadEnd status) =
     (x\<lparr>xh_state := Done\<rparr>, if xh_listening x \<and> xh_proxied x \<and> status = 403 then [Forbidden] else [])"

abbreviation xhr_run :: "xhr \<Rightarrow> xhr_event list \<Rightarrow> xhr" where
  "xhr_run x es \<equiv> fst (feed xhr_step x es)"

section \<open>Properties\<close>

lemma collapse_rooted: "startsWith s ''/'' \<Longrightarrow> \<exists>r. collapse_slashes s = slash # r"
  by (induction s rule: collapse_slashes.induct) (auto simp: startsWith_def)

lemma proxy_path_inside:
  assumes "startsWith pathname ''/''"
  shows "proxy_path opts pathname = proxy_prefix opts \<or> startsWith (proxy_path opts pathname) (proxy_prefix opts @ ''/'')"
proof -
  obtain r where r: "collapse_slashes pathname = slash # r" using assms collapse_rooted by blast
  have "startsWith (proxy_prefix opts @ slash # r) (proxy_prefix opts @ ''/'')" by (simp add: startsWith_def)
  then show ?thesis using r by (auto simp: proxy_path_def Let_def)
qed

text \<open>\<open>URL\<close> gives every address with a host a path that begins with a slash.\<close>

definition rooted :: "url_parser \<Rightarrow> bool" where
  "rooted parse \<longleftrightarrow> (\<forall>s b u. parse s b = Some u \<longrightarrow> startsWith (pu_pathname u) ''/'')"

lemma target_inside:
  assumes "proxyTarget parse input opts = Inr (Some t)" "rooted parse"
  shows "\<exists>path search. t = po_serverOrigin opts @ path @ search \<and> (path = proxy_prefix opts \<or> startsWith path (proxy_prefix opts @ ''/''))"
proof -
  obtain url where "parse input (Some (po_pageOrigin opts)) = Some url"
    and t: "t = po_serverOrigin opts @ proxy_path opts (pu_pathname url) @ pu_search url"
    using assms(1) by (auto simp: proxyTarget_def andThen_eq_Inr split: option.splits if_splits)
  then have "startsWith (pu_pathname url) ''/''" using assms(2) by (auto simp: rooted_def)
  then show ?thesis using proxy_path_inside t by blast
qed

text \<open>The wrapped page with a log of the requests it makes.\<close>

definition logged :: "('w, 'r) proxied \<Rightarrow> (page_request list \<times> 'w, 'r) proxied" where
  "logged P =
     \<lparr>px_fetch = (\<lambda>q s. case px_fetch P q (snd s) of (r, w) \<Rightarrow> (r, (fst s @ [q], w))),
      px_getToken = (\<lambda>s. case px_getToken P (snd s) of (r, w) \<Rightarrow> (r, (fst s, w))),
      px_invalidate = (\<lambda>s. (fst s, px_invalidate P (snd s))), px_onForbidden = (\<lambda>s. (fst s, px_onForbidden P (snd s)))\<rparr>"

definition logs :: "(page_request \<Rightarrow> bool) \<Rightarrow> nat \<Rightarrow> (page_request list \<times> 'w, 'a) io \<Rightarrow> bool" where
  "logs A n m \<longleftrightarrow> (\<forall>s. \<exists>qs. fst (snd (m s)) = fst s @ qs \<and> list_all A qs \<and> length qs \<le> n)"

lemma logs_bind:
  assumes "logs A j m" "\<And>a. logs A k (f a)"
  shows "logs A (j + k) (io_bind m f)"
  unfolding logs_def
proof
  fix s
  obtain r s' where r: "m s = (r, s')" by (cases "m s")
  then obtain qs where q: "fst s' = fst s @ qs" "list_all A qs" "length qs \<le> j" using assms(1) unfolding logs_def by (metis snd_conv)
  show "\<exists>qs. fst (snd (io_bind m f s)) = fst s @ qs \<and> list_all A qs \<and> length qs \<le> j + k"
  proof (cases r)
    case (Inl e)
    then show ?thesis using r q by (intro exI [of _ qs]) (simp add: io_bind_def)
  next
    case (Inr a)
    obtain ps where p: "fst (snd (f a s')) = fst s' @ ps" "list_all A ps" "length ps \<le> k" using assms(2) unfolding logs_def by metis
    then show ?thesis using r q Inr by (intro exI [of _ "qs @ ps"]) (simp add: io_bind_def)
  qed
qed

lemma logs_free: "logs A k (io_return a)" "logs A k (io_lift x)" "logs A k (px_getToken (logged P))" "logs A k (px_do (px_invalidate (logged P)))"
  "logs A k (px_do (px_onForbidden (logged P)))"
  by (auto simp: logs_def io_return_def io_lift_def logged_def px_do_def split: prod.split intro: exI [of _ "[]"])

lemma logs_fetch: "A q \<Longrightarrow> logs A 1 (px_fetch (logged P) q)"
  by (auto simp: logs_def logged_def split: prod.split intro: exI [of _ "[q]"])

lemma logs_send:
  assumes "\<And>q. pq_url q = t \<Longrightarrow> A q"
  shows "logs A 1 (px_send (logged P) t q)"
proof -
  have "logs A (0 + 1) (px_send (logged P) t q)"
    unfolding px_send_def Let_def using assms by (intro logs_bind logs_free logs_fetch) (simp add: buildRequest_def)
  then show ?thesis by simp
qed

text \<open>C18. The page's token goes to the server's proxy of this session and nowhere else: a request of the page that is
  not one for this session is passed on as it is, and any other is made, at most twice, to an address under the
  session's proxy path on the server's origin.\<close>

theorem token_stays_on_server:
  assumes "rooted parse"
  shows "\<exists>qs. fst (snd (installProxyFetch parse opts (logged P) q ([], w))) = qs \<and> length qs \<le> 2 \<and>
    (case proxyTarget parse (pq_url q) opts of
       Inl e \<Rightarrow> qs = []
     | Inr None \<Rightarrow> qs = [q]
     | Inr (Some t) \<Rightarrow>
         list_all (\<lambda>p. pq_url p = t) qs \<and>
         (\<exists>path search. t = po_serverOrigin opts @ path @ search \<and> (path = proxy_prefix opts \<or> startsWith path (proxy_prefix opts @ ''/''))))"
proof (cases "proxyTarget parse (pq_url q) opts")
  case (Inl e)
  then show ?thesis by (simp add: installProxyFetch_def io_bind_def io_lift_def)
next
  case (Inr x)
  show ?thesis
  proof (cases x)
    case None
    then show ?thesis using Inr by (simp add: installProxyFetch_def io_bind_def io_lift_def logged_def split: prod.split)
  next
    case (Some t)
    let ?A = "\<lambda>p. pq_url p = t"
    let ?again = "\<lambda>first. if fst first = 401 then io_bind (px_do (px_invalidate (logged P))) (\<lambda>_. px_send (logged P) t q) else io_return first"
    have "logs ?A (0 + 1) (io_bind (px_do (px_invalidate (logged P))) (\<lambda>_. px_send (logged P) t q))"
      by (intro logs_bind logs_free logs_send)
    then have a: "logs ?A 1 (?again first)" for first using logs_free(1) by auto
    have f: "logs ?A 0 (if fst res = 403 then px_do (px_onForbidden (logged P)) else io_return ())" for res :: "nat \<times> 'b"
      using logs_free by auto
    have "logs ?A (1 + (1 + (0 + 0))) (io_bind (px_send (logged P) t q) (\<lambda>first. io_bind (?again first) (\<lambda>res.
        io_bind (if fst res = 403 then px_do (px_onForbidden (logged P)) else io_return ()) (\<lambda>_. io_return res))))"
      by (intro logs_bind logs_send a f logs_free)
    then have "logs ?A (1 + (1 + (0 + 0))) (installProxyFetch parse opts (logged P) q)"
      using Inr Some by (simp add: logs_def installProxyFetch_def io_bind_def io_lift_def)
    then have "\<exists>qs. fst (snd (installProxyFetch parse opts (logged P) q ([], w))) = fst ([] :: page_request list, w) @ qs \<and> list_all ?A qs \<and> length qs \<le> 1 + (1 + (0 + 0))"
      unfolding logs_def by (rule spec)
    then have "length (fst (snd (installProxyFetch parse opts (logged P) q ([], w)))) \<le> 2 \<and> list_all ?A (fst (snd (installProxyFetch parse opts (logged P) q ([], w))))"
      by auto
    then show ?thesis using Inr Some target_inside [of parse "pq_url q" opts t] assms by simp
  qed
qed

definition demo_parse :: url_parser where
  "demo_parse s b =
     (if s = ''/api/x'' then Some \<lparr>pu_protocol = ''https:'', pu_host = ''ui'', pu_pathname = ''/api/x'', pu_search = []\<rparr>
      else if s = ''https://ui'' then Some \<lparr>pu_protocol = ''https:'', pu_host = ''ui'', pu_pathname = ''/'', pu_search = []\<rparr> else None)"

definition demo_opts :: ProxyOptions where
  "demo_opts = \<lparr>po_pageOrigin = ''https://ui'', po_serverOrigin = ''https://rc'', po_sessionId = ''m1'', po_base = []\<rparr>"

definition demo_request :: page_request where
  "demo_request = \<lparr>pq_url = ''/api/x'', pq_method = ''GET'', pq_headers = [], pq_body = None\<rparr>"

definition demo_proxied :: "(unit, unit) proxied" where
  "demo_proxied = \<lparr>px_fetch = (\<lambda>_. io_return (200, ())), px_getToken = io_return (Some ''t''), px_invalidate = id, px_onForbidden = id\<rparr>"

lemma demo_target: "proxyTarget demo_parse (pq_url demo_request) demo_opts = Inr (Some ''https://rc/proxy/m1/api/x'')"
  by code_simp

theorem token_stays_on_server_witness:
  "list_all (\<lambda>p. pq_url p = ''https://rc/proxy/m1/api/x'')
     (fst (snd (installProxyFetch demo_parse demo_opts (logged demo_proxied) demo_request ([], ()))))"
proof -
  have "rooted demo_parse" by (auto simp: rooted_def demo_parse_def startsWith_def split: if_splits)
  then show ?thesis using token_stays_on_server [of demo_parse demo_opts demo_proxied demo_request "()"] by (simp add: demo_target)
qed

text \<open>The last opening was to a target, and a body has been handed over since and not been aborted.\<close>

definition waiting_since :: "xhr_event list \<Rightarrow> bool" where
  "waiting_since es \<longleftrightarrow>
     (\<exists>es1 t u es2 b es3. es = es1 @ Open (Some t) u # es2 @ SendBody b # es3 \<and> Abort \<notin> set es3 \<and> (\<forall>t' u'. Open t' u' \<notin> set (es2 @ es3)))"

definition opened_proxied :: "xhr_event list \<Rightarrow> bool" where
  "opened_proxied es \<longleftrightarrow> (\<exists>es1 t u es2. es = es1 @ Open (Some t) u # es2 \<and> (\<forall>t' u'. Open t' u' \<notin> set es2))"

lemma proxied_snoc: "opened_proxied (es @ [e]) \<longleftrightarrow> (\<exists>t u. e = Open (Some t) u) \<or> opened_proxied es \<and> (\<forall>t u. e \<noteq> Open t u)"
proof
  assume "opened_proxied (es @ [e])"
  then obtain es1 t u es2 where o: "es @ [e] = es1 @ Open (Some t) u # es2" "\<forall>t' u'. Open t' u' \<notin> set es2" by (auto simp: opened_proxied_def)
  show "(\<exists>t u. e = Open (Some t) u) \<or> opened_proxied es \<and> (\<forall>t u. e \<noteq> Open t u)"
  proof (cases es2 rule: rev_cases)
    case (snoc fs f)
    then have "es = es1 @ Open (Some t) u # fs" "f = e" using o(1) by auto
    moreover have "\<forall>t' u'. Open t' u' \<notin> set fs" "\<forall>t' u'. f \<noteq> Open t' u'" using o(2) snoc by auto
    ultimately show ?thesis unfolding opened_proxied_def by blast
  qed (use o in auto)
next
  assume "(\<exists>t u. e = Open (Some t) u) \<or> opened_proxied es \<and> (\<forall>t u. e \<noteq> Open t u)"
  then show "opened_proxied (es @ [e])"
  proof
    assume "\<exists>t u. e = Open (Some t) u"
    then show ?thesis unfolding opened_proxied_def by (metis empty_iff empty_set)
  next
    assume a: "opened_proxied es \<and> (\<forall>t u. e \<noteq> Open t u)"
    then obtain es1 t u es2 where "es = es1 @ Open (Some t) u # es2" "\<forall>t' u'. Open t' u' \<notin> set es2" by (auto simp: opened_proxied_def)
    then have "es @ [e] = es1 @ Open (Some t) u # (es2 @ [e])" "\<forall>t' u'. Open t' u' \<notin> set (es2 @ [e])" using a by auto
    then show ?thesis unfolding opened_proxied_def by blast
  qed
qed

lemma waiting_send: "opened_proxied es \<Longrightarrow> waiting_since (es @ [SendBody b])"
  unfolding opened_proxied_def waiting_since_def by (metis append.assoc append_Cons append_Nil append_Nil2 empty_iff empty_set)

lemma waiting_other:
  assumes "waiting_since es" "e \<noteq> Abort" "\<And>t u. e \<noteq> Open t u"
  shows "waiting_since (es @ [e])"
proof -
  obtain es1 t u es2 b es3 where "es = es1 @ Open (Some t) u # es2 @ SendBody b # es3" "Abort \<notin> set es3" "\<forall>t' u'. Open t' u' \<notin> set (es2 @ es3)"
    using assms(1) unfolding waiting_since_def by blast
  then have "es @ [e] = es1 @ Open (Some t) u # es2 @ SendBody b # (es3 @ [e])" "Abort \<notin> set (es3 @ [e])"
    "\<forall>t' u'. Open t' u' \<notin> set (es2 @ es3 @ [e])" using assms(2,3) by auto
  then show ?thesis unfolding waiting_since_def by blast
qed

lemma native_send_keeps: "xh_pending (fst (native_send x b)) = xh_pending x" "xh_proxied (fst (native_send x b)) = xh_proxied x"
  by (simp_all add: native_send_def)

lemma xhr_step_pending:
  "xh_pending (fst (xhr_step x e)) \<Longrightarrow> xh_proxied x \<and> (\<exists>b. e = SendBody b) \<or> xh_pending x \<and> e \<noteq> Abort \<and> (\<forall>t u. e \<noteq> Open t u)"
  by (cases e) (auto simp: Let_def native_send_keeps split: if_splits prod.splits dest: arg_cong [of _ _ fst])

lemma xhr_step_proxied: "xh_proxied (fst (xhr_step x e)) \<Longrightarrow> (\<exists>t u. e = Open (Some t) u) \<or> xh_proxied x \<and> (\<forall>t u. e \<noteq> Open t u)"
  by (cases e) (auto simp: Let_def native_send_def split: if_splits prod.splits)

lemma xhr_run_waiting:
  "(xh_proxied (xhr_run xhr_new es) \<longrightarrow> opened_proxied es) \<and> (xh_pending (xhr_run xhr_new es) \<longrightarrow> waiting_since es)"
proof (induction es rule: rev_induct)
  case (snoc e es)
  have r: "xhr_run xhr_new (es @ [e]) = fst (xhr_step (xhr_run xhr_new es) e)" by simp
  show ?case using snoc.IH xhr_step_proxied [of "xhr_run xhr_new es" e] xhr_step_pending [of "xhr_run xhr_new es" e]
      proxied_snoc [of es e] waiting_send waiting_other unfolding r by blast
qed (simp add: xhr_new_def)

text \<open>A request through XMLHttpRequest gets the token and leaves only when it is still wanted: when a token
  arrives, something happens only if the object was last opened to an address of the session and has since
  been given a body that was not aborted.\<close>

theorem xhr_token_confined:
  assumes "snd (xhr_step (xhr_run xhr_new es) (GotToken body token)) \<noteq> []"
  shows "\<exists>es1 t u es2 b es3. es = es1 @ Open (Some t) u # es2 @ SendBody b # es3 \<and> Abort \<notin> set es3 \<and> (\<forall>t' u'. Open t' u' \<notin> set (es2 @ es3))"
proof -
  have "xh_pending (xhr_run xhr_new es)" using assms by (auto split: if_splits)
  then show ?thesis using xhr_run_waiting unfolding waiting_since_def by blast
qed

theorem xhr_token_confined_witness:
  "\<exists>es1 t u es2 b es3. [Open (Some ''https://rc/proxy/m1/x'') ''/x'', SendBody ''data''] = es1 @ Open (Some t) u # es2 @ SendBody b # es3 \<and>
     Abort \<notin> set es3 \<and> (\<forall>t' u'. Open t' u' \<notin> set (es2 @ es3))"
  by (rule xhr_token_confined [of _ "''data''" "Some ''t''"]) (simp add: xhr_new_def native_send_def truthy_def)

text \<open>A body can leave for the wrong address: when an object is opened again and given a new body while the token
  for the first is still awaited, that token sends the first body to the second address, and the second
  body is never sent.\<close>

theorem xhr_stale_body:
  "let x = xhr_run xhr_new [Open (Some t1) u1, SendBody b1, Open (Some t2) u2, SendBody b2]
   in NativeSend b1 \<in> set (snd (xhr_step x (GotToken b1 token))) \<and>
      snd (xhr_step (fst (xhr_step x (GotToken b1 token))) (GotToken b2 token')) = []"
  by (simp add: xhr_new_def native_send_def Let_def)

end
