(* ===== verification/Native.thy ===== *)
theory Native
  imports ProxyFetch
begin

text \<open>
  The apps: the bridge between the page and the app shell (\<open>ui/src/native.ts\<close>) and the
  transport of the iOS app built on it (\<open>ui/src/native-transport.ts\<close>). Calls over the
  Android port are numbered; the state machine \<open>bridge_step\<close> relates answers to calls. A
  WebSocket of the page is a state machine too, whose calls of the shell are queued in order. \<open>fetch\<close>,
  \<open>URL\<close>, the port and the event dispatch of the browser are arguments or events.
\<close>

section \<open>The bridge\<close>

datatype NativePlatform = Ios | Android

definition nativePlatform :: "bool \<Rightarrow> bool \<Rightarrow> NativePlatform option" where
  "nativePlatform iosHandler androidPort = (if iosHandler then Some Ios else if androidPort then Some Android else None)"

text \<open>\<open>text.match(/^([a-z_]+): ?([\s\S]*)$/)\<close>: the code and the message of an error of the iOS shell.\<close>

definition code_char :: "char \<Rightarrow> bool" where
  "code_char c \<longleftrightarrow> 97 \<le> byte c \<and> byte c \<le> 122 \<or> c = CHR ''_''"

definition toNativeError :: "str \<Rightarrow> str \<times> str" where
  "toNativeError text =
     (let code = takeWhile code_char text; r = dropWhile code_char text
      in if code \<noteq> [] \<and> startsWith r '':''
         then (code, if startsWith (tl r) '' '' then tl (tl r) else tl r)
         else (''failed'', text))"

text \<open>The listeners of each event in the order they were added, the next number and the calls under way.\<close>

record bridge =
  br_handlers :: "str \<Rightarrow> nat list"
  br_nextId :: nat
  br_pending :: "nat set"

definition bridge_new :: bridge where
  "bridge_new = \<lparr>br_handlers = (\<lambda>_. []), br_nextId = 1, br_pending = {}\<rparr>"

datatype bridge_event =
    Call str json
  | PortMessage str
  | Listen str nat
  | Unlisten str nat

datatype bridge_action =
    PostMessage str
  | ResolveCall nat "json option"
  | RejectCall nat str str
  | CallHandler nat "json option"

definition emit :: "bridge \<Rightarrow> str \<Rightarrow> json option \<Rightarrow> bridge_action list" where
  "emit b event data = map (\<lambda>h. CallHandler h data) (br_handlers b event)"

definition nativeOn :: "bridge \<Rightarrow> str \<Rightarrow> nat \<Rightarrow> bridge" where
  "nativeOn b event h =
     b\<lparr>br_handlers := (br_handlers b)(event := (if h \<in> set (br_handlers b event) then br_handlers b event else br_handlers b event @ [h]))\<rparr>"

definition string_or :: "json option \<Rightarrow> str \<Rightarrow> str" where
  "string_or v fallback = (case v of Some (JStr s) \<Rightarrow> s | _ \<Rightarrow> fallback)"

definition json_truthy :: "json \<Rightarrow> bool" where
  "json_truthy v = (case v of JNull \<Rightarrow> False | JBool x \<Rightarrow> x | JNum n e \<Rightarrow> n \<noteq> 0 | JStr s \<Rightarrow> s \<noteq> [] | _ \<Rightarrow> True)"

fun member_of :: "json \<Rightarrow> str \<Rightarrow> json option" where
  "member_of (JObj es) k = get_prop es k"
| "member_of _ _ = None"

text \<open>The end of \<open>port.onmessage\<close>: a pending call is settled with the error or the result of the message.\<close>

definition settle_call :: "(str \<times> json) list \<Rightarrow> nat \<Rightarrow> bridge_action" where
  "settle_call msg i =
     (case get_prop msg ''error'' of
        None \<Rightarrow> ResolveCall i (get_prop msg ''result'')
      | Some err \<Rightarrow>
          if json_truthy err
          then RejectCall i (string_or (member_of err ''code'') ''failed'') (string_or (member_of err ''message'') [])
          else ResolveCall i (get_prop msg ''result''))"

definition finish_call :: "bridge \<Rightarrow> (str \<times> json) list \<Rightarrow> nat \<Rightarrow> bridge \<times> bridge_action list" where
  "finish_call b msg i =
     (if i \<in> br_pending b then (b\<lparr>br_pending := br_pending b - {i}\<rparr>, [settle_call msg i]) else (b, []))"

text \<open>\<open>port.onmessage\<close>; an identifier that is no whole number finds no call.\<close>

definition on_port_message :: "bridge \<Rightarrow> str \<Rightarrow> bridge \<times> bridge_action list" where
  "on_port_message b message =
     (case jparse message of
        Some (JObj msg) \<Rightarrow>
          (case get_prop msg ''event'' of
             Some (JStr event) \<Rightarrow> (b, emit b event (get_prop msg ''data''))
           | _ \<Rightarrow>
               (case get_prop msg ''id'' of
                  Some (JNum n e) \<Rightarrow> if e = 0 \<and> 0 \<le> n then finish_call b msg (nat n) else (b, [])
                | _ \<Rightarrow> (b, [])))
      | _ \<Rightarrow> (b, []))"

text \<open>\<open>nativeCall\<close> over the port.\<close>

definition port_call :: "bridge \<Rightarrow> str \<Rightarrow> json \<Rightarrow> bridge \<times> bridge_action list" where
  "port_call b m args =
     (b\<lparr>br_nextId := br_nextId b + 1, br_pending := insert (br_nextId b) (br_pending b)\<rparr>,
      [PostMessage (jprint (JObj [(''id'', JNum (int (br_nextId b)) 0), (''method'', JStr m), (''args'', args)]))])"

fun bridge_step :: "bridge \<Rightarrow> bridge_event \<Rightarrow> bridge \<times> bridge_action list" where
  "bridge_step b (Call m args) = port_call b m args"
| "bridge_step b (PortMessage m) = on_port_message b m"
| "bridge_step b (Listen event h) = (nativeOn b event h, [])"
| "bridge_step b (Unlisten event h) = (b\<lparr>br_handlers := (br_handlers b)(event := remove1 h (br_handlers b event))\<rparr>, [])"

abbreviation bridge_run :: "bridge \<Rightarrow> bridge_event list \<Rightarrow> bridge \<times> bridge_action list" where
  "bridge_run \<equiv> feed bridge_step"

section \<open>The transport of the iOS app\<close>

definition SERVER_PREFIX :: str where "SERVER_PREFIX = ''/__server''"

definition transportUrl :: "url_parser \<Rightarrow> str \<Rightarrow> str \<Rightarrow> str \<Rightarrow> str option" where
  "transportUrl parse input server pageBase =
     (if server = [] then None
      else case (parse input (Some (pageBase @ ''/'')), parse server None) of
        (Some url, Some target) \<Rightarrow>
          if url_origin url \<noteq> url_origin target then None else Some (SERVER_PREFIX @ pu_pathname url @ pu_search url)
      | _ \<Rightarrow> None)"

text \<open>\<open>syncServer\<close>: the origin the shell was last told, and whether it is told anew (\<open>None\<close> when \<open>new URL\<close> throws).\<close>

definition syncServer :: "url_parser \<Rightarrow> str \<Rightarrow> str option \<Rightarrow> (str option \<times> str option) option" where
  "syncServer parse server sent =
     (if server = [] then Some (sent, None)
      else case parse server None of
        None \<Rightarrow> None
      | Some u \<Rightarrow> if sent = Some (url_origin u) then Some (sent, None) else Some (Some (url_origin u), Some (url_origin u)))"

datatype native_call = WsOpen str | WsSend str | WsClose nat str

text \<open>
  A socket: its state, the calls of the shell it has queued, in order, the events it has fired and whether it is in
  the map \<open>sockets\<close>, through which the shell's events reach it. A base64 message is given decoded.
\<close>

datatype fired = FireOpen | FireMessage str | FireError | FireClose nat str bool

record native_socket =
  ns_readyState :: nat
  ns_protocol :: str
  ns_queue :: "native_call list"
  ns_fired :: "fired list"
  ns_listed :: bool

definition socket_new :: "str \<Rightarrow> native_socket" where
  "socket_new url = \<lparr>ns_readyState = 0, ns_protocol = [], ns_queue = [WsOpen url], ns_fired = [], ns_listed = True\<rparr>"

definition opened :: "str \<Rightarrow> native_socket \<Rightarrow> native_socket" where
  "opened protocol s = s\<lparr>ns_protocol := protocol, ns_readyState := 1, ns_fired := ns_fired s @ [FireOpen]\<rparr>"

definition received :: "str \<Rightarrow> native_socket \<Rightarrow> native_socket" where
  "received data s = s\<lparr>ns_fired := ns_fired s @ [FireMessage data]\<rparr>"

definition errored :: "native_socket \<Rightarrow> native_socket" where
  "errored s = s\<lparr>ns_fired := ns_fired s @ [FireError]\<rparr>"

definition closed :: "nat \<Rightarrow> str \<Rightarrow> bool \<Rightarrow> native_socket \<Rightarrow> native_socket" where
  "closed code reason wasClean s = s\<lparr>ns_readyState := 3, ns_fired := ns_fired s @ [FireClose code reason wasClean]\<rparr>"

datatype socket_event =
    AppSend str
  | AppClose nat str
  | OpenFailed
  | ShellOpen str
  | ShellMessage str
  | ShellError
  | ShellClose nat str bool

text \<open>\<open>send\<close> on a socket that is connecting throws (\<open>None\<close>); the shell's events find listed sockets only.\<close>

fun socket_step :: "native_socket \<Rightarrow> socket_event \<Rightarrow> native_socket option" where
  "socket_step s (AppSend data) =
     (if ns_readyState s = 0 then None
      else if ns_readyState s \<noteq> 1 then Some s
      else Some (s\<lparr>ns_queue := ns_queue s @ [WsSend data]\<rparr>))"
| "socket_step s (AppClose code reason) =
     (if ns_readyState s \<ge> 2 then Some s else Some (s\<lparr>ns_readyState := 2, ns_queue := ns_queue s @ [WsClose code reason]\<rparr>))"
| "socket_step s OpenFailed = Some (closed 1006 [] False ((errored s)\<lparr>ns_listed := False\<rparr>))"
| "socket_step s (ShellOpen protocol) = Some (if ns_listed s then opened protocol s else s)"
| "socket_step s (ShellMessage data) = Some (if ns_listed s then received data s else s)"
| "socket_step s ShellError = Some (if ns_listed s then errored s else s)"
| "socket_step s (ShellClose code reason wasClean) =
     Some (if ns_listed s then closed code reason wasClean (s\<lparr>ns_listed := False\<rparr>) else s)"

text \<open>A call that throws leaves the socket as it is.\<close>

abbreviation socket_run :: "native_socket \<Rightarrow> socket_event list \<Rightarrow> native_socket" where
  "socket_run s es \<equiv> fst (feed (\<lambda>s e. (case socket_step s e of None \<Rightarrow> s | Some s' \<Rightarrow> s', [] :: unit list)) s es)"

section \<open>Properties\<close>

definition answers :: "nat \<Rightarrow> bridge_action \<Rightarrow> bool" where
  "answers i a = (case a of ResolveCall j _ \<Rightarrow> j = i | RejectCall j _ _ \<Rightarrow> j = i | _ \<Rightarrow> False)"

definition bridge_ok :: "bridge \<Rightarrow> bool" where
  "bridge_ok b \<longleftrightarrow> (\<forall>i\<in>br_pending b. i < br_nextId b)"

text \<open>Each step answers a call at most once, and then the call was pending and no longer is.\<close>

lemma emit_answers: "filter (answers i) (emit b event data) = []"
  by (simp add: emit_def answers_def filter_empty_conv)

lemma finish_answers:
  "length (filter (answers i) (snd (finish_call b msg j))) + (if i \<in> br_pending (fst (finish_call b msg j)) then 1 else 0)
     = (if i \<in> br_pending b then 1 else 0)"
  by (simp add: finish_call_def settle_call_def answers_def split: option.split)

lemma on_port_message_cases:
  obtains (event) event data where "on_port_message b message = (b, emit b event data)"
    | (answer) msg j where "on_port_message b message = finish_call b msg j"
    | (ignored) "on_port_message b message = (b, [])"
proof (cases "\<exists>msg. jparse message = Some (JObj msg)")
  case True
  then obtain msg where m: "jparse message = Some (JObj msg)" by blast
  show ?thesis
  proof (cases "\<exists>event. get_prop msg ''event'' = Some (JStr event)")
    case True
    then show ?thesis using m event by (auto simp: on_port_message_def)
  next
    case False
    then have "on_port_message b message =
      (case get_prop msg ''id'' of Some (JNum n e) \<Rightarrow> if e = 0 \<and> 0 \<le> n then finish_call b msg (nat n) else (b, []) | _ \<Rightarrow> (b, []))"
      using m by (simp add: on_port_message_def split: option.split json.split)
    then show ?thesis using answer ignored by (simp split: option.splits json.splits if_splits)
  qed
next
  case False
  then show ?thesis using ignored by (simp add: on_port_message_def split: option.splits json.splits)
qed

lemma port_answers:
  "length (filter (answers i) (snd (on_port_message b message))) + (if i \<in> br_pending (fst (on_port_message b message)) then 1 else 0)
     = (if i \<in> br_pending b then 1 else 0)"
  "br_nextId (fst (on_port_message b message)) = br_nextId b"
  "br_pending (fst (on_port_message b message)) \<subseteq> br_pending b"
    apply (cases rule: on_port_message_cases [of b message]; simp add: finish_answers emit_answers)
   apply (cases rule: on_port_message_cases [of b message]; simp add: finish_call_def)
  apply (cases rule: on_port_message_cases [of b message]; auto simp: finish_call_def)
  done

lemma step_answers:
  assumes "bridge_ok b"
  shows "length (filter (answers i) (snd (bridge_step b e))) + (if i \<in> br_pending (fst (bridge_step b e)) then 1 else 0)
      \<le> (if i \<in> br_pending b then 1 else 0) + (if br_nextId b \<le> i \<and> i < br_nextId (fst (bridge_step b e)) then 1 else 0)"
    and "bridge_ok (fst (bridge_step b e)) \<and> br_nextId b \<le> br_nextId (fst (bridge_step b e))"
proof -
  show "length (filter (answers i) (snd (bridge_step b e))) + (if i \<in> br_pending (fst (bridge_step b e)) then 1 else 0)
      \<le> (if i \<in> br_pending b then 1 else 0) + (if br_nextId b \<le> i \<and> i < br_nextId (fst (bridge_step b e)) then 1 else 0)"
  proof (cases e)
    case (PortMessage m)
    then show ?thesis using port_answers(1) [of i b m] by (simp add: le_add1)
  qed (simp_all add: port_call_def nativeOn_def answers_def)
  show "bridge_ok (fst (bridge_step b e)) \<and> br_nextId b \<le> br_nextId (fst (bridge_step b e))"
    using assms port_answers(2,3) [of b] by (cases e) (auto simp: bridge_ok_def port_call_def nativeOn_def less_Suc_eq)
qed

lemma run_answers:
  assumes "bridge_ok b"
  shows "length (filter (answers i) (snd (bridge_run b es))) + (if i \<in> br_pending (fst (bridge_run b es)) then 1 else 0)
      \<le> (if i \<in> br_pending b then 1 else 0) + (if br_nextId b \<le> i \<and> i < br_nextId (fst (bridge_run b es)) then 1 else 0) \<and>
    br_nextId b \<le> br_nextId (fst (bridge_run b es))"
  using assms
proof (induction es arbitrary: b)
  case (Cons e es)
  have "bridge_ok (fst (bridge_step b e))" using step_answers(2) [OF Cons.prems] by simp
  from Cons.IH [OF this] step_answers(1) [OF Cons.prems, of i e] step_answers(2) [OF Cons.prems, of e] show ?case by (auto split: if_splits)
qed simp

text \<open>C39. The page and the app shell do not mix up answers: over the whole life of the page a call is answered at
  most once, whatever messages arrive, and an answer only goes to a call that was made.\<close>

theorem bridge_answers_once:
  "length (filter (answers i) (snd (bridge_run bridge_new es))) \<le> (if 1 \<le> i \<and> i < br_nextId (fst (bridge_run bridge_new es)) then 1 else 0)"
  using run_answers [of bridge_new i es] by (auto simp: bridge_new_def bridge_ok_def split: if_splits)

text \<open>A socket is in the map exactly until its close event, which is the last.\<close>

definition is_close :: "fired \<Rightarrow> bool" where
  "is_close f = (case f of FireClose _ _ _ \<Rightarrow> True | _ \<Rightarrow> False)"

definition socket_ok :: "native_socket \<Rightarrow> bool" where
  "socket_ok s \<longleftrightarrow>
     (if ns_listed s then filter is_close (ns_fired s) = [] \<and> ns_readyState s \<le> 2
      else ns_readyState s = 3 \<and> ns_fired s \<noteq> [] \<and> filter is_close (butlast (ns_fired s)) = [] \<and> is_close (last (ns_fired s)))"

lemmas socket_defs = opened_def received_def errored_def closed_def is_close_def socket_ok_def

lemma socket_step_ok: "socket_ok s \<Longrightarrow> e \<noteq> OpenFailed \<Longrightarrow> socket_step s e = Some s' \<Longrightarrow> socket_ok s'"
  by (cases e) (auto simp: socket_defs split: if_splits)

interpretation socket: machine "\<lambda>s e. (case socket_step s e of None \<Rightarrow> s | Some s' \<Rightarrow> s', [] :: unit list)"
    socket_ok "\<lambda>e. e \<noteq> OpenFailed" "\<lambda>_. True"
  by unfold_locales (auto split: option.split dest: socket_step_ok)

lemma socket_run_ok: "socket_ok s \<Longrightarrow> OpenFailed \<notin> set es \<Longrightarrow> socket_ok (socket_run s es)"
  using socket.feed_keeps [of s es] by (auto simp: list_all_iff)

text \<open>Whatever the page and the shell do in which order, as long as the shell takes the order to connect, a socket
  of the iOS app fires at most one close event, nothing after it, and is closed (state 3) from it on.\<close>

theorem socket_closes_once:
  assumes "OpenFailed \<notin> set es"
  shows "filter is_close (butlast (ns_fired (socket_run (socket_new url) es))) = [] \<and>
    (ns_readyState (socket_run (socket_new url) es) = 3) = (filter is_close (ns_fired (socket_run (socket_new url) es)) \<noteq> [])"
proof -
  have "socket_ok (socket_new url)" by (simp add: socket_ok_def socket_new_def)
  then have "socket_ok (socket_run (socket_new url) es)" using assms by (rule socket_run_ok)
  then show ?thesis
    by (cases "ns_fired (socket_run (socket_new url) es)" rule: rev_cases) (auto simp: socket_ok_def split: if_splits)
qed

theorem socket_closes_once_witness:
  "filter is_close (butlast (ns_fired (socket_run (socket_new ''wss://a'') [ShellOpen [], AppSend ''x'', ShellClose 1000 [] True, ShellMessage ''y'']))) = [] \<and>
    (ns_readyState (socket_run (socket_new ''wss://a'') [ShellOpen [], AppSend ''x'', ShellClose 1000 [] True, ShellMessage ''y'']) = 3) =
      (filter is_close (ns_fired (socket_run (socket_new ''wss://a'') [ShellOpen [], AppSend ''x'', ShellClose 1000 [] True, ShellMessage ''y''])) \<noteq> [])"
  by (rule socket_closes_once) simp

text \<open>A socket of the iOS app that the page closes while it is still connecting comes back to life: when the
  shell then reports it open, it counts as open, so that data is sent on it after its close and it can be
  closed a second time.\<close>

theorem socket_reopens_after_close:
  "ns_readyState (socket_run (socket_new url) [AppClose code reason, ShellOpen protocol]) = 1 \<and>
   ns_queue (socket_run (socket_new url) [AppClose code reason, ShellOpen protocol, AppSend data, AppClose code' reason'])
     = [WsOpen url, WsClose code reason, WsSend data, WsClose code' reason']"
  by (simp add: socket_new_def opened_def)

end
