(* ===== verification/Build.thy ===== *)
theory Build
  imports Schema
begin

text \<open>
  The build of the interface: the patches that take disabled features out of opencode's own interface
  (\<open>ui/build/vendor-patches.ts\<close>, a plugin of Vite, and its use in \<open>ui/vite.config.ts\<close>) and
  the policy on where the page may connect to (\<open>ui/csp.ts\<close>). The file system, the library that
  parses and applies patches, \<open>path.relative\<close> and \<open>localeCompare\<close> are members of
  \<open>tools\<close>; \<open>path.join\<close> of a directory and a plain name puts a slash between them. Names of
  files are sorted by their bytes (by their code units, on the names without surrogates).
\<close>

record 'p tools =
  tl_list :: "str \<Rightarrow> (str \<times> bool) list option"   \<comment> \<open>the entries of a directory and whether they are directories\<close>
  tl_text :: "str \<Rightarrow> str option"
  tl_parsePatch :: "str \<Rightarrow> str + (str option \<times> str option \<times> 'p) list"   \<comment> \<open>old name, new name, patch\<close>
  tl_applyPatch :: "str \<Rightarrow> 'p \<Rightarrow> str option"
  tl_relative :: "str \<Rightarrow> str \<Rightarrow> str"
  tl_localeLe :: "str \<Rightarrow> str \<Rightarrow> bool"

record 'p FilePatch =
  fp_file :: str
  fp_patch :: 'p
  fp_source :: str

definition path_join :: "str \<Rightarrow> str \<Rightarrow> str" where
  "path_join dir name = dir @ slash # name"

section \<open>Sorting\<close>

fun insert_by :: "('a \<Rightarrow> 'a \<Rightarrow> bool) \<Rightarrow> 'a \<Rightarrow> 'a list \<Rightarrow> 'a list" where
  "insert_by le x [] = [x]"
| "insert_by le x (y # ys) = (if le x y then x # y # ys else y # insert_by le x ys)"

text \<open>A stable sort; on an order all stable sorts agree.\<close>

definition sort_by :: "('a \<Rightarrow> 'a \<Rightarrow> bool) \<Rightarrow> 'a list \<Rightarrow> 'a list" where
  "sort_by le xs = foldr (insert_by le) xs []"

fun bytes_le :: "str \<Rightarrow> str \<Rightarrow> bool" where
  "bytes_le [] _ = True"
| "bytes_le (c # cs) [] = False"
| "bytes_le (c # cs) (d # ds) = (byte c < byte d \<or> c = d \<and> bytes_le cs ds)"

section \<open>The patches\<close>

definition shown_name :: "str option \<Rightarrow> str" where
  "shown_name n = (case n of None \<Rightarrow> ''undefined'' | Some s \<Rightarrow> s)"

definition drop_prefix :: "str \<Rightarrow> str \<Rightarrow> str" where
  "drop_prefix p s = (if startsWith s p then drop (length p) s else s)"

definition file_patch :: "str \<Rightarrow> str option \<times> str option \<times> 'p \<Rightarrow> str + 'p FilePatch" where
  "file_patch source = (\<lambda>(oldName, newName, patch).
     let oldFile = map_option (drop_prefix ''a/'') oldName; file = map_option (drop_prefix ''b/'') newName
     in if file = None \<or> file = Some [] \<or> file \<noteq> oldFile
        then Inl (source @ '': only edits of existing files are supported ('' @ shown_name oldName @ '' -> '' @ shown_name newName @ '')'')
        else Inr \<lparr>fp_file = the file, fp_patch = patch, fp_source = source\<rparr>)"

definition readPatch :: "'p tools \<Rightarrow> str \<Rightarrow> str + 'p FilePatch list" where
  "readPatch T source =
     (case tl_text T source of
        None \<Rightarrow> Inl (''ENOENT: '' @ source)
      | Some text \<Rightarrow> andThen (tl_parsePatch T text) (traverse (file_patch source)))"

definition readPatches :: "'p tools \<Rightarrow> str \<Rightarrow> str + 'p FilePatch list" where
  "readPatches T dir =
     (case tl_list T dir of
        None \<Rightarrow> Inl (''ENOENT: '' @ dir)
      | Some es \<Rightarrow>
          andThen (traverse (readPatch T) (map (path_join dir) (sort_by bytes_le (filter (\<lambda>n. endsWith n ''.patch'') (map fst es)))))
            (\<lambda>ps. Inr (concat ps)))"

fun index_of :: "'a list \<Rightarrow> 'a \<Rightarrow> nat option" where
  "index_of [] x = None"
| "index_of (y # ys) x = (if y = x then Some 0 else map_option Suc (index_of ys x))"

definition dir_features :: "str \<Rightarrow> str list" where
  "dir_features dir = split_on (CHR ''+'') dir"

text \<open>\<open>None\<close> is \<open>Infinity\<close>, the minimum of nothing.\<close>

definition dir_rank :: "str list \<Rightarrow> str \<Rightarrow> nat option" where
  "dir_rank disabled dir =
     (case List.map_filter (index_of disabled) (dir_features dir) of [] \<Rightarrow> None | is \<Rightarrow> Some (min_list is))"

definition dir_before :: "'p tools \<Rightarrow> str list \<Rightarrow> str \<Rightarrow> str \<Rightarrow> bool" where
  "dir_before T disabled a b =
     (let ra = the (dir_rank disabled a); rb = the (dir_rank disabled b); pa = CHR ''+'' \<in> set a; pb = CHR ''+'' \<in> set b
      in ra < rb \<or> ra = rb \<and> (\<not> pa \<and> pb \<or> pa = pb \<and> tl_localeLe T a b))"

definition featurePatches :: "'p tools \<Rightarrow> str \<Rightarrow> str list \<Rightarrow> str list \<Rightarrow> str + 'p FilePatch list" where
  "featurePatches T patchesRoot known disabled =
     (let dirs = (case tl_list T patchesRoot of None \<Rightarrow> [] | Some es \<Rightarrow> map fst (filter snd es));
          unknown = filter (\<lambda>dir. list_ex (\<lambda>name. name \<notin> set known) (dir_features dir)) dirs
      in if unknown \<noteq> [] then Inl (patchesRoot @ '': '' @ join '', '' unknown @ '' is not a feature in config/schema.ts'')
         else
           andThen (traverse (readPatches T)
               (map (path_join patchesRoot) (sort_by (dir_before T disabled) (filter (\<lambda>dir. dir_rank disabled dir \<noteq> None) dirs))))
             (\<lambda>ps. Inr (concat ps)))"

fun applyPatches :: "'p tools \<Rightarrow> str \<Rightarrow> str \<Rightarrow> 'p FilePatch list \<Rightarrow> str + str" where
  "applyPatches T code file [] = Inr code"
| "applyPatches T code file (p # ps) =
     (if fp_file p \<noteq> file then applyPatches T code file ps
      else case tl_applyPatch T code (fp_patch p) of
        None \<Rightarrow> Inl (fp_source p @ '' does not apply to '' @ file @ '': opencode changed, rebase the patch (see AGENTS.md)'')
      | Some new_code \<Rightarrow> applyPatches T new_code file ps)"

section \<open>The plugin\<close>

text \<open>\<open>[...new Set(names)]\<close>, and the hooks over the set of files they have transformed.\<close>

definition unique :: "'a list \<Rightarrow> 'a list" where
  "unique xs = rev (remdups (rev xs))"

definition patched_files :: "'p FilePatch list \<Rightarrow> str list" where
  "patched_files patches = unique (map fp_file patches)"

definition buildStart :: "'p tools \<Rightarrow> str \<Rightarrow> 'p FilePatch list \<Rightarrow> str + str list" where
  "buildStart T checkout patches =
     andThen (traverse (\<lambda>file.
         case tl_text T (path_join checkout file) of
           None \<Rightarrow> Inl (''ENOENT: '' @ path_join checkout file)
         | Some code \<Rightarrow> applyPatches T code file patches) (patched_files patches))
       (\<lambda>_. Inr [])"

definition module_file :: "'p tools \<Rightarrow> str \<Rightarrow> str \<Rightarrow> str" where
  "module_file T checkout ident = tl_relative T checkout (hd (split_on (CHR ''?'') ident))"

definition transform :: "'p tools \<Rightarrow> str \<Rightarrow> 'p FilePatch list \<Rightarrow> str list \<Rightarrow> str \<times> str \<Rightarrow> str + str list \<times> str option" where
  "transform T checkout patches transformed = (\<lambda>(code, ident).
     let file = module_file T checkout ident
     in if file \<notin> set (patched_files patches) then Inr (transformed, None)
        else andThen (applyPatches T code file patches) (\<lambda>out. Inr (List.insert file transformed, Some out)))"

definition generateBundle :: "'p FilePatch list \<Rightarrow> str list \<Rightarrow> str + unit" where
  "generateBundle patches transformed =
     (let missed = filter (\<lambda>file. file \<notin> set transformed) (patched_files patches)
      in if missed \<noteq> []
         then Inl (join '', '' missed @ '' was not transformed; its patch did not apply (check OPENCODE_ROOT / symlinks)'')
         else Inr ())"

text \<open>A build of Vite: the start, the modules in the order they are loaded, the bundle. What it returns is what becomes of
  each module; \<open>None\<close> leaves it as it is.\<close>

fun transforms :: "'p tools \<Rightarrow> str \<Rightarrow> 'p FilePatch list \<Rightarrow> str list \<Rightarrow> (str \<times> str) list \<Rightarrow> str + str list \<times> str option list" where
  "transforms T checkout patches transformed [] = Inr (transformed, [])"
| "transforms T checkout patches transformed (m # ms) =
     andThen (transform T checkout patches transformed m) (\<lambda>(tr, out).
     andThen (transforms T checkout patches tr ms) (\<lambda>(tr', outs). Inr (tr', out # outs)))"

definition vendorPatches :: "'p tools \<Rightarrow> str \<Rightarrow> 'p FilePatch list \<Rightarrow> (str \<times> str) list \<Rightarrow> str + str option list" where
  "vendorPatches T checkout patches modules =
     andThen (buildStart T checkout patches) (\<lambda>transformed.
     andThen (transforms T checkout patches transformed modules) (\<lambda>(tr, outs).
     andThen (generateBundle patches tr) (\<lambda>_. Inr outs)))"

text \<open>The use in \<open>vite.config.ts\<close>.\<close>

definition build_major :: "str option \<Rightarrow> str + bool" where
  "build_major env =
     (let major = (case env of None \<Rightarrow> ''1'' | Some m \<Rightarrow> m)
      in if major \<noteq> ''1'' \<and> major \<noteq> ''2'' then Inl (''OPENCODE_MAJOR must be 1 or 2, got '' @ major) else Inr (major = ''2''))"

definition disabled_features :: "bool \<Rightarrow> RcConfig \<Rightarrow> str list" where
  "disabled_features v2 rc =
     (if v2 then map feature_name_v2 (filter (\<lambda>f. \<not> v2_features rc f) FEATURES_V2)
      else map feature_name (filter (\<lambda>f. \<not> features rc f) FEATURES))"

definition config_patches :: "'p tools \<Rightarrow> str \<Rightarrow> bool \<Rightarrow> RcConfig \<Rightarrow> str + 'p FilePatch list" where
  "config_patches T vendor v2 rc =
     featurePatches T (path_join vendor (if v2 then ''patches/v2'' else ''patches/v1''))
       (if v2 then map feature_name_v2 FEATURES_V2 else map feature_name FEATURES) (disabled_features v2 rc)"

section \<open>The connection policy\<close>

definition ws_origin :: "str \<Rightarrow> str" where
  "ws_origin origin = (if startsWith origin ''http'' then ''ws'' @ drop 4 origin else origin)"

definition csp_connect :: "str option \<Rightarrow> str" where
  "csp_connect origin =
     (case origin of
        None \<Rightarrow> [CHR 39] @ ''self'' @ [CHR 39] @ '' data: http: https: ws: wss:''
      | Some o' \<Rightarrow> [CHR 39] @ ''self'' @ [CHR 39] @ '' data: '' @ o' @ '' '' @ ws_origin o')"

definition quoted :: "str \<Rightarrow> str" where
  "quoted s = [CHR 39] @ s @ [CHR 39]"

definition csp_directives :: "str \<Rightarrow> bool \<Rightarrow> str list" where
  "csp_directives connect frameAncestors =
     [''default-src '' @ quoted ''self'',
      ''script-src '' @ quoted ''self'' @ '' '' @ quoted ''wasm-unsafe-eval'',
      ''style-src '' @ quoted ''self'' @ '' '' @ quoted ''unsafe-inline'',
      ''img-src '' @ quoted ''self'' @ '' data: blob:'',
      ''font-src '' @ quoted ''self'' @ '' data:'',
      ''connect-src '' @ connect,
      ''media-src '' @ quoted ''self'' @ '' data:'',
      ''worker-src '' @ quoted ''self'' @ '' blob:'',
      ''object-src '' @ quoted ''none'',
      ''base-uri '' @ quoted ''none''] @
     (if frameAncestors then [''frame-ancestors '' @ quoted ''none''] else [])"

text \<open>\<open>origin_of\<close> is \<open>new URL(serverUrl).origin\<close>, \<open>None\<close> when it throws.\<close>

definition contentSecurityPolicy :: "(str \<Rightarrow> str option) \<Rightarrow> str option \<Rightarrow> bool \<Rightarrow> str + str" where
  "contentSecurityPolicy origin_of server frameAncestors =
     (if server = None \<or> server = Some [] then Inr (join ''; '' (csp_directives (csp_connect None) frameAncestors))
      else case origin_of (the server) of
        None \<Rightarrow> Inl ''TypeError: Invalid URL''
      | Some origin \<Rightarrow> Inr (join ''; '' (csp_directives (csp_connect (Some origin)) frameAncestors)))"

section \<open>Properties\<close>

lemma set_insert_by [simp]: "set (insert_by le x ys) = insert x (set ys)"
  by (induction ys) auto

lemma set_sort_by [simp]: "set (sort_by le xs) = set xs"
  unfolding sort_by_def by (induction xs) simp_all

lemma set_unique [simp]: "set (unique xs) = set xs"
  by (simp add: unique_def)

lemma index_of_None: "index_of xs x = None \<longleftrightarrow> x \<notin> set xs"
  by (induction xs) auto

lemma dir_rank_iff: "dir_rank disabled dir \<noteq> None \<longleftrightarrow> (\<exists>f\<in>set disabled. f \<in> set (dir_features dir))"
proof -
  have "dir_rank disabled dir \<noteq> None \<longleftrightarrow> List.map_filter (index_of disabled) (dir_features dir) \<noteq> []"
    by (simp add: dir_rank_def split: list.split)
  also have "\<dots> \<longleftrightarrow> (\<exists>f\<in>set (dir_features dir). index_of disabled f \<noteq> None)"
    by (induction "dir_features dir" rule: list.induct) (auto simp: List.map_filter_def filter_empty_conv)
  finally show ?thesis by (auto simp: index_of_None)
qed

lemma traverse_concat:
  assumes "traverse f xs = Inr yss"
  shows "set (concat yss) = {y. \<exists>x\<in>set xs. \<exists>ys. f x = Inr ys \<and> y \<in> set ys}"
  using assms
proof (induction xs arbitrary: yss)
  case (Cons x xs)
  then obtain ys yss' where y: "f x = Inr ys" "traverse f xs = Inr yss'" "yss = ys # yss'" by (auto simp: andThen_eq_Inr)
  have "set (concat yss) = set ys \<union> {y. \<exists>x\<in>set xs. \<exists>ys. f x = Inr ys \<and> y \<in> set ys}"
    using Cons.IH [OF y(2)] y(3) by simp
  then show ?case using y(1) by auto
qed simp

text \<open>Which patches a build gets.\<close>

lemma featurePatches_set:
  assumes "featurePatches T checkout known disabled = Inr patches"
  shows "set patches = {p. \<exists>es dir ps. tl_list T checkout = Some es \<and> (dir, True) \<in> set es \<and>
      (\<exists>f\<in>set disabled. f \<in> set (dir_features dir)) \<and> readPatches T (path_join checkout dir) = Inr ps \<and> p \<in> set ps}"
proof -
  define dirs where "dirs = (case tl_list T checkout of None \<Rightarrow> [] | Some es \<Rightarrow> map fst (filter snd es))"
  obtain pss where t: "patches = concat pss" "traverse (readPatches T)
      (map (path_join checkout) (sort_by (dir_before T disabled) (filter (\<lambda>dir. dir_rank disabled dir \<noteq> None) dirs))) = Inr pss"
    using assms unfolding featurePatches_def Let_def dirs_def [symmetric] by (auto simp: andThen_eq_Inr split: if_splits)
  have d: "dir \<in> set dirs \<longleftrightarrow> (\<exists>es. tl_list T checkout = Some es \<and> (dir, True) \<in> set es)" for dir
    unfolding dirs_def by (force split: option.split)
  show ?thesis unfolding t(1) traverse_concat [OF t(2)] set_map set_sort_by set_filter dir_rank_iff d by blast
qed

text \<open>The transforms: each module is patched or left alone, and the set is that of the patched files among them.\<close>

lemma transforms_ok:
  assumes "transforms T checkout patches tr modules = Inr (tr', outs)"
  shows "list_all2 (\<lambda>(code, ident) out.
      if module_file T checkout ident \<in> fp_file ` set patches
      then \<exists>o'. out = Some o' \<and> applyPatches T code (module_file T checkout ident) patches = Inr o' else out = None) modules outs \<and>
    set tr' \<subseteq> set tr \<union> (\<lambda>(code, ident). module_file T checkout ident) ` set modules"
  using assms
proof (induction modules arbitrary: tr tr' outs)
  case (Cons m ms)
  obtain tr1 out outs1 where o': "transform T checkout patches tr m = Inr (tr1, out)" "transforms T checkout patches tr1 ms = Inr (tr', outs1)"
      "outs = out # outs1"
    using Cons.prems by (auto simp: andThen_eq_Inr)
  obtain code ident where m: "m = (code, ident)" by (cases m)
  show ?case using Cons.IH [OF o'(2)] o'(1,3) unfolding m
    by (fastforce simp: transform_def Let_def patched_files_def andThen_eq_Inr split: if_splits)
qed simp

text \<open>C33. A build never silently brings a disabled feature back: when the interface is built for a configuration and the
  build succeeds, then for every patch in a directory that names a disabled feature the build loaded the
  patched file, and the code that went into the bundle is the result of applying all patches of that file, in
  order and without fuzz, to the code that was loaded.\<close>

theorem disabled_feature_patched:
  assumes "config_patches T vendor v2 rc = Inr patches" "vendorPatches T checkout patches modules = Inr outs"
    and "tl_list T (path_join vendor (if v2 then ''patches/v2'' else ''patches/v1'')) = Some es" "(dir, True) \<in> set es"
    and "f \<in> set (disabled_features v2 rc)" "f \<in> set (dir_features dir)"
    and "readPatches T (path_join (path_join vendor (if v2 then ''patches/v2'' else ''patches/v1'')) dir) = Inr ps" "p \<in> set ps"
  shows "p \<in> set patches \<and>
    (\<exists>i code ident out. i < length modules \<and> modules ! i = (code, ident) \<and> module_file T checkout ident = fp_file p \<and>
       outs ! i = Some out \<and> applyPatches T code (fp_file p) patches = Inr out)"
proof -
  have p: "p \<in> set patches"
    using assms(3-8) unfolding featurePatches_set [OF assms(1) [unfolded config_patches_def]] by blast
  obtain tr where t: "transforms T checkout patches [] modules = Inr (tr, outs)" "generateBundle patches tr = Inr ()"
    using assms(2) by (auto simp: vendorPatches_def buildStart_def andThen_eq_Inr)
  have "fp_file p \<in> set tr" using t(2) p by (auto simp: generateBundle_def Let_def patched_files_def filter_empty_conv split: if_splits)
  then obtain code ident where "(code, ident) \<in> set modules" "module_file T checkout ident = fp_file p" using transforms_ok [OF t(1)] by auto
  moreover then obtain i where i: "i < length modules" "modules ! i = (code, ident)" by (auto simp: in_set_conv_nth)
  ultimately show ?thesis using list_all2_nthD [OF conjunct1 [OF transforms_ok [OF t(1)]] i(1)] p by auto
qed

definition demo_tools :: "str tools" where
  "demo_tools =
     \<lparr>tl_list = (\<lambda>d. if d = ''v/patches/v1'' then Some [(''shell'', True), (''README'', False)]
                     else if d = ''v/patches/v1/shell'' then Some [(''1.patch'', False)] else None),
      tl_text = (\<lambda>f. if f = ''v/patches/v1/shell/1.patch'' then Some ''+no shell'' else if f = ''oc/app.ts'' then Some ''app'' else None),
      tl_parsePatch = (\<lambda>t. Inr [(Some ''a/app.ts'', Some ''b/app.ts'', t)]),
      tl_applyPatch = (\<lambda>code patch. Some (code @ patch)),
      tl_relative = (\<lambda>from. drop (Suc (length from))),
      tl_localeLe = bytes_le\<rparr>"

definition no_shell_config :: RcConfig where
  "no_shell_config = \<lparr>serverUrl = None, features = (\<lambda>f. case f of Shell \<Rightarrow> False | _ \<Rightarrow> True), v2_features = (\<lambda>f. True), v2_versions = None\<rparr>"

definition shell_patch :: "str FilePatch" where
  "shell_patch = \<lparr>fp_file = ''app.ts'', fp_patch = ''+no shell'', fp_source = ''v/patches/v1/shell/1.patch''\<rparr>"

theorem disabled_feature_patched_witness:
  "\<exists>i code ident out. i < length [(''app'', ''oc/app.ts?x'')] \<and> [(''app'', ''oc/app.ts?x'')] ! i = (code, ident) \<and>
     module_file demo_tools ''oc'' ident = fp_file shell_patch \<and> [Some ''app+no shell''] ! i = Some out \<and>
     applyPatches demo_tools code (fp_file shell_patch) [shell_patch] = Inr out"
proof -
  have c: "config_patches demo_tools ''v'' False no_shell_config = Inr [shell_patch]" by code_simp
  have b: "vendorPatches demo_tools ''oc'' [shell_patch] [(''app'', ''oc/app.ts?x'')] = Inr [Some ''app+no shell'']" by code_simp
  have l: "tl_list demo_tools (path_join ''v'' (if False then ''patches/v2'' else ''patches/v1'')) = Some [(''shell'', True), (''README'', False)]"
    by code_simp
  have f: "''shell'' \<in> set (disabled_features False no_shell_config)" "''shell'' \<in> set (dir_features ''shell'')" by code_simp+
  have r: "readPatches demo_tools (path_join (path_join ''v'' (if False then ''patches/v2'' else ''patches/v1'')) ''shell'') = Inr [shell_patch]"
    by code_simp
  show ?thesis using disabled_feature_patched [OF c b l _ f r, of shell_patch] by simp
qed

text \<open>A policy as a browser reads it: directives between semicolons, a name and sources between spaces.\<close>

definition policy_sources :: "str \<Rightarrow> str \<Rightarrow> str list option" where
  "policy_sources name policy =
     map_option tl (find (\<lambda>d. hd d = name) (map (\<lambda>d. split_on (CHR '' '') (dropWhile (\<lambda>c. c = CHR '' '') d)) (split_on (CHR '';'') policy)))"

lemma split_directives:
  assumes "\<forall>e\<in>set (d # ds). CHR '';'' \<notin> set e"
  shows "split_on (CHR '';'') (join ''; '' (d # ds)) = d # map (\<lambda>e. CHR '' '' # e) ds"
  using assms
proof (induction ds arbitrary: d)
  case (Cons e es)
  have "join ''; '' (d # e # es) = d @ CHR '';'' # (CHR '' '' # join ''; '' (e # es))" by simp
  moreover have "CHR '' '' # join ''; '' (e # es) = join ''; '' ((CHR '' '' # e) # es)" by (cases es) simp_all
  moreover have "split_on (CHR '';'') (join ''; '' ((CHR '' '' # e) # es)) = (CHR '' '' # e) # map (\<lambda>e. CHR '' '' # e) es"
    using Cons.IH [of "CHR '' '' # e"] Cons.prems by auto
  ultimately show ?case using split_on_append [of "CHR '';''" d] Cons.prems by simp
qed (simp add: split_on_single)

lemma ws_origin_set: "set (ws_origin origin) \<subseteq> set origin \<union> set ''ws''"
  by (auto simp: ws_origin_def dest: in_set_dropD)

lemma split_sources:
  assumes "CHR '' '' \<notin> set a" "CHR '' '' \<notin> set b"
  shows "split_on (CHR '' '') (''connect-src '' @ quoted ''self'' @ '' data: '' @ a @ '' '' @ b)
    = [''connect-src'', quoted ''self'', ''data:'', a, b]"
proof -
  have "''connect-src '' @ quoted ''self'' @ '' data: '' @ a @ '' '' @ b =
      ''connect-src'' @ CHR '' '' # quoted ''self'' @ CHR '' '' # ''data:'' @ CHR '' '' # a @ CHR '' '' # b"
    by simp
  moreover have "CHR '' '' \<notin> set ''connect-src''" "CHR '' '' \<notin> set (quoted ''self'')" "CHR '' '' \<notin> set ''data:''"
    by (simp_all add: quoted_def)
  ultimately show ?thesis using assms by (simp only: split_on_append split_on_single not_False_eq_True)
qed

lemma find_map: "find P (map g xs) = map_option g (find (\<lambda>x. P (g x)) xs)"
  by (induction xs) simp_all

lemma hd_split_on: "hd (split_on c s) = takeWhile (\<lambda>x. x \<noteq> c) s"
proof (induction s)
  case (Cons x xs)
  then show ?case by (cases "split_on c xs") auto
qed simp

text \<open>With a server compiled in, the page can connect nowhere else: read as a browser reads it, the connect-src
  directive of the policy is the page's own origin, data addresses and the origin of that server, over HTTP and
  WebSocket.\<close>

theorem connects_only_to_server:
  assumes "contentSecurityPolicy origin_of (Some server) frameAncestors = Inr policy" "server \<noteq> []"
    and "origin_of server = Some origin" "CHR '';'' \<notin> set origin" "CHR '' '' \<notin> set origin"
  shows "policy_sources ''connect-src'' policy = Some [quoted ''self'', ''data:'', origin, ws_origin origin]"
proof -
  let ?ds = "csp_directives (csp_connect (Some origin)) frameAncestors"
  let ?c = "''connect-src '' @ quoted ''self'' @ '' data: '' @ origin @ '' '' @ ws_origin origin"
  have w: "CHR '';'' \<notin> set (ws_origin origin)" "CHR '' '' \<notin> set (ws_origin origin)" using ws_origin_set [of origin] assms(4,5) by auto
  have p: "policy = join ''; '' ?ds" using assms(1-3) by (simp add: contentSecurityPolicy_def)
  have d: "\<forall>e\<in>set ?ds. CHR '';'' \<notin> set e" using assms(4) w(1) by (simp add: csp_directives_def csp_connect_def quoted_def)
  obtain before after where b: "?ds = (''default-src '' @ quoted ''self'') # before @ ?c # after"
      "before = [''script-src '' @ quoted ''self'' @ '' '' @ quoted ''wasm-unsafe-eval'',
      ''style-src '' @ quoted ''self'' @ '' '' @ quoted ''unsafe-inline'',
      ''img-src '' @ quoted ''self'' @ '' data: blob:'',
      ''font-src '' @ quoted ''self'' @ '' data:'']"
    by (simp add: csp_directives_def csp_connect_def quoted_def)
  have s: "split_on (CHR '';'') policy = (''default-src '' @ quoted ''self'') # map (\<lambda>e. CHR '' '' # e) (before @ ?c # after)"
    using split_directives [of "''default-src '' @ quoted ''self''" "before @ ?c # after"] d unfolding p b(1) by blast
  have "dropWhile (\<lambda>c. c = CHR '' '') (CHR '' '' # ?c) = ?c" by simp
  then have c: "split_on (CHR '' '') (dropWhile (\<lambda>c. c = CHR '' '') (CHR '' '' # ?c)) = [''connect-src'', quoted ''self'', ''data:'', origin, ws_origin origin]"
    using split_sources [OF assms(5) w(2)] by metis
  have "find (\<lambda>d. takeWhile (\<lambda>x. x \<noteq> CHR '' '') (dropWhile (\<lambda>c. c = CHR '' '') d) = ''connect-src'')
      ((''default-src '' @ quoted ''self'') # map (\<lambda>e. CHR '' '' # e) (before @ ?c # after)) = Some (CHR '' '' # ?c)"
    unfolding b(2) by simp
  then show ?thesis unfolding policy_sources_def s find_map hd_split_on by (simp only: option.map c list.sel)
qed

theorem connects_only_to_server_witness:
  "policy_sources ''connect-src'' (join ''; '' (csp_directives (csp_connect (Some ''https://rc.example'')) True)) =
    Some [quoted ''self'', ''data:'', ''https://rc.example'', ws_origin ''https://rc.example'']"
  by (rule connects_only_to_server [of "\<lambda>_. Some ''https://rc.example''" "''https://rc.example/base''" True])
     (simp_all add: contentSecurityPolicy_def)

end
