(* ===== verification/Versions.thy ===== *)
theory Versions
  imports Tunnel V2Guard
begin

text \<open>
  Which opencode a machine runs, and which build of the interface shows its session:
  \<open>cli/src/opencode-version.ts\<close> and the check at the start of \<open>cli/src/index.ts\<close>,
  \<open>ui/src/opencode-version.ts\<close> and \<open>ui/src/build-route.ts\<close>; and two small
  parts of the interface, the address of the server (\<open>ui/src/server.ts\<close>) and the limiter
  of access checks (\<open>ui/src/access-recheck.ts\<close>).
\<close>

section \<open>The version the CLI reports\<close>









section \<open>The build that shows a session\<close>

definition ui_isV1Session :: "str option \<Rightarrow> bool" where
  "ui_isV1Session version = (case version of None \<Rightarrow> True | Some v \<Rightarrow> v = [] \<or> startsWith v ''1.'')"

record session_ref =
  sr_id :: str
  sr_version :: "str option"

definition sessionPath :: "session_ref \<Rightarrow> str" where
  "sessionPath session =
     (if ui_isV1Session (sr_version session) then [] else ''/v2'') @ ''/s/'' @ encodeURIComponent (sr_id session) @ ''/''"

record page_place =
  pl_base :: str
  pl_id :: str
  pl_pathname :: str
  pl_search :: str
  pl_hash :: str

text \<open>What follows \<open>base/s/<segment>\<close> in the path, empty when the path is another.\<close>

definition rest_of_path :: "str \<Rightarrow> str \<Rightarrow> str" where
  "rest_of_path base pathname =
     (let r = drop (length base + 3) pathname
      in if startsWith pathname (base @ ''/s/'') \<and> takeWhile (\<lambda>c. c \<noteq> slash) r \<noteq> [] then dropWhile (\<lambda>c. c \<noteq> slash) r else [])"

definition mismatchRedirect :: "session_ref list \<Rightarrow> page_place \<Rightarrow> str option" where
  "mismatchRedirect sessions place =
     (case find (\<lambda>s. sr_id s = pl_id place) sessions of
        None \<Rightarrow> None
      | Some session \<Rightarrow>
          if ui_isV1Session (sr_version session) = (pl_base place = []) then None
          else
            let rest = rest_of_path (pl_base place) (pl_pathname place);
                tail = (if startsWith rest ''/'' then rest else ''/'' @ rest)
            in Some (sessionPath session @ tl tail @ pl_search place @ pl_hash place))"

definition V2_prefix :: str where "V2_prefix = ''/v2/''"
definition INDEX :: str where "INDEX = ''/v2/index.html''"

definition bounceTarget :: "str \<Rightarrow> str \<Rightarrow> str \<Rightarrow> str \<Rightarrow> str option" where
  "bounceTarget base pathname search hash =
     (if base \<noteq> [] \<or> \<not> startsWith pathname V2_prefix \<or> pathname = INDEX then None
      else Some (INDEX @ ''?rc_path='' @ encodeURIComponent (pathname @ search @ hash)))"

definition restoredPath :: "str \<Rightarrow> str \<Rightarrow> str \<Rightarrow> str option" where
  "restoredPath base pathname search =
     (if base \<noteq> ''/v2'' \<or> pathname \<noteq> INDEX then None
      else case params_get ''rc_path'' (search_params search) of
        Some path \<Rightarrow> if startsWith path V2_prefix then Some path else None
      | None \<Rightarrow> None)"

section \<open>The server of the interface\<close>

text \<open>\<open>storage\<close> is the entry in \<open>localStorage\<close>; \<open>works\<close> is false when it throws.\<close>

definition getBaseUrl :: "str option \<Rightarrow> bool \<Rightarrow> str option \<Rightarrow> str" where
  "getBaseUrl preConfiguredUrl works storage =
     (case preConfiguredUrl of
        Some u \<Rightarrow> if u \<noteq> [] then u else (if works then (case storage of Some s \<Rightarrow> s | None \<Rightarrow> []) else [])
      | None \<Rightarrow> if works then (case storage of Some s \<Rightarrow> s | None \<Rightarrow> []) else [])"

definition setBaseUrl :: "bool \<Rightarrow> str \<Rightarrow> str option \<Rightarrow> str option" where
  "setBaseUrl works url storage = (if \<not> works then storage else if url \<noteq> [] then Some (strip_trailing_slashes url) else None)"

section \<open>Access checks\<close>

text \<open>A call at a time: whether it asks, and the time of the last question.\<close>

definition recheck_call :: "int \<Rightarrow> int option \<Rightarrow> int \<Rightarrow> int option \<times> bool" where
  "recheck_call interval asked t =
     (if (case asked of None \<Rightarrow> False | Some l \<Rightarrow> t - l < interval) then (asked, False) else (Some t, True))"

fun recheck_run :: "int \<Rightarrow> int option \<Rightarrow> int list \<Rightarrow> int list" where
  "recheck_run interval asked [] = []"
| "recheck_run interval asked (t # ts) =
     (let (asked', asks) = recheck_call interval asked t in (if asks then [t] else []) @ recheck_run interval asked' ts)"

text \<open>Which answers are handed on: signed out (\<open>None\<close>), or not allowed.\<close>

definition recheck_applies :: "bool option option \<Rightarrow> bool" where
  "recheck_applies user = (case user of None \<Rightarrow> True | Some a \<Rightarrow> a = Some False)"

section \<open>Properties\<close>











lemma rc_path_key: "plain_key ''rc_path''"
  by code_simp

text \<open>C37. A link into the other build survives the bounce through the file the apps' local server can serve: the
  address the first build goes to is that file, from which the second build restores the very path, query and
  fragment; and neither build bounces from there again.\<close>

theorem bounce_restores:
  assumes "bounceTarget [] pathname search hash = Some target" "utf8_valid (pathname @ search @ hash)"
  shows "\<exists>query. target = INDEX @ query \<and> restoredPath ''/v2'' INDEX query = Some (pathname @ search @ hash) \<and>
    bounceTarget base INDEX query h = None"
proof -
  let ?p = "pathname @ search @ hash"
  have t: "target = INDEX @ CHR ''?'' # ''rc_path'' @ CHR ''='' # encodeURIComponent ?p" and v: "startsWith pathname V2_prefix"
    using assms(1) by (auto simp: bounceTarget_def split: if_splits)
  have "form_parse (''rc_path'' @ CHR ''='' # encodeURIComponent ?p) = [(''rc_path'', ?p)]"
    using form_parse_component [of "[(''rc_path'', ?p)]"] rc_path_key assms(2) by simp
  then have "search_params (CHR ''?'' # ''rc_path'' @ CHR ''='' # encodeURIComponent ?p) = [(''rc_path'', ?p)]"
    by (simp only: search_params_question)
  moreover have "startsWith ?p V2_prefix" using v unfolding startsWith_iff by auto
  ultimately have "restoredPath ''/v2'' INDEX (CHR ''?'' # ''rc_path'' @ CHR ''='' # encodeURIComponent ?p) = Some ?p"
    unfolding restoredPath_def by (simp only: params_get_def) simp
  then show ?thesis using t by (intro exI [of _ "CHR ''?'' # ''rc_path'' @ CHR ''='' # encodeURIComponent ?p"]) (simp add: bounceTarget_def)
qed

lemma bounce_demo: "bounceTarget [] ''/v2/s/m1/'' ''?a=b'' ''#x'' = Some (INDEX @ ''?rc_path=%2Fv2%2Fs%2Fm1%2F%3Fa%3Db%23x'')"
  by code_simp

theorem bounce_restores_witness:
  "\<exists>query. INDEX @ ''?rc_path=%2Fv2%2Fs%2Fm1%2F%3Fa%3Db%23x'' = INDEX @ query \<and>
     restoredPath ''/v2'' INDEX query = Some (''/v2/s/m1/'' @ ''?a=b'' @ ''#x'') \<and> bounceTarget [] INDEX query [] = None"
proof (rule bounce_restores [OF bounce_demo])
  show "utf8_valid (''/v2/s/m1/'' @ ''?a=b'' @ ''#x'')" by code_simp
qed

text \<open>A session is shown by the build for its opencode: when the page's build is the wrong one, the redirect goes
  to that session in the other build, keeping query and fragment, and in the build it leads to there is no
  further redirect.\<close>

theorem redirect_right_build:
  assumes "mismatchRedirect sessions place = Some target"
  shows "\<exists>session tail. find (\<lambda>s. sr_id s = pl_id place) sessions = Some session \<and> sr_id session = pl_id place \<and>
    target = sessionPath session @ tail @ pl_search place @ pl_hash place \<and>
    mismatchRedirect sessions (place\<lparr>pl_base := (if ui_isV1Session (sr_version session) then [] else ''/v2''), pl_pathname := p\<rparr>) = None"
proof -
  obtain session where s: "find (\<lambda>s. sr_id s = pl_id place) sessions = Some session"
    using assms by (auto simp: mismatchRedirect_def split: option.splits)
  then have "sr_id session = pl_id place" by (auto simp: find_Some_iff)
  then show ?thesis using assms s by (auto simp: mismatchRedirect_def Let_def split: if_splits)
qed

theorem redirect_right_build_witness:
  "\<exists>session tail. find (\<lambda>s. sr_id s = ''m1'') [\<lparr>sr_id = ''m1'', sr_version = Some ''2.0.1''\<rparr>] = Some session \<and> sr_id session = ''m1'' \<and>
    ''/v2/s/m1/f?q'' = sessionPath session @ tail @ ''?q'' @ []"
proof -
  let ?place = "\<lparr>pl_base = [], pl_id = ''m1'', pl_pathname = ''/s/m1/f'', pl_search = ''?q'', pl_hash = []\<rparr>"
  have "mismatchRedirect [\<lparr>sr_id = ''m1'', sr_version = Some ''2.0.1''\<rparr>] ?place = Some ''/v2/s/m1/f?q''" by code_simp
  from redirect_right_build [OF this, of "[]"] show ?thesis by simp
qed

fun spaced :: "int \<Rightarrow> int list \<Rightarrow> bool" where
  "spaced d (x # y # zs) = (x + d \<le> y \<and> spaced d (y # zs))"
| "spaced d _ = True"

lemma recheck_spaced:
  "spaced d (case asked of None \<Rightarrow> recheck_run d asked ts | Some l \<Rightarrow> l # recheck_run d asked ts)"
proof (induction ts arbitrary: asked)
  case (Cons t ts)
  show ?case
  proof (cases asked)
    case None
    then show ?thesis using Cons.IH [of "Some t"] by (simp add: recheck_call_def)
  next
    case (Some l)
    then show ?thesis using Cons.IH [of "Some t"] Cons.IH [of "Some l"] by (auto simp: recheck_call_def)
  qed
qed (simp split: option.split)

text \<open>Refused requests do not make the interface ask the server again and again: the first one asks, and any two
  questions are at least the interval apart.\<close>

theorem recheck_limited: "spaced interval (recheck_run interval None ts) \<and> take 1 (recheck_run interval None ts) = take 1 ts"
  using recheck_spaced [of interval None ts] by (cases ts) (simp_all add: recheck_call_def)

end
