(* ===== verification/Screens.thy ===== *)
theory Screens
  imports Versions UiAuth
begin

text \<open>
  What the page shows and where it goes: the start of the interface and the choice of its screen
  (\<open>ui/src/entry.tsx\<close>), the screen that asks for the server (\<open>ui/src/config-screen.tsx\<close>) and
  the addresses of the router inside a session (\<open>ui/src/session-router.ts\<close>). Markup and the
  library that renders it are left out: a screen is what it was chosen for.
\<close>

section \<open>The session in the address\<close>

text \<open>\<open>None\<close>: the address is of no session; \<open>Some None\<close>: \<open>decodeURIComponent\<close> throws.\<close>

definition getSessionIdFromPath :: "str \<Rightarrow> str \<Rightarrow> str option option" where
  "getSessionIdFromPath base pathname =
     (let r = takeWhile (\<lambda>c. c \<noteq> slash) (drop (length base + 3) pathname)
      in if startsWith pathname (base @ ''/s/'') \<and> r \<noteq> [] then Some (decodeURIComponent r) else None)"

section \<open>The screen\<close>

datatype screen =
    ProtocolScreen ProtocolState
  | ConfigScreen
  | LoadingScreen
  | LoginScreen bool
  | NoAccessScreen
  | PickerScreen
  | SessionScreen str

datatype user_state = UserLoading | UserError | UserIs json

text \<open>The member \<open>allowed\<close> of the user is false.\<close>

definition denied :: "json \<Rightarrow> bool" where
  "denied user = (case user of JObj ps \<Rightarrow> get_prop ps ''allowed'' = Some (JBool False) | _ \<Rightarrow> False)"

definition app_screen :: "ProtocolState \<Rightarrow> bool \<Rightarrow> user_state \<Rightarrow> str option \<Rightarrow> bool \<Rightarrow> screen" where
  "app_screen protocol showConfig user sessionId loginExpired =
     (if protocol \<noteq> ProtocolOk then ProtocolScreen protocol
      else if showConfig then ConfigScreen
      else case user of
        UserLoading \<Rightarrow> LoadingScreen
      | UserError \<Rightarrow> LoginScreen loginExpired
      | UserIs u \<Rightarrow>
          if u = JNull then LoginScreen loginExpired
          else if denied u then NoAccessScreen
          else case sessionId of None \<Rightarrow> PickerScreen | Some i \<Rightarrow> SessionScreen i)"

text \<open>The gate before a session: where it sends the page, given the answer of \<open>fetchSessions\<close> (\<open>Inl\<close>: it failed).\<close>

definition session_gate :: "str + session_ref list \<Rightarrow> str \<Rightarrow> str \<Rightarrow> str \<Rightarrow> str \<Rightarrow> str \<Rightarrow> str option" where
  "session_gate sessions base sessionId pathname search hash =
     mismatchRedirect (case sessions of Inl _ \<Rightarrow> [] | Inr ss \<Rightarrow> ss)
       \<lparr>pl_base = base, pl_id = sessionId, pl_pathname = pathname, pl_search = search, pl_hash = hash\<rparr>"

datatype started = MovedTo str | ShowsApp "str option"   \<comment> \<open>the address it is restored to\<close>

definition start_page :: "str \<Rightarrow> str \<Rightarrow> str \<Rightarrow> str \<Rightarrow> started" where
  "start_page base pathname search hash =
     (case bounceTarget base pathname search hash of
        Some target \<Rightarrow> MovedTo target
      | None \<Rightarrow> ShowsApp (restoredPath base pathname search))"

section \<open>The server's address\<close>

record health =
  he_status :: nat
  he_json :: "json option"

text \<open>\<open>String(health.protocol ?? "")\<close>, on what a server sends: a string or a whole number.\<close>

definition health_protocol :: "health \<Rightarrow> str" where
  "health_protocol h =
     (case he_json h of
        Some (JObj ps) \<Rightarrow>
          (case get_prop ps ''protocol'' of Some (JStr s) \<Rightarrow> s | Some (JNum n e) \<Rightarrow> jprint (JNum n e) | _ \<Rightarrow> [])
      | _ \<Rightarrow> [])"

text \<open>\<open>handleSave\<close>: the error shown, or the address that is saved.\<close>

definition handleSave :: "(str \<Rightarrow> bool) \<Rightarrow> (str \<Rightarrow> str + health) \<Rightarrow> str \<Rightarrow> str + str" where
  "handleSave is_url fetch url =
     (let value = strip_trailing_slashes (trim url)
      in if value = [] then Inl ''Enter a server URL''
         else if \<not> is_url value then Inl ''Invalid URL''
         else case fetch (value @ ''/healthz'') of
           Inl message \<Rightarrow> Inl (''Cannot reach server: '' @ (if message \<noteq> [] then message else ''connection failed''))
         | Inr h \<Rightarrow>
             if \<not> (200 \<le> he_status h \<and> he_status h < 300) then Inl (''Cannot reach server: '' @ show_nat (he_status h))
             else if readProtocol (Some (health_protocol h)) < MIN_SERVER_PROTOCOL
             then Inl ''This is not an OpenCode RC server, or it is older than this app supports.''
             else Inr value)"

section \<open>Addresses inside a session\<close>




definition prefixed :: "str \<Rightarrow> str \<Rightarrow> str" where
  "prefixed sessionPrefix value = sessionPrefix @ (if startsWith value ''/'' then value else ''/'' @ value)"

section \<open>Properties\<close>

lemma take_escapes_encoded: "take_escapes (length ds) (concat (map percent_encode_char ds) @ r) = Some (ds, r)"
proof (induction ds)
  case (Cons d ds)
  have "take_escape (percent_encode_char d @ s) = Some (d, s)" for s by (rule take_escape_encoded)
  then show ?case using Cons.IH by simp
qed simp

lemma component_high: "128 \<le> byte c \<Longrightarrow> \<not> component_plain c"
  by (auto simp: component_plain_def)

lemma decode_encoded_component: "utf8_valid s \<Longrightarrow> decodeURIComponent (encodeURIComponent s @ r) = map_option ((@) s) (decodeURIComponent r)"
proof (induction s rule: utf8_valid_induct)
  case Nil
  show ?case by (simp add: encodeURIComponent_def option.map_ident)
next
  case (Seq c ds cs)
  have e: "encodeURIComponent (c # ds @ cs) = encodeURIComponent (c # ds) @ encodeURIComponent cs" by (simp add: encodeURIComponent_def)
  have "decodeURIComponent (encodeURIComponent (c # ds) @ t) = map_option ((@) (c # ds)) (decodeURIComponent t)" for t
  proof (cases "component_plain c")
    case True
    then have "ds = []" using utf8_tail_ok_lead [OF Seq(1)] component_high by blast
    then show ?thesis using True component_plain_not [OF True] by (cases "decodeURIComponent t") (simp_all add: encodeURIComponent_def)
  next
    case False
    have d: "\<not> component_plain d" if "d \<in> set ds" for d using utf8_tail_ok_high [OF Seq(1) that] component_high by blast
    then have "encodeURIComponent (c # ds) = percent_encode_char c @ concat (map percent_encode_char ds)"
      using False by (auto simp: encodeURIComponent_def intro!: arg_cong [of _ _ concat])
    moreover obtain a b where "percent_encode_char c = [percent, a, b]" by (simp add: percent_encode_char_def)
    moreover have "take_escape (percent_encode_char c @ s) = Some (c, s)" for s by (rule take_escape_encoded)
    moreover have "utf8_extra c = Some (length ds)" using Seq(1) by (simp add: utf8_tail_ok_def)
    ultimately show ?thesis using Seq(1) take_escapes_encoded [of ds t] by (simp add: decodeURIComponent.simps(2) del: take_escape.simps)
  qed
  then show ?case using Seq.IH unfolding e by (simp add: option.map_comp comp_def)
qed

lemma session_in_path:
  assumes "utf8_valid i" "i \<noteq> []"
  shows "getSessionIdFromPath base (base @ ''/s/'' @ encodeURIComponent i @ ''/'' @ t) = Some (Some i)"
proof -
  have n: "slash \<notin> set (encodeURIComponent i)" using encodeURIComponent_set component_plain_not by (fastforce)
  have "encodeURIComponent i \<noteq> []" using assms(2) by (cases i) (auto simp: encodeURIComponent_def percent_encode_char_def)
  moreover have "drop (length base + 3) (base @ ''/s/'' @ encodeURIComponent i @ ''/'' @ t) = encodeURIComponent i @ slash # t" by simp
  moreover have "takeWhile (\<lambda>c. c \<noteq> slash) (encodeURIComponent i @ slash # t) = encodeURIComponent i"
    by (subst takeWhile_append2) (use n in auto)
  moreover have "startsWith (base @ ''/s/'' @ encodeURIComponent i @ ''/'' @ t) (base @ ''/s/'')" by (auto simp: startsWith_iff)
  ultimately show ?thesis using decode_encoded_component [OF assms(1), of "[]"] by (simp add: getSessionIdFromPath_def Let_def)
qed

text \<open>C38. The gate before a session sends the page on at most once: at the address it leads to, the build that answers
  there reads the same session from the path and its gate lets it stay, whatever the rest of the address is.\<close>

theorem gate_settles:
  assumes "session_gate (Inr sessions) base i pathname search hash = Some target" "utf8_valid i" "i \<noteq> []"
  shows "\<exists>base' pathname'. (base' = [] \<or> base' = ''/v2'') \<and> target = pathname' @ search @ hash \<and> startsWith pathname' base' \<and>
    getSessionIdFromPath base' pathname' = Some (Some i) \<and> session_gate (Inr sessions) base' i pathname' search hash = None"
proof -
  obtain session where s: "find (\<lambda>s. sr_id s = i) sessions = Some session"
    using assms(1) by (auto simp: session_gate_def mismatchRedirect_def split: option.splits)
  then have i: "sr_id session = i" by (auto simp: find_Some_iff)
  define base' where "base' = (if ui_isV1Session (sr_version session) then [] else ''/v2'')"
  obtain t where t: "target = sessionPath session @ t @ search @ hash"
    using assms(1) s by (auto simp: session_gate_def mismatchRedirect_def Let_def split: if_splits)
  define p where "p = base' @ ''/s/'' @ encodeURIComponent i @ ''/'' @ t"
  have "target = p @ search @ hash" using t i by (simp add: p_def base'_def sessionPath_def)
  moreover have "startsWith p base'" by (auto simp: p_def startsWith_iff)
  moreover have "session_gate (Inr sessions) base' i p search hash = None"
    using s by (simp add: session_gate_def mismatchRedirect_def base'_def)
  moreover have "base' = [] \<or> base' = ''/v2''" by (simp add: base'_def)
  ultimately show ?thesis using session_in_path [OF assms(2,3)] unfolding p_def by blast
qed

theorem gate_settles_witness:
  "\<exists>base' pathname'. (base' = [] \<or> base' = ''/v2'') \<and> ''/v2/s/m%201/f?q'' = pathname' @ ''?q'' @ [] \<and> startsWith pathname' base' \<and>
    getSessionIdFromPath base' pathname' = Some (Some ''m 1'') \<and>
    session_gate (Inr [\<lparr>sr_id = ''m 1'', sr_version = Some ''2.0.1''\<rparr>]) base' ''m 1'' pathname' ''?q'' [] = None"
proof (rule gate_settles)
  show "session_gate (Inr [\<lparr>sr_id = ''m 1'', sr_version = Some ''2.0.1''\<rparr>]) [] ''m 1'' ''/s/m%201/f'' ''?q'' [] = Some ''/v2/s/m%201/f?q''"
    by code_simp
  show "utf8_valid ''m 1''" by code_simp
qed simp

lemma strip_trailing_idem: "strip_trailing_slashes (strip_trailing_slashes s) = strip_trailing_slashes s"
proof -
  have "dropWhile P (dropWhile P xs) = dropWhile P xs" for P and xs :: str by (induction xs) auto
  then show ?thesis by (simp add: strip_trailing_slashes_def)
qed

text \<open>A server address is saved only after a server with a protocol this interface understands answered
  under it, and it is the address the interface then uses.\<close>

theorem saved_server_answered:
  assumes "handleSave is_url fetch url = Inr value"
  shows "is_url value \<and> (\<exists>h. fetch (value @ ''/healthz'') = Inr h \<and> 200 \<le> he_status h \<and> he_status h < 300 \<and>
      MIN_SERVER_PROTOCOL \<le> readProtocol (Some (health_protocol h))) \<and>
    getBaseUrl None True (setBaseUrl True value storage) = value"
  using assms by (auto simp: handleSave_def Let_def setBaseUrl_def getBaseUrl_def strip_trailing_idem split: if_splits sum.splits)





end
